(* ===== verification/CLib.thy ===== *)
theory CLib
  imports Prelude "HOL-Library.Word"
begin

unbundle bit_operations_syntax

text \<open>
  What the sources use of the C standard library, on the data they use it on.  A character
  array is a list of cells, \<open>None\<close> for a cell the program has not written; a C string is the
  characters before the first NUL cell.  Reading an array that has no NUL before its first
  indeterminate cell or its end is undefined behaviour, which \<open>cstr\<close> reports as \<open>None\<close>.
\<close>

section \<open>Buffers and C strings\<close>

type_synonym cbuf = "char option list"

fun cstr :: "cbuf \<Rightarrow> string option" where
  "cstr [] = None"
| "cstr (None # b) = None"
| "cstr (Some c # b) = (if c = NUL then Some [] else map_option ((#) c) (cstr b))"

definition lit :: "string \<Rightarrow> cbuf" where
  "lit s = map Some s @ [Some NUL]"

definition uninit :: "nat \<Rightarrow> cbuf" where
  "uninit n = replicate n None"

definition zeroed :: "nat \<Rightarrow> cbuf" where
  "zeroed n = replicate n (Some NUL)"

definition no_nul :: "string \<Rightarrow> bool" where
  "no_nul s \<longleftrightarrow> NUL \<notin> set s"

lemma cstr_append_nul:
  "cstr (map Some s @ Some NUL # b) = Some (takeWhile (\<lambda>c. c \<noteq> NUL) s)"
  by (induction s) auto

lemma cstr_lit [buf_simps]: "no_nul s \<Longrightarrow> cstr (lit s) = Some s"
  using cstr_append_nul [of s "[]"] takeWhile_eq_all_conv [of "\<lambda>c. c \<noteq> NUL" s]
  by (auto simp: lit_def no_nul_def)

lemma cstr_zeroed [buf_simps]: "0 < n \<Longrightarrow> cstr (zeroed n) = Some []"
  by (cases n) (auto simp: zeroed_def)

lemma cstr_full:
  "cstr (map Some s) = (if NUL \<in> set s then Some (takeWhile (\<lambda>c. c \<noteq> NUL) s) else None)"
  by (induction s) auto

lemma cstr_no_nul: "cstr b = Some s \<Longrightarrow> no_nul s"
  by (induction b arbitrary: s rule: cstr.induct) (auto simp: no_nul_def split: if_splits)

lemma length_uninit [simp]: "length (uninit n) = n"
  by (simp add: uninit_def)

lemma length_zeroed [simp]: "length (zeroed n) = n"
  by (simp add: zeroed_def)

section \<open>Searching and splitting\<close>

text \<open>\<open>strchr s c\<close>: the rest of the string from the first \<open>c\<close>.\<close>

fun strchr :: "string \<Rightarrow> char \<Rightarrow> string option" where
  "strchr [] c = None"
| "strchr (x # s) c = (if x = c then Some (x # s) else strchr s c)"

lemma strchr_None [simp]: "strchr s c = None \<longleftrightarrow> c \<notin> set s"
  by (induction s) auto

lemma strchr_first:
  "c \<notin> set a \<Longrightarrow> strchr (a @ c # b) c = Some (c # b)"
  by (induction a) auto

text \<open>
  \<open>strtok\<close> returns the token and what the next call with a null pointer scans: it skips
  leading delimiters, cuts at the next one and continues after it.
\<close>

definition strtok :: "string \<Rightarrow> string \<Rightarrow> (string \<times> string) option" where
  "strtok s d =
     (let s' = dropWhile (\<lambda>c. c \<in> set d) s in
      if s' = [] then None
      else Some (takeWhile (\<lambda>c. c \<notin> set d) s', drop 1 (dropWhile (\<lambda>c. c \<notin> set d) s')))"

lemma strtok_first:
  assumes "a \<noteq> []" and "set a \<inter> set d = {}" and "c \<in> set d"
  shows "strtok (a @ c # b) d = Some (a, b)"
proof -
  have h: "dropWhile (\<lambda>x. x \<in> set d) (a @ c # b) = a @ c # b"
    using assms(1,2) by (cases a) auto
  have "\<forall>x\<in>set a. x \<notin> set d" using assms(2) by auto
  with assms(1,3) h show ?thesis
    by (simp add: strtok_def takeWhile_append_stop dropWhile_append_stop)
qed

lemma strtok_last:
  assumes "a \<noteq> []" and "set a \<inter> set d = {}"
  shows "strtok a d = Some (a, [])"
proof -
  have "dropWhile (\<lambda>x. x \<in> set d) a = a" using assms by (cases a) auto
  moreover have "\<forall>x\<in>set a. x \<notin> set d" using assms(2) by auto
  ultimately show ?thesis using assms(1)
    by (simp add: strtok_def takeWhile_eq_all_conv [THEN iffD2] dropWhile_eq_Nil_conv [THEN iffD2])
qed

lemma strtok_empty_delims: "s \<noteq> [] \<Longrightarrow> strtok s [] = Some (s, [])"
  using strtok_last [of s "[]"] by simp

lemma strtok_None: "strtok s d = None \<longleftrightarrow> set s \<subseteq> set d"
  by (auto simp: strtok_def Let_def dropWhile_eq_Nil_conv)

lemma strtok_skip: "c \<in> set d \<Longrightarrow> strtok (c # s) d = strtok s d"
  by (simp add: strtok_def)

lemma strtok_token:
  assumes "strtok s d = Some (t, r)"
  shows "t \<noteq> []" and "set t \<inter> set d = {}" and "set t \<subseteq> set s"
proof -
  let ?s = "dropWhile (\<lambda>c. c \<in> set d) s"
  have s: "?s \<noteq> []" and t: "t = takeWhile (\<lambda>c. c \<notin> set d) ?s"
    using assms by (auto simp: strtok_def Let_def split: if_splits)
  from s have "hd ?s \<notin> set d" by (rule hd_dropWhile)
  with s t show "t \<noteq> []" by (cases ?s) auto
  show "set t \<inter> set d = {}" using t by (auto dest: set_takeWhileD)
  show "set t \<subseteq> set s" using t by (auto dest: set_takeWhileD set_dropWhileD)
qed

lemma strtok_rest_shorter:
  assumes "strtok s d = Some (t, r)"
  shows "length r < length s"
proof -
  let ?s = "dropWhile (\<lambda>c. c \<in> set d) s"
  have s: "?s \<noteq> []" and r: "r = drop 1 (dropWhile (\<lambda>c. c \<notin> set d) ?s)"
    using assms by (auto simp: strtok_def Let_def split: if_splits)
  from s have "hd ?s \<notin> set d" by (rule hd_dropWhile)
  with s have "length (dropWhile (\<lambda>c. c \<notin> set d) ?s) < length ?s"
    by (intro length_dropWhile_less)
  with r show ?thesis using length_dropWhile_le [of "\<lambda>c. c \<in> set d" s] by simp
qed

section \<open>Character classes\<close>

definition isspace :: "char \<Rightarrow> bool" where
  "isspace c \<longleftrightarrow> c \<in> set [SPC, TAB, NL, CHR 0x0B, CHR 0x0C, CHR 0x0D]"

text \<open>
  \<open>toupper\<close> takes an \<open>int\<close> that is the value of an \<open>unsigned char\<close> or \<open>EOF\<close>, and is undefined for any other.  A plain
  \<open>char\<close> is signed here, so a byte from 128 on is passed as a negative number; only the byte 255 is
  passed as \<open>EOF\<close>.
\<close>

definition ctype_defined :: "char \<Rightarrow> bool" where
  "ctype_defined c \<longleftrightarrow> (let n = of_char c :: nat in n < 128 \<or> n = 255)"

definition toupper :: "char \<Rightarrow> char" where
  "toupper c = (let n = of_char c :: nat in
     if 97 \<le> n \<and> n \<le> 122 then char_of (n - 32) else c)"

lemma of_char_toupper:
  "of_char (toupper c) = (let n = of_char c :: nat in if 97 \<le> n \<and> n \<le> 122 then n - 32 else n)"
proof -
  have "of_char c < (256::nat)" by (metis of_char_mod_256 mod_less_divisor zero_less_numeral)
  then show ?thesis by (auto simp: toupper_def Let_def)
qed

lemma toupper_idem: "toupper (toupper c) = toupper c"
proof -
  have "(of_char (toupper (toupper c)) :: nat) = of_char (toupper c)"
    by (auto simp: of_char_toupper Let_def)
  then show ?thesis by (metis char_of_char)
qed

lemma ctype_defined_toupper [simp]: "ctype_defined (toupper c) = ctype_defined c"
  by (auto simp: ctype_defined_def of_char_toupper Let_def)

lemma toupper_NUL_iff: "toupper c = NUL \<longleftrightarrow> c = NUL"
proof
  assume "toupper c = NUL"
  then have "of_char (toupper c) = (0::nat)" by simp
  then have "of_char c = (0::nat)"
    by (auto simp: of_char_toupper Let_def split: if_splits)
  then have "of_char c = (of_char NUL :: nat)" by simp
  then show "c = NUL" by (rule of_char_eqI)
next
  assume "c = NUL"
  then show "toupper c = NUL" by (simp add: toupper_def)
qed

section \<open>Decimal output and input\<close>

definition digit_char :: "nat \<Rightarrow> char" where
  "digit_char d = char_of (48 + d)"

fun show_nat :: "nat \<Rightarrow> string" where
  "show_nat n = (if n < 10 then [digit_char n] else show_nat (n div 10) @ [digit_char (n mod 10)])"

declare show_nat.simps [simp del]

definition show_int :: "int \<Rightarrow> string" where
  "show_int i = (if i < 0 then CHR ''-'' # show_nat (nat (- i)) else show_nat (nat i))"

definition is_digit :: "char \<Rightarrow> bool" where
  "is_digit c \<longleftrightarrow> 48 \<le> (of_char c :: nat) \<and> (of_char c :: nat) \<le> 57"

definition digit_val :: "char \<Rightarrow> nat" where
  "digit_val c = of_char c - 48"

fun atoi_digits :: "nat \<Rightarrow> string \<Rightarrow> nat" where
  "atoi_digits a [] = a"
| "atoi_digits a (c # s) = (if is_digit c then atoi_digits (10 * a + digit_val c) s else a)"

definition atoi :: "string \<Rightarrow> int" where
  "atoi s = (case dropWhile isspace s of
       [] \<Rightarrow> 0
     | c # r \<Rightarrow> if c = CHR ''-'' then - int (atoi_digits 0 r)
                else if c = CHR ''+'' then int (atoi_digits 0 r)
                else int (atoi_digits 0 (c # r)))"

lemma of_digit_char [simp]: "d < 10 \<Longrightarrow> of_char (digit_char d) = (48 + d :: nat)"
  by (simp add: digit_char_def)

lemma is_digit_digit_char [simp]: "d < 10 \<Longrightarrow> is_digit (digit_char d)"
  by (simp add: is_digit_def)

lemma digit_val_digit_char [simp]: "d < 10 \<Longrightarrow> digit_val (digit_char d) = d"
  by (simp add: digit_val_def)

lemma show_nat_digits: "\<forall>c\<in>set (show_nat n). is_digit c"
proof (induction n rule: show_nat.induct)
  case (1 n)
  then show ?case by (subst show_nat.simps) auto
qed

lemma show_nat_nonempty [simp]: "show_nat n \<noteq> []"
  by (subst show_nat.simps) simp

lemma atoi_digits_append:
  "\<forall>c\<in>set s. is_digit c \<Longrightarrow> atoi_digits a (s @ t) = atoi_digits (atoi_digits a s) t"
  by (induction s arbitrary: a) auto

lemma atoi_show_nat: "atoi_digits 0 (show_nat n) = n"
proof (induction n rule: show_nat.induct)
  case (1 n)
  then show ?case
    by (subst show_nat.simps) (auto simp: atoi_digits_append show_nat_digits)
qed

lemma show_nat_inj: "show_nat m = show_nat n \<longleftrightarrow> m = n"
  by (metis atoi_show_nat)

lemma not_digit_minus: "\<not> is_digit (CHR ''-'')"
  by (simp add: is_digit_def)

lemma show_nat_hd: "show_nat n = c # s \<Longrightarrow> is_digit c"
  using show_nat_digits [of n] by simp

lemma show_int_inj: "show_int i = show_int j \<longleftrightarrow> i = j"
proof
  assume h: "show_int i = show_int j"
  have "i < 0 \<longleftrightarrow> j < 0"
    using h not_digit_minus show_nat_hd by (auto simp: show_int_def split: if_splits) metis+
  with h show "i = j" by (auto simp: show_int_def show_nat_inj split: if_splits)
qed simp

lemma atoi_show_int: "atoi (show_int i) = i"
proof (cases "i < 0")
  case True
  then show ?thesis
    by (simp add: atoi_def show_int_def isspace_def atoi_show_nat)
next
  case False
  obtain c s where cs: "show_nat (nat i) = c # s" by (cases "show_nat (nat i)") simp_all
  then have "is_digit c" by (rule show_nat_hd)
  then have "\<not> isspace c" "c \<noteq> CHR ''-''" "c \<noteq> CHR ''+''"
    by (auto simp: isspace_def is_digit_def)
  with False cs show ?thesis
    using atoi_show_nat [of "nat i"] by (simp add: atoi_def show_int_def)
qed

lemma show_nat_no_nul: "no_nul (show_nat n)"
  using show_nat_digits [of n] by (auto simp: no_nul_def is_digit_def)

lemma show_int_no_nul: "no_nul (show_int i)"
  using show_nat_no_nul by (auto simp: show_int_def no_nul_def)

text \<open>The number of characters: \<open>k\<close> digits up to \<open>10 ^ k - 1\<close>.\<close>

lemma show_nat_length: "0 < k \<Longrightarrow> n < 10 ^ k \<Longrightarrow> length (show_nat n) \<le> k"
proof (induction n arbitrary: k rule: show_nat.induct)
  case (1 n)
  show ?case
  proof (cases "n < 10")
    case True
    with "1.prems" show ?thesis by (subst show_nat.simps) simp
  next
    case False
    then obtain k' where k: "k = Suc k'" "0 < k'"
      using "1.prems" by (cases k; cases "k - 1") auto
    have "n div 10 < 10 ^ k'" using "1.prems"(2) k by auto
    with "1.IH" False k have "length (show_nat (n div 10)) \<le> k'" by simp
    with False k show ?thesis by (subst show_nat.simps) simp
  qed
qed

text \<open>\<open>snprintf\<close> into an array of \<open>n\<close> cells keeps at most \<open>n - 1\<close> characters.\<close>

definition snprintf :: "nat \<Rightarrow> string \<Rightarrow> string" where
  "snprintf n s = take (n - 1) s"

lemma snprintf_fits: "length s < n \<Longrightarrow> snprintf n s = s"
  by (simp add: snprintf_def)

section \<open>Reading a line\<close>

text \<open>\<open>fgets\<close>: at most \<open>n - 1\<close> characters up to a newline; a null pointer when the input ends before the
  first character, or on a read error.\<close>

fun take_line :: "nat \<Rightarrow> string \<Rightarrow> string \<times> string" where
  "take_line 0 s = ([], s)"
| "take_line (Suc k) [] = ([], [])"
| "take_line (Suc k) (c # s) =
     (if c = NL then ([c], s) else (let (l, r) = take_line k s in (c # l, r)))"

definition fgets :: "nat \<Rightarrow> bool \<Rightarrow> string \<Rightarrow> string option \<times> string" where
  "fgets n ferr s =
     (let (l, r) = take_line (n - 1) s;
          complete = (length l = n - 1 \<or> (l \<noteq> [] \<and> last l = NL))
      in if \<not> complete \<and> (ferr \<or> l = []) then (None, r) else (Some l, r))"

lemma take_line_append: "take_line k s = (l, r) \<Longrightarrow> s = l @ r"
  by (induction k s arbitrary: l r rule: take_line.induct) (auto split: if_splits prod.splits)

lemma fgets_Some_shorter:
  assumes "fgets n ferr s = (Some l, r)" "1 < n"
  shows "length r < length s"
proof -
  have "take_line (n - 1) s = (l, r)" "l \<noteq> []"
    using assms by (auto simp: fgets_def Let_def split: prod.splits if_splits)
  then show ?thesis using take_line_append by fastforce
qed

lemma take_line_newline:
  "NL \<notin> set a \<Longrightarrow> length a < k \<Longrightarrow> take_line k (a @ NL # r) = (a @ [NL], r)"
proof (induction a arbitrary: k)
  case Nil
  then show ?case by (cases k) simp_all
next
  case (Cons c a)
  then show ?case by (cases k) auto
qed

lemma fgets_line:
  "NL \<notin> set a \<Longrightarrow> length a < n - 1 \<Longrightarrow> fgets n ferr (a @ NL # r) = (Some (a @ [NL]), r)"
  by (simp add: fgets_def take_line_newline)

end
