(* ===== verification/Display.thy ===== *)
theory Display
  imports CLib
begin

text \<open>
  \<open>display.c\<close> (the copies in \<open>process/\<close> and \<open>communication/\<close> are the same file): how a child's
  termination is reported.  A wait status is a C \<open>int\<close>, so a 32-bit word; the \<open>W...\<close> macros of
  \<open>sys/wait.h\<close> read its low seven bits and its second byte.  The names of the signals come
  from \<open>strsignal\<close>, a parameter.
\<close>

unbundle bit_operations_syntax

type_synonym pid = int
type_synonym wstatus = "32 word"

section \<open>Wait statuses\<close>

definition WTERMSIG :: "wstatus \<Rightarrow> wstatus" where
  "WTERMSIG s = s AND 0x7F"

definition WIFEXITED :: "wstatus \<Rightarrow> bool" where
  "WIFEXITED s \<longleftrightarrow> WTERMSIG s = 0"

definition WEXITSTATUS :: "wstatus \<Rightarrow> wstatus" where
  "WEXITSTATUS s = drop_bit 8 (s AND 0xFF00)"

text \<open>What the kernel stores: the exit value in the second byte, or the signal number (and
  the core flag, bit 7) in the first.\<close>

definition exit_wstatus :: "8 word \<Rightarrow> wstatus" where
  "exit_wstatus e = push_bit 8 (ucast e)"

definition kill_wstatus :: "7 word \<Rightarrow> bool \<Rightarrow> wstatus" where
  "kill_wstatus sig core = (ucast sig :: wstatus) OR (if core then 0x80 else 0)"

section \<open>\<open>display_status\<close>\<close>

definition display_status :: "pid \<Rightarrow> wstatus \<Rightarrow> string" where
  "display_status pid status =
     (if pid \<noteq> 0 then ''Process '' @ show_int pid @ '': '' else [])
     @ (if WIFEXITED status
        then ''Exit value '' @ show_int (sint status) @ '' '' @ show_int (sint (WEXITSTATUS status)) @ [NL]
        else ''Killed by signal: '' @ show_int (sint (WTERMSIG status)) @ [NL])"

section \<open>\<open>display_status_s\<close>\<close>

record siginfo =
  si_pid :: pid
  si_code :: int
  si_status :: int
  si_errno :: int

definition CLD_EXITED :: int where "CLD_EXITED = 1"

definition display_status_s :: "(int \<Rightarrow> string) \<Rightarrow> siginfo \<Rightarrow> string" where
  "display_status_s strsignal infop =
     ''Process '' @ show_int (si_pid infop) @ '' terminated:'' @ [NL]
     @ [TAB] @ ''code = '' @ show_int (si_code infop) @ ''('' @ strsignal (si_code infop) @ '')'' @ [NL]
     @ (if si_code infop = CLD_EXITED
        then [TAB] @ ''user-defined exit value = '' @ show_int (si_status infop) @ [NL]
        else [TAB] @ ''signal = '' @ show_int (si_status infop) @ ''('' @ strsignal (si_status infop) @ '')'' @ [NL])
     @ [TAB] @ ''error = '' @ show_int (si_errno infop) @ [NL]"

section \<open>Decoding what was encoded\<close>

lemma low7_mask: "(0x7F :: wstatus) = mask 7"
  by (simp add: mask_eq_exp_minus_1)

lemma byte1_mask: "(0xFF00 :: wstatus) = push_bit 8 (mask 8)"
  by (simp add: mask_eq_exp_minus_1 push_bit_eq_mult)

lemma WTERMSIG_exit [simp]: "WTERMSIG (exit_wstatus e) = 0"
  unfolding WTERMSIG_def exit_wstatus_def low7_mask
  by (rule bit_word_eqI) (simp add: bit_simps)

lemma WEXITSTATUS_exit [simp]: "WEXITSTATUS (exit_wstatus e) = ucast e"
  unfolding WEXITSTATUS_def exit_wstatus_def byte1_mask
  by (rule bit_word_eqI) (auto simp: bit_simps dest: bit_imp_le_length)

lemma ucast7_mask: "(ucast (sig :: 7 word) :: wstatus) AND 0x7F = ucast sig"
  unfolding low7_mask by (rule bit_word_eqI) (auto simp: bit_simps dest: bit_imp_le_length)

lemma WTERMSIG_kill [simp]: "WTERMSIG (kill_wstatus sig core) = ucast sig"
  by (simp add: WTERMSIG_def kill_wstatus_def bit.conj_disj_distrib2 ucast7_mask)

lemma sint_small: "uint (w :: wstatus) < 2 ^ 31 \<Longrightarrow> sint w = uint w"
proof -
  assume "uint w < 2 ^ 31"
  moreover have "- (2 ^ 31) \<le> uint w" by (rule order_trans [of _ 0]) simp_all
  ultimately show ?thesis by (simp add: sint_uint signed_take_bit_int_eq_self)
qed

lemma uint_ucast8: "uint (ucast (e :: 8 word) :: wstatus) = uint e"
  using unsigned_less [of e, where 'a = int]
  by (simp add: unsigned_ucast_eq take_bit_int_eq_self)

lemma uint_ucast7: "uint (ucast (e :: 7 word) :: wstatus) = uint e"
  using unsigned_less [of e, where 'a = int]
  by (simp add: unsigned_ucast_eq take_bit_int_eq_self)

lemma sint_ucast8: "sint (ucast (e :: 8 word) :: wstatus) = uint e"
  using unsigned_less [of e, where 'a = int] by (subst sint_small) (simp_all add: uint_ucast8)

lemma sint_ucast7: "sint (ucast (e :: 7 word) :: wstatus) = uint e"
  using unsigned_less [of e, where 'a = int] by (subst sint_small) (simp_all add: uint_ucast7)

lemma sint_exit_wstatus: "sint (exit_wstatus e) = 256 * uint e"
proof -
  have b: "uint e < 256" using unsigned_less [of e, where 'a = int] by simp
  have "uint (exit_wstatus e) = take_bit 32 (push_bit 8 (uint e))"
    by (simp add: exit_wstatus_def unsigned_push_bit_eq uint_ucast8)
  also have "\<dots> = 256 * uint e"
    using b by (simp add: push_bit_eq_mult take_bit_int_eq_self)
  finally have u: "uint (exit_wstatus e) = 256 * uint e" .
  with b show ?thesis by (simp add: sint_small)
qed

lemma WIFEXITED_exit [simp]: "WIFEXITED (exit_wstatus e)"
  by (simp add: WIFEXITED_def)

lemma WIFEXITED_kill: "WIFEXITED (kill_wstatus sig core) \<longleftrightarrow> sig = 0"
  by (metis WIFEXITED_def WTERMSIG_kill sint_ucast7 signed_0 unsigned_0 unsigned_eq_0_iff)

end
