(* ===== verification/Posix.thy ===== *)
theory Posix
  imports CLib
begin

text \<open>
  The POSIX calls the programs make on descriptors: a descriptor table maps the open
  descriptors to what they refer to.  \<open>dup2\<close>, \<open>close\<close>, \<open>fcntl (F_GETFL)\<close> and the rule that a new
  descriptor is the lowest free one are as POSIX documents them; whether a given \<open>open\<close>
  succeeds is up to the environment and is an argument.
\<close>

type_synonym fd = int

abbreviation STDIN_FILENO :: fd where "STDIN_FILENO \<equiv> 0"
abbreviation STDOUT_FILENO :: fd where "STDOUT_FILENO \<equiv> 1"
abbreviation STDERR_FILENO :: fd where "STDERR_FILENO \<equiv> 2"

datatype ofile =
    Std fd                  \<comment> \<open>what the program inherited on a standard descriptor\<close>
  | RdFile string           \<comment> \<open>opened with \<open>O_RDONLY\<close>\<close>
  | WrFile string bool      \<comment> \<open>opened with \<open>O_WRONLY | O_CREAT\<close> and \<open>O_APPEND\<close> (True) or \<open>O_TRUNC\<close>\<close>
  | PipeR nat
  | PipeW nat

type_synonym fdtable = "fd \<rightharpoonup> ofile"

datatype errno = EBADF | EMFILE | ENOENT

definition std_fds :: fdtable where
  "std_fds = [0 \<mapsto> Std 0, 1 \<mapsto> Std 1, 2 \<mapsto> Std 2]"

section \<open>Operations\<close>

definition lowest_free :: "nat \<Rightarrow> fdtable \<Rightarrow> fd option" where
  "lowest_free nofile t = find (\<lambda>i. t i = None) (map int [0..<nofile])"

definition open_fd :: "nat \<Rightarrow> bool \<Rightarrow> ofile \<Rightarrow> fdtable \<Rightarrow> (errno + fd) \<times> fdtable" where
  "open_fd nofile exists f t =
     (if \<not> exists then (Inl ENOENT, t)
      else case lowest_free nofile t of
             None \<Rightarrow> (Inl EMFILE, t)
           | Some d \<Rightarrow> (Inr d, t(d \<mapsto> f)))"

definition fd_of :: "errno + fd \<Rightarrow> fd" where
  "fd_of r = (case r of Inl _ \<Rightarrow> - 1 | Inr d \<Rightarrow> d)"

definition dup2 :: "fd \<Rightarrow> fd \<Rightarrow> fdtable \<Rightarrow> fdtable" where
  "dup2 old new t = (case t old of None \<Rightarrow> t | Some f \<Rightarrow> t(new \<mapsto> f))"

definition close_fd :: "fd \<Rightarrow> fdtable \<Rightarrow> fdtable" where
  "close_fd d t = t(d := None)"

definition pipe_fd :: "nat \<Rightarrow> nat \<Rightarrow> fdtable \<Rightarrow> (fd \<times> fd) option \<times> fdtable" where
  "pipe_fd nofile k t =
     (case lowest_free nofile t of
        None \<Rightarrow> (None, t)
      | Some r \<Rightarrow>
          (case lowest_free nofile (t(r \<mapsto> PipeR k)) of
             None \<Rightarrow> (None, t)
           | Some w \<Rightarrow> (Some (r, w), t(r \<mapsto> PipeR k, w \<mapsto> PipeW k))))"

definition fcntl_getfl :: "fd \<Rightarrow> fdtable \<Rightarrow> errno + ofile" where
  "fcntl_getfl d t = (case t d of None \<Rightarrow> Inl EBADF | Some f \<Rightarrow> Inr f)"

section \<open>The descriptor interface\<close>

text \<open>
  What the redirection code relies on: \<open>close\<close> forgets one descriptor, \<open>dup2\<close> makes one
  descriptor refer to what another (if it is open) refers to, and nothing else changes.
\<close>

locale descriptor_ops =
  fixes look :: "'t \<Rightarrow> fd \<Rightarrow> 'f option"
    and shut :: "fd \<Rightarrow> 't \<Rightarrow> 't"
    and dupl :: "fd \<Rightarrow> fd \<Rightarrow> 't \<Rightarrow> 't"
  assumes look_shut: "look (shut a t) b = (if b = a then None else look t b)"
    and look_dupl: "look (dupl a b t) c = (if c = b \<and> look t a \<noteq> None then look t a else look t c)"
begin

text \<open>The idiom of every child in these sources: \<open>dup2 (a, b); if (a != b) close (a)\<close>.\<close>

lemma look_moved:
  "look (if a = b then dupl a b t else shut a (dupl a b t)) c =
     (if c = b then (if look t a = None then look t b else look t a)
      else if c = a then None else look t c)"
  by (auto simp: look_shut look_dupl)

lemma look_shut_all: "look (foldr shut ds t) c = (if c \<in> set ds then None else look t c)"
  by (induction ds) (auto simp: look_shut)

end

lemma close_fd_apply [fd_simps]: "close_fd a t b = (if b = a then None else t b)"
  by (simp add: close_fd_def)

lemma dup2_apply [fd_simps]:
  "dup2 a b t c = (if c = b \<and> t a \<noteq> None then t a else t c)"
  by (auto simp: dup2_def split: option.splits)

interpretation fds: descriptor_ops "\<lambda>t. t :: fdtable" close_fd dup2
  by unfold_locales (auto simp: fd_simps)

lemma dup2_same [simp]: "dup2 a a t = t"
  by (rule ext) (simp add: fd_simps)

lemma dup2_closed: "t a = None \<Longrightarrow> dup2 a b t = t"
  by (rule ext) (simp add: fd_simps)

section \<open>Free descriptors\<close>

lemma lowest_free_SomeD:
  assumes "lowest_free n t = Some d"
  shows "t d = None" and "0 \<le> d" and "d < int n"
  using find_map_Some [OF assms [unfolded lowest_free_def]] by auto

lemma find_append_stop:
  "\<forall>x\<in>set xs. \<not> P x \<Longrightarrow> P y \<Longrightarrow> find P (xs @ y # ys) = Some y"
  by (induction xs) auto

lemma find_upt_least:
  assumes "P k" and "\<And>i. 0 \<le> i \<Longrightarrow> i < k \<Longrightarrow> \<not> P i" and "0 \<le> k" and "k < int n"
  shows "find P (map int [0..<n]) = Some k"
proof -
  have "[0..<n] = [0..<nat k] @ [nat k..<n]"
    using assms(3,4) upt_add_eq_append [of 0 "nat k" "n - nat k"] by simp
  also have "[nat k..<n] = nat k # [Suc (nat k)..<n]"
    using assms(3,4) by (intro upt_conv_Cons) simp
  finally have "map int [0..<n] = map int [0..<nat k] @ k # map int [Suc (nat k)..<n]"
    using assms(3) by simp
  moreover have "\<forall>x\<in>set (map int [0..<nat k]). \<not> P x" using assms(2) by auto
  ultimately show ?thesis using assms(1) by (simp only: find_append_stop)
qed

lemma lowest_free_least:
  assumes "t d = None" and "\<And>i. 0 \<le> i \<Longrightarrow> i < d \<Longrightarrow> t i \<noteq> None" and "0 \<le> d" and "d < int n"
  shows "lowest_free n t = Some d"
  unfolding lowest_free_def by (rule find_upt_least) (use assms in auto)

lemma lowest_free_isSome:
  "0 \<le> d \<Longrightarrow> d < int n \<Longrightarrow> t d = None \<Longrightarrow> \<exists>e. lowest_free n t = Some e \<and> e \<le> d"
proof -
  assume d: "0 \<le> d" "d < int n" "t d = None"
  let ?P = "\<lambda>k. t (int k) = None"
  have ex: "?P (nat d)" using d by simp
  let ?k = "LEAST k. ?P k"
  have k: "?P ?k" "?k \<le> nat d" by (rule LeastI [of ?P, OF ex], rule Least_le [of ?P, OF ex])
  have "lowest_free n t = Some (int ?k)"
  proof (rule lowest_free_least)
    fix i :: int assume "0 \<le> i" "i < int ?k"
    then show "t i \<noteq> None" using not_less_Least [of "nat i" ?P] by auto
  qed (use k d in auto)
  with k d show ?thesis by auto
qed

text \<open>The descriptors that are open besides the three standard ones.\<close>

definition extra_fds :: "fdtable \<Rightarrow> fd set" where
  "extra_fds t = dom t - {0, 1, 2}"

lemma extra_fds_std [simp]: "extra_fds std_fds = {}"
  by (auto simp: extra_fds_def std_fds_def)

end
