(* ===== verification/ShellState.thy ===== *)
theory ShellState
  imports Display Posix
begin

text \<open>
  The state of the shell of \<open>communication/shell.c\<close>: what of the process and of the kernel its
  functions read and change, and the environment's answers (\<open>world\<close>) that are arguments of
  every function that needs them.  Standard output and standard error are one chronological
  list of writes; a child is recorded with the descriptors, signal dispositions and program
  it ended up with.  The buffering of \<open>stdio\<close> is not modelled.
\<close>

section \<open>Signals\<close>

datatype sigdisp = SIG_DFL | SIG_IGN

record sigtab =
  sig_int :: sigdisp
  sig_quit :: sigdisp

definition ignore_sig :: "sigtab \<Rightarrow> sigtab" where
  "ignore_sig t = t\<lparr>sig_int := SIG_IGN, sig_quit := SIG_IGN\<rparr>"

definition entry_sig :: "sigtab \<Rightarrow> sigtab" where
  "entry_sig t = t\<lparr>sig_int := SIG_DFL, sig_quit := SIG_DFL\<rparr>"

section \<open>Outputs and children\<close>

datatype event =
    Out string           \<comment> \<open>written to standard output\<close>
  | Err string           \<comment> \<open>written to standard error\<close>
  | Chdir string         \<comment> \<open>a successful \<open>chdir\<close>\<close>

datatype child_end =
    Exec string "string list"  \<comment> \<open>the path and the arguments given to a successful \<open>execvp\<close>\<close>
  | ExitChild int              \<comment> \<open>the child called \<open>_exit\<close>\<close>
  | UndefChild                 \<comment> \<open>undefined behaviour in the child\<close>

record child =
  ch_pid :: pid
  ch_sigs :: sigtab
  ch_fds :: fdtable
  ch_trace :: "event list"
  ch_end :: child_end

section \<open>The environment's answers\<close>

text \<open>
  \<open>w_open k p\<close>: whether the child of the \<open>k\<close>-th successful \<open>fork\<close> can open the file \<open>p\<close>;
  \<open>w_exec k p\<close>: whether its \<open>execvp\<close> succeeds; \<open>w_fork k\<close>: the result of the \<open>k\<close>-th
  \<open>fork\<close>, \<open>None\<close> for -1 and \<open>Some n\<close> for the pid \<open>n + 1\<close>; \<open>w_malloc k\<close>: whether the
  \<open>k\<close>-th allocation succeeds; \<open>w_reap k\<close>: which of the children not yet
  waited for the \<open>k\<close>-th \<open>waitpid\<close> gives (as an index, taken modulo their number) and with what status, \<open>None\<close> when none of
  them ever ends, so that the call does not return; \<open>w_nofile\<close>: the limit on
  descriptors.
\<close>

record world =
  w_open :: "nat \<Rightarrow> string \<Rightarrow> bool"
  w_exec :: "nat \<Rightarrow> string \<Rightarrow> bool"
  w_fork :: "nat \<Rightarrow> nat option"
  w_chdir :: "string \<Rightarrow> bool"
  w_malloc :: "nat \<Rightarrow> bool"
  w_reap :: "nat \<Rightarrow> (nat \<times> wstatus) option"
  w_nofile :: nat

text \<open>Every child that is waited for ends at some time.\<close>

definition children_end :: "world \<Rightarrow> bool" where
  "children_end w \<longleftrightarrow> (\<forall>k. w_reap w k \<noteq> None)"

section \<open>The shell\<close>

text \<open>
  The last two fields are not seen by the program: \<open>sh_reaped\<close> has, for every \<open>waitpid\<close> that gave a child, how many times \<open>fork\<close>
  had been called before it and the pid; \<open>sh_stray\<close> counts the calls of \<open>invoke\<close> whose argument \<open>append\<close> was never assigned.
\<close>

record shell =
  sh_stdin :: string
  sh_ferror :: bool
  sh_trace :: "event list"
  sh_fds :: fdtable
  sh_env :: "(string \<times> string) list"
  sh_sigs :: sigtab
  sh_forks :: nat
  sh_pipes :: nat
  sh_allocs :: nat
  sh_heap :: nat
  sh_unreaped :: "pid list"
  sh_waits :: nat
  sh_kids :: "child list"
  sh_reaped :: "(nat \<times> pid) list"
  sh_stray :: nat

definition out :: "string \<Rightarrow> shell \<Rightarrow> shell" where
  "out t s = s\<lparr>sh_trace := sh_trace s @ [Out t]\<rparr>"

definition err :: "string \<Rightarrow> shell \<Rightarrow> shell" where
  "err t s = s\<lparr>sh_trace := sh_trace s @ [Err t]\<rparr>"

definition errs :: "string list \<Rightarrow> shell \<Rightarrow> shell" where
  "errs ts s = s\<lparr>sh_trace := sh_trace s @ map Err ts\<rparr>"

lemma errs_Nil [simp]: "errs [] s = s"
  by (simp add: errs_def)

text \<open>A program just started: no input read, the three standard descriptors, an environment.\<close>

definition init_shell :: "string \<Rightarrow> (string \<times> string) list \<Rightarrow> shell" where
  "init_shell inp env =
     \<lparr>sh_stdin = inp, sh_ferror = False, sh_trace = [], sh_fds = std_fds, sh_env = env,
      sh_sigs = \<lparr>sig_int = SIG_DFL, sig_quit = SIG_DFL\<rparr>, sh_forks = 0, sh_pipes = 0,
      sh_allocs = 0, sh_heap = 0, sh_unreaped = [], sh_waits = 0, sh_kids = [], sh_reaped = [], sh_stray = 0\<rparr>"

lemma shell_update_simps [shell_simps]:
  "sh_stdin (out t s) = sh_stdin s" "sh_ferror (out t s) = sh_ferror s"
  "sh_fds (out t s) = sh_fds s" "sh_env (out t s) = sh_env s" "sh_sigs (out t s) = sh_sigs s"
  "sh_forks (out t s) = sh_forks s" "sh_pipes (out t s) = sh_pipes s"
  "sh_allocs (out t s) = sh_allocs s" "sh_heap (out t s) = sh_heap s"
  "sh_unreaped (out t s) = sh_unreaped s" "sh_waits (out t s) = sh_waits s"
  "sh_kids (out t s) = sh_kids s" "sh_reaped (out t s) = sh_reaped s" "sh_stray (out t s) = sh_stray s" "sh_trace (out t s) = sh_trace s @ [Out t]"
  "sh_stdin (err t s) = sh_stdin s" "sh_ferror (err t s) = sh_ferror s"
  "sh_fds (err t s) = sh_fds s" "sh_env (err t s) = sh_env s" "sh_sigs (err t s) = sh_sigs s"
  "sh_forks (err t s) = sh_forks s" "sh_pipes (err t s) = sh_pipes s"
  "sh_allocs (err t s) = sh_allocs s" "sh_heap (err t s) = sh_heap s"
  "sh_unreaped (err t s) = sh_unreaped s" "sh_waits (err t s) = sh_waits s"
  "sh_kids (err t s) = sh_kids s" "sh_reaped (err t s) = sh_reaped s" "sh_stray (err t s) = sh_stray s" "sh_trace (err t s) = sh_trace s @ [Err t]"
  "sh_stdin (errs ts s) = sh_stdin s" "sh_ferror (errs ts s) = sh_ferror s"
  "sh_fds (errs ts s) = sh_fds s" "sh_env (errs ts s) = sh_env s" "sh_sigs (errs ts s) = sh_sigs s"
  "sh_forks (errs ts s) = sh_forks s" "sh_pipes (errs ts s) = sh_pipes s"
  "sh_allocs (errs ts s) = sh_allocs s" "sh_heap (errs ts s) = sh_heap s"
  "sh_unreaped (errs ts s) = sh_unreaped s" "sh_waits (errs ts s) = sh_waits s"
  "sh_kids (errs ts s) = sh_kids s" "sh_reaped (errs ts s) = sh_reaped s" "sh_stray (errs ts s) = sh_stray s" "sh_trace (errs ts s) = sh_trace s @ map Err ts"
  by (simp_all add: out_def err_def errs_def)

declare shell_update_simps [simp]

end
