(* ===== verification/ShellBuiltin.thy ===== *)
theory ShellBuiltin
  imports ShellState
begin

text \<open>
  The commands the shell runs itself: \<open>set\<close>, \<open>asg\<close> (an assignment \<open>NAME=VALUE\<close>), \<open>cd\<close>, and
  \<open>builtin\<close> which chooses among them.  \<open>set\<close> and \<open>asg\<close> are the same text in
  \<open>process/cl.c\<close>, whose theory uses these definitions.  The environment is an association
  list in the order of \<open>environ\<close>; \<open>setenv\<close> replaces in place or appends.
\<close>

section \<open>\<open>set\<close>, \<open>asg\<close> and \<open>builtin\<close>\<close>

definition getenv :: "string \<Rightarrow> shell \<Rightarrow> string option" where
  "getenv n s = map_of (sh_env s) n"

definition setenv :: "string \<Rightarrow> string \<Rightarrow> shell \<Rightarrow> shell" where
  "setenv n v s = s\<lparr>sh_env := AList.update n v (sh_env s)\<rparr>"

definition set_cmd :: "string list \<Rightarrow> shell \<Rightarrow> shell" where
  "set_cmd argv s =
     (if length argv \<noteq> 1 then out (''Extra args'' @ [NL]) s
      else fold (\<lambda>(n, v). out (n @ ''='' @ v @ [NL])) (sh_env s) s)"

text \<open>The second \<open>strtok\<close> continues where the first stopped: at the end of the string when
  the first found nothing.\<close>

definition asg_parts :: "string \<Rightarrow> string option \<times> string option" where
  "asg_parts a =
     (case strtok a ''='' of
        None \<Rightarrow> (None, map_option fst (strtok [] []))
      | Some (name, rest) \<Rightarrow> (Some name, map_option fst (strtok rest [])))"

definition asg :: "string list \<Rightarrow> shell \<Rightarrow> shell" where
  "asg argv s =
     (if length argv \<noteq> 1 then out (''Extra args'' @ [NL]) s
      else case asg_parts (hd argv) of
             (Some name, Some val) \<Rightarrow> setenv name val s
           | _ \<Rightarrow> out (''bad command'' @ [NL]) s)"

definition cd :: "world \<Rightarrow> string list \<Rightarrow> shell \<Rightarrow> shell" where
  "cd w argv s =
     (let path = (if length argv > 1 then argv ! 1
                  else case getenv ''HOME'' s of None \<Rightarrow> ''.'' | Some p \<Rightarrow> p)
      in if w_chdir w path then s\<lparr>sh_trace := sh_trace s @ [Chdir path]\<rparr>
         else err (path @ '': bad directory'' @ [NL]) s)"

definition is_builtin :: "string \<Rightarrow> bool" where
  "is_builtin a \<longleftrightarrow> strchr a (CHR ''='') \<noteq> None \<or> a = ''set'' \<or> a = ''cd''"

definition builtin :: "world \<Rightarrow> string list \<Rightarrow> fd \<Rightarrow> fd \<Rightarrow> shell \<Rightarrow> bool \<times> shell" where
  "builtin w argv srcfd dstfd s =
     (let a = hd argv;
          complain = (\<lambda>s. if srcfd \<noteq> STDIN_FILENO \<or> dstfd \<noteq> STDOUT_FILENO
                          then err (''Illegal redirection or pipeline'' @ [NL]) s else s)
      in if strchr a (CHR ''='') \<noteq> None then (True, complain (asg argv s))
         else if a = ''set'' then (True, complain (set_cmd argv s))
         else if a = ''cd'' then (True, complain (cd w argv s))
         else (False, s))"

section \<open>What they change\<close>

text \<open>The part of the state no builtin changes.\<close>

definition same_resources :: "shell \<Rightarrow> shell \<Rightarrow> bool" where
  "same_resources s t \<longleftrightarrow>
     sh_stdin t = sh_stdin s \<and> sh_ferror t = sh_ferror s \<and> sh_fds t = sh_fds s
     \<and> sh_sigs t = sh_sigs s \<and> sh_forks t = sh_forks s \<and> sh_pipes t = sh_pipes s
     \<and> sh_allocs t = sh_allocs s \<and> sh_heap t = sh_heap s \<and> sh_unreaped t = sh_unreaped s
     \<and> sh_waits t = sh_waits s \<and> sh_kids t = sh_kids s \<and> sh_reaped t = sh_reaped s \<and> sh_stray t = sh_stray s"

lemma same_resources_refl [simp]: "same_resources s s"
  by (simp add: same_resources_def)

lemma same_resources_trans:
  "same_resources s t \<Longrightarrow> same_resources t u \<Longrightarrow> same_resources s u"
  by (simp add: same_resources_def)

lemma same_resources_out [simp]: "same_resources s (out t s)" "same_resources s (err t s)"
  "same_resources s (errs ts s)"
  by (simp_all add: same_resources_def)

lemma same_resources_fold_out:
  "same_resources s (fold (\<lambda>(n, v). out (f n v)) al s)"
proof (induction al arbitrary: s)
  case (Cons p al)
  then show ?case
    by (cases p) (auto intro: same_resources_trans [OF same_resources_out(1)])
qed simp

lemma same_resources_set [simp]: "same_resources s (set_cmd argv s)"
  by (simp add: set_cmd_def same_resources_fold_out)

lemma same_resources_asg [simp]: "same_resources s (asg argv s)"
  by (cases "asg_parts (hd argv)"; cases "fst (asg_parts (hd argv))"; cases "snd (asg_parts (hd argv))")
     (simp_all add: asg_def setenv_def same_resources_def)

lemma same_resources_cd [simp]: "same_resources s (cd w argv s)"
  by (simp add: cd_def Let_def) (simp add: same_resources_def)

lemma builtin_resources: "builtin w argv srcfd dstfd s = (b, t) \<Longrightarrow> same_resources s t"
  by (auto simp: builtin_def Let_def split: if_splits
      intro: same_resources_trans [OF _ same_resources_out(2)])

lemma builtin_iff: "fst (builtin w argv srcfd dstfd s) \<longleftrightarrow> is_builtin (hd argv)"
  by (simp add: builtin_def is_builtin_def Let_def)

lemma builtin_False: "builtin w argv srcfd dstfd s = (False, t) \<Longrightarrow> t = s"
  by (auto simp: builtin_def Let_def split: if_splits)

section \<open>Assignments\<close>

lemma asg_parts_assignment:
  assumes "n \<noteq> []" and "CHR ''='' \<notin> set n" and "v \<noteq> []"
  shows "asg_parts (n @ ''='' @ v) = (Some n, Some v)"
proof -
  have "strtok (n @ CHR ''='' # v) ''='' = Some (n, v)"
    by (rule strtok_first) (use assms in auto)
  then show ?thesis using assms(3) by (simp add: asg_parts_def strtok_empty_delims)
qed

lemma asg_parts_name:
  assumes "asg_parts a = (Some n, v)"
  shows "n \<noteq> []" and "CHR ''='' \<notin> set n"
  using assms strtok_token [of a "''=''"]
  by (auto simp: asg_parts_def split: option.splits)

lemma getenv_setenv: "getenv m (setenv n v s) = (if m = n then Some v else getenv m s)"
  by (simp add: getenv_def setenv_def map_of_AList_update)

lemma distinct_setenv:
  "distinct (map fst (sh_env s)) \<Longrightarrow> distinct (map fst (sh_env (setenv n v s)))"
  by (simp add: setenv_def distinct_update)

lemma set_cmd_trace:
  "set_cmd [a] s =
     s\<lparr>sh_trace := sh_trace s @ map (\<lambda>(n, v). Out (n @ ''='' @ v @ [NL])) (sh_env s)\<rparr>"
proof -
  have "fold (\<lambda>(n, v). out (n @ ''='' @ v @ [NL])) al u =
      u\<lparr>sh_trace := sh_trace u @ map (\<lambda>(n, v). Out (n @ ''='' @ v @ [NL])) al\<rparr>" for al u
    by (induction al arbitrary: u) (auto simp: out_def)
  then show ?thesis by (simp add: set_cmd_def)
qed

end
