(* ===== verification/ShellExec.thy ===== *)
theory ShellExec
  imports ShellBuiltin
begin

text \<open>
  Running one simple command: \<open>fd_check\<close>, \<open>redirect\<close> and \<open>invoke\<close> of
  \<open>communication/shell.c\<close>.  A child is computed on a copy of the parent's descriptors, as
  \<open>fork\<close> gives it; what can end it before \<open>execvp\<close> is a value of \<open>child_end\<close>.
\<close>

section \<open>\<open>fd_check\<close>\<close>

text \<open>The messages for the descriptors 3 to 19 that are open; the check passes if there are none.\<close>

fun fd_check_loop :: "fd list \<Rightarrow> fdtable \<Rightarrow> bool \<times> string list" where
  "fd_check_loop [] t = (True, [])"
| "fd_check_loop (fd # fds) t =
     (let (ok, ms) = fd_check_loop fds t in
      case fcntl_getfl fd t of
        Inl EBADF \<Rightarrow> (ok, ms)
      | _ \<Rightarrow> (False, (''*** fd '' @ show_int fd @ '' is open ***'' @ [NL]) # ms))"

definition fd_check :: "fdtable \<Rightarrow> bool \<times> string list" where
  "fd_check t = fd_check_loop (map int [3..<20]) t"

section \<open>\<open>redirect\<close>\<close>

datatype redir = RedirOk fdtable | RedirExit fdtable "string list" | RedirUndef

text \<open>\<open>file[0] != 0\<close>, and \<open>open\<close> of the string the array holds.  \<open>None\<close> is an
  indeterminate first cell.\<close>

definition nonempty :: "cbuf \<Rightarrow> bool option" where
  "nonempty b = (case b of Some c # _ \<Rightarrow> Some (c \<noteq> NUL) | _ \<Rightarrow> None)"

definition open_named ::
  "world \<Rightarrow> nat \<Rightarrow> cbuf \<Rightarrow> (string \<Rightarrow> ofile option) \<Rightarrow> fd \<Rightarrow> fdtable \<Rightarrow> (fd \<times> fdtable) option" where
  "open_named w k file mk fd t =
     (case nonempty file of
        None \<Rightarrow> None
      | Some False \<Rightarrow> Some (fd, t)
      | Some True \<Rightarrow>
          (case cstr file of
             None \<Rightarrow> None
           | Some p \<Rightarrow>
               (case mk p of
                  None \<Rightarrow> None
                | Some f \<Rightarrow>
                    (let (r, t') = open_fd (w_nofile w) (w_open w k p) f t in Some (fd_of r, t')))))"

text \<open>\<open>dup2 (fd, std); if (fd != std) close (fd)\<close>\<close>

definition move_fd :: "fd \<Rightarrow> fd \<Rightarrow> fdtable \<Rightarrow> fdtable" where
  "move_fd a b t = (if a = b then dup2 a b t else close_fd a (dup2 a b t))"

definition redirect ::
  "world \<Rightarrow> nat \<Rightarrow> fd \<Rightarrow> cbuf \<Rightarrow> fd \<Rightarrow> cbuf \<Rightarrow> bool option \<Rightarrow> bool \<Rightarrow> fdtable \<Rightarrow> redir" where
  "redirect w k srcfd srcfile dstfd dstfile app bckgrnd t =
     (let (srcfile, srcfd) =
        (if srcfd = STDIN_FILENO \<and> bckgrnd then (lit ''/dev/null'', - 1) else (srcfile, srcfd))
      in case open_named w k srcfile (\<lambda>p. Some (RdFile p)) srcfd t of
           None \<Rightarrow> RedirUndef
         | Some (srcfd, t1) \<Rightarrow>
             (let t2 = move_fd srcfd STDIN_FILENO t1 in
              case open_named w k dstfile (\<lambda>p. map_option (WrFile p) app) dstfd t2 of
                None \<Rightarrow> RedirUndef
              | Some (dstfd, t3) \<Rightarrow>
                  (let t4 = move_fd dstfd STDOUT_FILENO t3;
                       (ok, ms) = fd_check t4
                   in if ok then RedirOk t4 else RedirExit t4 ms)))"

section \<open>The child of \<open>invoke\<close>\<close>

text \<open>\<open>strchr (argv[0], '/')\<close>, and the character after it: the name the program gets.\<close>

definition cmdname :: "string \<Rightarrow> string" where
  "cmdname a = (case strchr a (CHR ''/'') of None \<Rightarrow> a | Some r \<Rightarrow> tl r)"

definition child_run ::
  "world \<Rightarrow> nat \<Rightarrow> pid \<Rightarrow> string list \<Rightarrow> fd \<Rightarrow> cbuf \<Rightarrow> fd \<Rightarrow> cbuf \<Rightarrow> bool option \<Rightarrow> bool \<Rightarrow> fd
    \<Rightarrow> fdtable \<Rightarrow> sigtab \<Rightarrow> child" where
  "child_run w k pid argv srcfd srcfile dstfd dstfile app bckgrnd closefd t sigs =
     (let t1 = (if closefd \<noteq> - 1 then close_fd closefd t else t);
          sigs1 = (if \<not> bckgrnd then entry_sig sigs else sigs)
      in case redirect w k srcfd srcfile dstfd dstfile app bckgrnd t1 of
           RedirUndef \<Rightarrow>
             \<lparr>ch_pid = pid, ch_sigs = sigs1, ch_fds = t1, ch_trace = [], ch_end = UndefChild\<rparr>
         | RedirExit t2 ms \<Rightarrow>
             \<lparr>ch_pid = pid, ch_sigs = sigs1, ch_fds = t2, ch_trace = map Err ms, ch_end = ExitChild 1\<rparr>
         | RedirOk t2 \<Rightarrow>
             (let cmdpath = hd argv; argv' = argv[0 := cmdname (hd argv)] in
              if w_exec w k cmdpath
              then \<lparr>ch_pid = pid, ch_sigs = sigs1, ch_fds = t2, ch_trace = [], ch_end = Exec cmdpath argv'\<rparr>
              else \<lparr>ch_pid = pid, ch_sigs = sigs1, ch_fds = t2,
                    ch_trace = [Err (''Can't execute '' @ cmdpath @ [NL])], ch_end = ExitChild 1\<rparr>))"

section \<open>\<open>invoke\<close>\<close>

definition fork_result :: "world \<Rightarrow> nat \<Rightarrow> pid" where
  "fork_result w k = (case w_fork w k of None \<Rightarrow> - 1 | Some n \<Rightarrow> int (Suc n))"

definition invoke ::
  "world \<Rightarrow> string list \<Rightarrow> fd \<Rightarrow> cbuf \<Rightarrow> fd \<Rightarrow> cbuf \<Rightarrow> bool option \<Rightarrow> bool \<Rightarrow> fd \<Rightarrow> shell
    \<Rightarrow> pid \<times> shell" where
  "invoke w argv srcfd srcfile dstfd dstfile app bckgrnd closefd s =
     (if argv = [] then (0, s)
      else case builtin w argv srcfd dstfd s of
        (True, s1) \<Rightarrow> (0, s1)
      | (False, s1) \<Rightarrow>
          (let k = sh_forks s1; pid = fork_result w k; s2 = s1\<lparr>sh_forks := Suc k\<rparr> in
           if pid = - 1 then (0, err (''Can't create new process'' @ [NL]) s2)
           else
             (let c = child_run w k pid argv srcfd srcfile dstfd dstfile app bckgrnd closefd
                        (sh_fds s2) (sh_sigs s2);
                  s3 = s2\<lparr>sh_kids := sh_kids s2 @ [c], sh_unreaped := sh_unreaped s2 @ [pid]\<rparr>;
                  s4 = (if srcfd > STDOUT_FILENO then s3\<lparr>sh_fds := close_fd srcfd (sh_fds s3)\<rparr> else s3);
                  s5 = (if dstfd > STDOUT_FILENO then s4\<lparr>sh_fds := close_fd dstfd (sh_fds s4)\<rparr> else s4);
                  s6 = (if bckgrnd then out (show_int pid @ [NL]) s5 else s5)
              in (pid, s6))))"

section \<open>The descriptor check\<close>

lemma fd_check_loop_ok: "fst (fd_check_loop ds t) \<longleftrightarrow> (\<forall>d\<in>set ds. t d = None)"
  by (induction ds) (auto simp: fcntl_getfl_def split: prod.splits option.splits)

lemma fd_check_loop_clean: "\<forall>d\<in>set ds. t d = None \<Longrightarrow> fd_check_loop ds t = (True, [])"
  by (induction ds) (simp_all add: fcntl_getfl_def)

lemma fd_check_ok: "fst (fd_check t) \<longleftrightarrow> (\<forall>d. 3 \<le> d \<and> d < 20 \<longrightarrow> t d = None)"
proof -
  have "set (map int [3..<20]) = {3..<20}"
    by (simp only: set_map set_upt image_int_atLeastLessThan of_nat_numeral)
  then show ?thesis unfolding fd_check_def fd_check_loop_ok by auto
qed

lemma fd_check_clean: "dom t \<subseteq> {0, 1, 2} \<Longrightarrow> fd_check t = (True, [])"
  unfolding fd_check_def by (rule fd_check_loop_clean) (auto simp: dom_def)

section \<open>The two halves of \<open>redirect\<close>\<close>

definition redirect_in :: "world \<Rightarrow> nat \<Rightarrow> fd \<Rightarrow> cbuf \<Rightarrow> bool \<Rightarrow> fdtable \<Rightarrow> fdtable option" where
  "redirect_in w k srcfd srcfile bckgrnd t =
     map_option (\<lambda>(d, t1). move_fd d STDIN_FILENO t1)
       (if srcfd = STDIN_FILENO \<and> bckgrnd
        then open_named w k (lit ''/dev/null'') (\<lambda>p. Some (RdFile p)) (- 1) t
        else open_named w k srcfile (\<lambda>p. Some (RdFile p)) srcfd t)"

definition redirect_out :: "world \<Rightarrow> nat \<Rightarrow> fd \<Rightarrow> cbuf \<Rightarrow> bool option \<Rightarrow> fdtable \<Rightarrow> fdtable option" where
  "redirect_out w k dstfd dstfile app t =
     map_option (\<lambda>(d, t1). move_fd d STDOUT_FILENO t1)
       (open_named w k dstfile (\<lambda>p. map_option (WrFile p) app) dstfd t)"

lemma redirect_halves:
  "redirect w k srcfd srcfile dstfd dstfile app bckgrnd t =
     (case Option.bind (redirect_in w k srcfd srcfile bckgrnd t)
             (redirect_out w k dstfd dstfile app) of
        None \<Rightarrow> RedirUndef
      | Some t4 \<Rightarrow> (if fst (fd_check t4) then RedirOk t4 else RedirExit t4 (snd (fd_check t4))))"
  by (auto simp: redirect_def redirect_in_def redirect_out_def Let_def
      split: option.splits prod.splits)

text \<open>What a named file gives on a standard descriptor: itself if it can be opened, otherwise
  the descriptor keeps what it had, because the failed \<open>open\<close> goes unnoticed.\<close>

lemma nonempty_cstr: "cstr b = Some p \<Longrightarrow> nonempty b = Some (p \<noteq> [])"
  by (cases b rule: cstr.cases) (auto simp: nonempty_def split: if_splits)

lemma open_move:
  assumes "cstr b = Some p" "p \<noteq> []" "mk p = Some f" "t (- 1) = None" "t target \<noteq> None"
  shows "\<exists>d t1. open_named w k b mk fd t = Some (d, t1) \<and>
     move_fd d target t1 =
       (if w_open w k p \<and> lowest_free (w_nofile w) t \<noteq> None then t(target \<mapsto> f) else t)"
proof (cases "w_open w k p \<and> lowest_free (w_nofile w) t \<noteq> None")
  case True
  then obtain d where d: "lowest_free (w_nofile w) t = Some d" by auto
  note free = lowest_free_SomeD(1) [OF d]
  have "move_fd d target (t(d \<mapsto> f)) = t(target \<mapsto> f)"
    using free assms(5) by (auto simp: move_fd_def fd_simps fun_eq_iff)
  with True d assms show ?thesis
    by (simp add: open_named_def nonempty_cstr open_fd_def fd_of_def)
next
  case False
  have "move_fd (- 1) target t = t"
    using assms(4,5) by (auto simp: move_fd_def fd_simps fun_eq_iff)
  with False assms show ?thesis
    by (auto simp: open_named_def nonempty_cstr open_fd_def fd_of_def split: option.splits)
qed

lemma open_unnamed: "cstr b = Some [] \<Longrightarrow> open_named w k b mk fd t = Some (fd, t)"
  by (simp add: open_named_def nonempty_cstr)

lemma move_fd_apply:
  "move_fd a b t c =
     (if c = b then (if t a = None then t b else t a) else if c = a then None else t c)"
  using fds.look_moved [of a b t c] by (simp add: move_fd_def split: if_splits)

end
