(* ===== verification/ShellLexer.thy ===== *)
theory ShellLexer
  imports CLib
begin

text \<open>
  The lexer of \<open>communication/shell.c\<close>: \<open>store_char\<close>, the state machine \<open>gettoken\<close>, and a
  specification of what a token is (\<open>lex\<close>) that has no buffer and no states.  Standard input
  is the list of the characters still to be read; at its end \<open>getchar\<close> returns \<open>EOF\<close> for good,
  and \<open>ferr\<close> says whether \<open>ferror (stdin)\<close> then holds.  \<open>errno\<close> is not kept: its one reader,
  \<open>fd_check\<close>, looks at it right after the call that sets it.
\<close>

section \<open>Tokens and states\<close>

datatype TOKEN = T_WORD | T_BAR | T_AMP | T_SEMI | T_GT | T_GTGT | T_LT | T_NL | T_EOF | T_ERROR

datatype lexstate = NEUTRAL | GTGT | INQUOTE | INWORD

text \<open>The caller's array, the index \<open>wordn\<close> and what was written to the error stream.\<close>

record lexbuf =
  lb_word :: cbuf
  lb_n :: nat
  lb_err :: "string list"

section \<open>\<open>store_char\<close>\<close>

definition store_char :: "nat \<Rightarrow> char \<Rightarrow> lexbuf \<Rightarrow> bool \<times> lexbuf" where
  "store_char maxword c b =
     (if lb_n b \<ge> maxword
      then (False, b\<lparr>lb_err := lb_err b @ [''Word too long!'' @ [NL]]\<rparr>)
      else (True, b\<lparr>lb_word := (lb_word b)[lb_n b := Some c], lb_n := Suc (lb_n b)\<rparr>))"

text \<open>\<open>gettoken\<close> ignores the result of \<open>store_char\<close>.\<close>

abbreviation put :: "nat \<Rightarrow> char \<Rightarrow> lexbuf \<Rightarrow> lexbuf" where
  "put m c b \<equiv> snd (store_char m c b)"

section \<open>\<open>gettoken\<close>\<close>

definition stdin_error_msg :: string where
  "stdin_error_msg = ''stdin error on <'' @ [CHR 0xFF] @ '':-1>.'' @ [NL]"

definition word_end :: "char \<Rightarrow> bool" where
  "word_end c \<longleftrightarrow> c \<in> {CHR '';'', CHR ''&'', CHR ''|'', CHR ''<'', CHR ''>'', NL, SPC, TAB}"

fun gettok :: "nat \<Rightarrow> bool \<Rightarrow> lexstate \<Rightarrow> string \<Rightarrow> lexbuf \<Rightarrow> TOKEN \<times> string \<times> lexbuf" where
  "gettok m ferr st [] b =
     (if \<not> ferr then (T_ERROR, [], b\<lparr>lb_err := lb_err b @ [stdin_error_msg]\<rparr>)
      else (T_EOF, [], b))"
| "gettok m ferr NEUTRAL (c # r) b =
     (if c = CHR '';'' then (T_SEMI, r, b)
      else if c = CHR ''&'' then (T_AMP, r, b)
      else if c = CHR ''|'' then (T_BAR, r, b)
      else if c = CHR ''<'' then (T_LT, r, b)
      else if c = NL then (T_NL, r, b)
      else if c = SPC \<or> c = TAB then gettok m ferr NEUTRAL r b
      else if c = CHR ''>'' then gettok m ferr GTGT r b
      else if c = DQUOTE then gettok m ferr INQUOTE r b
      else gettok m ferr INWORD r (put m c b))"
| "gettok m ferr GTGT (c # r) b =
     (if c = CHR ''>'' then (T_GTGT, r, b) else (T_GT, c # r, b))"
| "gettok m ferr INQUOTE (c # r) b =
     (if c = BSLASH then
        (case r of
           [] \<Rightarrow> gettok m ferr INQUOTE [] (put m BSLASH b)
         | c' # r' \<Rightarrow> gettok m ferr INQUOTE r' (put m c' b))
      else if c = DQUOTE then (T_WORD, r, put m NUL b)
      else gettok m ferr INQUOTE r (put m c b))"
| "gettok m ferr INWORD (c # r) b =
     (if word_end c then (T_WORD, c # r, put m NUL b)
      else gettok m ferr INWORD r (put m c b))"

text \<open>The function itself: the array is the caller's, \<open>wordn\<close> starts at 0.\<close>

definition gettoken :: "cbuf \<Rightarrow> bool \<Rightarrow> string \<Rightarrow> TOKEN \<times> string \<times> cbuf \<times> string list" where
  "gettoken word ferr inp =
     (let (t, r, b) = gettok (length word) ferr NEUTRAL inp \<lparr>lb_word = word, lb_n = 0, lb_err = []\<rparr>
      in (t, r, lb_word b, lb_err b))"

section \<open>The specification of tokens\<close>

text \<open>
  \<open>LWord w r\<close>: a word with the characters \<open>w\<close>, before the rest \<open>r\<close>; \<open>LTok t r\<close>: an operator;
  \<open>LEnd w\<close>: the input ended, \<open>w\<close> being the characters of an unfinished word.
\<close>

datatype lexeme = LWord string string | LTok TOKEN string | LEnd string

fun lex_quote :: "string \<Rightarrow> string \<Rightarrow> lexeme" where
  "lex_quote acc [] = LEnd acc"
| "lex_quote acc (c # r) =
     (if c = BSLASH then
        (case r of [] \<Rightarrow> LEnd (acc @ [BSLASH]) | c' # r' \<Rightarrow> lex_quote (acc @ [c']) r')
      else if c = DQUOTE then LWord acc r
      else lex_quote (acc @ [c]) r)"

definition lex_word :: "string \<Rightarrow> lexeme" where
  "lex_word s = (case dropWhile (\<lambda>c. \<not> word_end c) s of
       [] \<Rightarrow> LEnd s
     | r \<Rightarrow> LWord (takeWhile (\<lambda>c. \<not> word_end c) s) r)"

definition lex_gt :: "string \<Rightarrow> lexeme" where
  "lex_gt s = (case s of
       [] \<Rightarrow> LEnd []
     | c # r \<Rightarrow> if c = CHR ''>'' then LTok T_GTGT r else LTok T_GT s)"

fun lex :: "string \<Rightarrow> lexeme" where
  "lex [] = LEnd []"
| "lex (c # r) =
     (if c = CHR '';'' then LTok T_SEMI r
      else if c = CHR ''&'' then LTok T_AMP r
      else if c = CHR ''|'' then LTok T_BAR r
      else if c = CHR ''<'' then LTok T_LT r
      else if c = NL then LTok T_NL r
      else if c = SPC \<or> c = TAB then lex r
      else if c = CHR ''>'' then lex_gt r
      else if c = DQUOTE then lex_quote [] r
      else lex_word (c # r))"

text \<open>What \<open>store_char\<close> makes of a sequence of characters.\<close>

definition puts :: "nat \<Rightarrow> string \<Rightarrow> lexbuf \<Rightarrow> lexbuf" where
  "puts m cs b = fold (put m) cs b"

definition lex_result :: "nat \<Rightarrow> bool \<Rightarrow> lexeme \<Rightarrow> lexbuf \<Rightarrow> TOKEN \<times> string \<times> lexbuf" where
  "lex_result m ferr x b = (case x of
       LWord w r \<Rightarrow> (T_WORD, r, puts m (w @ [NUL]) b)
     | LTok t r \<Rightarrow> (t, r, b)
     | LEnd w \<Rightarrow> (if \<not> ferr
         then (T_ERROR, [], (puts m w b)\<lparr>lb_err := lb_err (puts m w b) @ [stdin_error_msg]\<rparr>)
         else (T_EOF, [], puts m w b)))"

section \<open>The state machine computes the specification\<close>

lemma puts_simps [simp]:
  "puts m [] b = b"
  "puts m (c # cs) b = puts m cs (put m c b)"
  "puts m (cs @ ds) b = puts m ds (puts m cs b)"
  by (simp_all add: puts_def)

lemma gettok_INQUOTE:
  "gettok m ferr INQUOTE s (puts m acc b) = lex_result m ferr (lex_quote acc s) b"
proof (induction acc s rule: lex_quote.induct)
  case (2 acc c r)
  then show ?case
    by (cases r) (auto simp: lex_result_def)
qed (simp add: lex_result_def)

lemma gettok_INWORD:
  "gettok m ferr INWORD s (puts m acc b) =
     (case dropWhile (\<lambda>c. \<not> word_end c) s of
        [] \<Rightarrow> lex_result m ferr (LEnd (acc @ s)) b
      | r \<Rightarrow> lex_result m ferr (LWord (acc @ takeWhile (\<lambda>c. \<not> word_end c) s) r) b)"
proof (induction s arbitrary: acc)
  case (Cons c s)
  show ?case
  proof (cases "word_end c")
    case False
    with Cons.IH [of "acc @ [c]"] show ?thesis
      by (cases "dropWhile (\<lambda>c. \<not> word_end c) s")
        (simp_all del: dropWhile_eq_Nil_conv)
  qed (simp add: lex_result_def)
qed (simp add: lex_result_def)

lemma gettok_GTGT: "gettok m ferr GTGT s b = lex_result m ferr (lex_gt s) b"
  by (cases s) (auto simp: lex_result_def lex_gt_def)

lemma gettok_NEUTRAL: "gettok m ferr NEUTRAL s b = lex_result m ferr (lex s) b"
proof (induction s)
  case (Cons c s)
  have w: "\<not> word_end c \<Longrightarrow>
      gettok m ferr INWORD s (put m c b) = lex_result m ferr (lex_word (c # s)) b"
    using gettok_INWORD [of m ferr s "[c]" b]
    by (cases "dropWhile (\<lambda>c. \<not> word_end c) s") (simp_all add: lex_word_def del: dropWhile_eq_Nil_conv)
  show ?case
    using Cons gettok_INQUOTE [of m ferr s "[]" b] w
    by (auto simp: gettok_GTGT lex_result_def [of _ _ "LTok _ _"] word_end_def)
qed (simp add: lex_result_def)

section \<open>What the array holds afterwards\<close>

definition fill :: "cbuf \<Rightarrow> string \<Rightarrow> cbuf" where
  "fill word cs = map Some (take (length word) cs) @ drop (length cs) word"

definition overflow_msgs :: "nat \<Rightarrow> nat \<Rightarrow> string list" where
  "overflow_msgs m k = replicate (k - m) (''Word too long!'' @ [NL])"

lemma length_fill [simp, buf_simps]: "length (fill word cs) = length word"
  by (simp add: fill_def)

lemma put_fields:
  "lb_word (put m c b) = (if lb_n b \<ge> m then lb_word b else (lb_word b)[lb_n b := Some c])"
  "lb_n (put m c b) = (if lb_n b \<ge> m then lb_n b else Suc (lb_n b))"
  "lb_err (put m c b) = (if lb_n b \<ge> m then lb_err b @ [''Word too long!'' @ [NL]] else lb_err b)"
  by (simp_all add: store_char_def)

lemma puts_fields:
  assumes "lb_n b \<le> length (lb_word b)"
  shows "lb_word (puts (length (lb_word b)) cs b) =
           take (lb_n b) (lb_word b) @ map Some (take (length (lb_word b) - lb_n b) cs)
           @ drop (lb_n b + length cs) (lb_word b)
       \<and> lb_n (puts (length (lb_word b)) cs b) = min (length (lb_word b)) (lb_n b + length cs)
       \<and> lb_err (puts (length (lb_word b)) cs b) =
           lb_err b @ overflow_msgs (length (lb_word b)) (lb_n b + length cs)"
  using assms
proof (induction cs arbitrary: b)
  case Nil
  then show ?case by (simp add: overflow_msgs_def)
next
  case (Cons c cs)
  let ?m = "length (lb_word b)" and ?b = "put (length (lb_word b)) c b"
  have len: "length (lb_word ?b) = ?m" by (simp add: put_fields)
  have n: "lb_n ?b \<le> length (lb_word ?b)" using Cons.prems by (simp add: put_fields)
  note IH = Cons.IH [OF n, unfolded len]
  show ?case
  proof (cases "lb_n b \<ge> ?m")
    case True
    with Cons.prems have "lb_n b = ?m" by simp
    with IH show ?thesis
      by (simp add: put_fields overflow_msgs_def flip: replicate_Suc)
  next
    case False
    then have "take (Suc (lb_n b)) ((lb_word b)[lb_n b := Some c]) = take (lb_n b) (lb_word b) @ [Some c]"
      by (simp add: take_Suc_conv_app_nth)
    moreover have "?m - lb_n b = Suc (?m - Suc (lb_n b))" using False by simp
    ultimately show ?thesis using IH False by (simp add: put_fields)
  qed
qed

lemma puts_fresh:
  "lb_word (puts (length word) cs \<lparr>lb_word = word, lb_n = 0, lb_err = []\<rparr>) = fill word cs"
  "lb_err (puts (length word) cs \<lparr>lb_word = word, lb_n = 0, lb_err = []\<rparr>) = overflow_msgs (length word) (length cs)"
  using puts_fields [of "\<lparr>lb_word = word, lb_n = 0, lb_err = []\<rparr>" cs] by (simp_all add: fill_def)

theorem gettoken_lex:
  "gettoken word ferr inp =
     (case lex inp of
        LWord w r \<Rightarrow> (T_WORD, r, fill word (w @ [NUL]), overflow_msgs (length word) (Suc (length w)))
      | LTok t r \<Rightarrow> (t, r, word, [])
      | LEnd w \<Rightarrow>
          (if \<not> ferr then (T_ERROR, [], fill word w,
                           overflow_msgs (length word) (length w) @ [stdin_error_msg])
           else (T_EOF, [], fill word w, overflow_msgs (length word) (length w))))"
  by (cases "lex inp")
     (simp_all add: gettoken_def gettok_NEUTRAL lex_result_def puts_fresh [simplified]
        del: puts_simps(3))

text \<open>The string a word gives, if it fits: an embedded NUL cuts it.\<close>

lemma cstr_fill:
  "cstr (fill word (w @ [NUL])) =
     (if length w < length word \<or> NUL \<in> set (take (length word) w)
      then Some (takeWhile (\<lambda>c. c \<noteq> NUL) w) else None)"
proof (cases "length w < length word")
  case True
  then show ?thesis by (simp add: fill_def cstr_append_nul)
next
  case False
  then have "fill word (w @ [NUL]) = map Some (take (length word) w)"
    by (simp add: fill_def)
  moreover have "takeWhile (\<lambda>c. c \<noteq> NUL) (take n w) = takeWhile (\<lambda>c. c \<noteq> NUL) w"
    if "NUL \<in> set (take n w)" for n
    using that takeWhile_append1 [of NUL "take n w" "\<lambda>c. c \<noteq> NUL" "drop n w"] by simp
  ultimately show ?thesis using False by (auto simp: cstr_full)
qed

section \<open>Progress\<close>

definition is_end :: "lexeme \<Rightarrow> bool" where
  "is_end x = (case x of LEnd _ \<Rightarrow> True | _ \<Rightarrow> False)"

definition lexeme_rest :: "lexeme \<Rightarrow> string" where
  "lexeme_rest x = (case x of LWord _ r \<Rightarrow> r | LTok _ r \<Rightarrow> r | LEnd _ \<Rightarrow> [])"

text \<open>The operators, and the two ways a lexeme can be well-formed for the input it came from.\<close>

definition operators :: "TOKEN set" where
  "operators = {T_BAR, T_AMP, T_SEMI, T_GT, T_GTGT, T_LT, T_NL}"

definition lexeme_ok :: "nat \<Rightarrow> lexeme \<Rightarrow> bool" where
  "lexeme_ok n x \<longleftrightarrow> (case x of
       LWord _ r \<Rightarrow> length r < n
     | LTok t r \<Rightarrow> length r < n \<and> t \<in> operators
     | LEnd _ \<Rightarrow> True)"

lemma lexeme_ok_Suc: "lexeme_ok n x \<Longrightarrow> lexeme_ok (Suc n) x"
  by (auto simp: lexeme_ok_def split: lexeme.splits)

lemma lex_quote_ok: "lexeme_ok (length s) (lex_quote acc s)"
proof (induction acc s rule: lex_quote.induct)
  case (2 acc c r)
  then show ?case
    by (cases r) (auto simp: lexeme_ok_Suc, auto simp: lexeme_ok_def)
qed (simp add: lexeme_ok_def)

lemma lex_word_ok: "\<not> word_end c \<Longrightarrow> lexeme_ok (Suc (length s)) (lex_word (c # s))"
  using length_dropWhile_le [of "\<lambda>c. \<not> word_end c" s]
  by (cases "dropWhile (\<lambda>c. \<not> word_end c) s")
     (simp_all add: lex_word_def lexeme_ok_def del: dropWhile_eq_Nil_conv)

lemma lex_gt_ok: "lexeme_ok (Suc (length s)) (lex_gt s)"
  by (cases s) (simp_all add: lex_gt_def lexeme_ok_def operators_def)

lemma lexeme_ok_if:
  "(P \<Longrightarrow> lexeme_ok n x) \<Longrightarrow> (\<not> P \<Longrightarrow> lexeme_ok n y) \<Longrightarrow> lexeme_ok n (if P then x else y)"
  by simp

lemma lex_ok: "lexeme_ok (length s) (lex s)"
proof (induction s)
  case (Cons c s)
  have op: "t \<in> operators \<Longrightarrow> lexeme_ok (Suc (length s)) (LTok t s)" for t
    by (simp add: lexeme_ok_def)
  have w: "lexeme_ok (Suc (length s)) (lex_word (c # s))" if "\<not> word_end c"
    using that by (rule lex_word_ok)
  have ops: "T_SEMI \<in> operators" "T_AMP \<in> operators" "T_BAR \<in> operators" "T_LT \<in> operators"
    "T_NL \<in> operators"
    by (simp_all add: operators_def)
  note plain = word_end_def [of c, simplified]
  show ?case
    unfolding lex.simps(2) length_Cons
  proof (rule lexeme_ok_if, rule op, rule ops, rule lexeme_ok_if, rule op, rule ops,
      rule lexeme_ok_if, rule op, rule ops, rule lexeme_ok_if, rule op, rule ops,
      rule lexeme_ok_if, rule op, rule ops, rule lexeme_ok_if, rule lexeme_ok_Suc, rule Cons.IH,
      rule lexeme_ok_if, rule lex_gt_ok, rule lexeme_ok_if, rule lexeme_ok_Suc, rule lex_quote_ok,
      rule w)
  qed (simp only: plain, blast)
qed (simp add: lexeme_ok_def)

lemma lex_consumes:
  "lex s = LWord w r \<Longrightarrow> length r < length s"
  "lex s = LTok t r \<Longrightarrow> length r < length s \<and> t \<in> operators"
  using lex_ok [of s] by (simp_all add: lexeme_ok_def)

section \<open>Writing words so that they are read back\<close>

definition escape :: "char \<Rightarrow> string" where
  "escape c = (if c = DQUOTE \<or> c = BSLASH then [BSLASH, c] else [c])"

definition quote :: "string \<Rightarrow> string" where
  "quote w = DQUOTE # concat (map escape w) @ [DQUOTE]"

lemma lex_quote_escaped:
  "lex_quote acc (concat (map escape w) @ DQUOTE # r) = LWord (acc @ w) r"
  by (induction w arbitrary: acc) (auto simp: escape_def)

lemma lex_quoted: "lex (quote w @ r) = LWord w r"
  using lex_quote_escaped [of "[]" w r] by (simp add: quote_def)

lemma lex_plain:
  assumes "w \<noteq> []" and "\<forall>c\<in>set w. \<not> word_end c" and "hd w \<noteq> DQUOTE" and "word_end d"
  shows "lex (w @ d # r) = LWord w (d # r)"
proof -
  obtain c w' where w: "w = c # w'" using assms(1) by (cases w) auto
  have "lex (w @ d # r) = lex_word (w @ d # r)"
    using assms(2,3) by (auto simp: w word_end_def)
  also have "\<dots> = LWord w (d # r)"
    using assms(2,4) by (simp add: lex_word_def dropWhile_append_stop takeWhile_append_stop)
  finally show ?thesis .
qed

lemma lex_blank: "lex (SPC # r) = lex r"
  by simp

end
