(* ===== verification/ShellCommand.thy ===== *)
theory ShellCommand
  imports ShellExec ShellLexer
begin

text \<open>
  \<open>command\<close> of \<open>communication/shell.c\<close>: one turn of its loop (\<open>cmd_step\<close>, the body of the
  switch), what it does at the end of a command (\<open>cmd_finish\<close>), the loop with its recursive
  call for the right-hand side of a pipe, and the caller \<open>start_shell\<close>.

  A \<open>break\<close> in the switch leaves the switch only, so the loop goes on: the branches that
  report an error and \<open>break\<close> continue with the next token.
\<close>

definition MAXARG :: nat where "MAXARG = 50"
definition MAXFNAME :: nat where "MAXFNAME = 500"
definition MAXWORD :: nat where "MAXWORD = 500"
definition PROMPT :: char where "PROMPT = CHR ''>''"

section \<open>The local variables of \<open>command\<close>\<close>

text \<open>\<open>append\<close> and \<open>word\<close> start uninitialised; the file names start as empty strings.\<close>

record cmdloc =
  cl_argv :: "string list"
  cl_srcfd :: fd
  cl_srcfile :: cbuf
  cl_dstfd :: fd
  cl_dstfile :: cbuf
  cl_append :: "bool option"
  cl_word :: cbuf

definition init_loc :: cmdloc where
  "init_loc = \<lparr>cl_argv = [], cl_srcfd = STDIN_FILENO, cl_srcfile = zeroed MAXFNAME,
     cl_dstfd = STDOUT_FILENO, cl_dstfile = zeroed MAXFNAME, cl_append = None,
     cl_word = uninit MAXWORD\<rparr>"

text \<open>\<open>gettoken\<close> on the shell's standard input.\<close>

definition next_token :: "cbuf \<Rightarrow> shell \<Rightarrow> TOKEN \<times> cbuf \<times> shell" where
  "next_token word s =
     (let (t, r, word', ms) = gettoken word (sh_ferror s) (sh_stdin s)
      in (t, word', errs ms (s\<lparr>sh_stdin := r\<rparr>)))"

section \<open>One turn of the loop\<close>

datatype 's step =
    Again cmdloc 's          \<comment> \<open>the loop continues\<close>
  | Pipe cmdloc 's           \<comment> \<open>\<open>T_BAR\<close>: the right-hand side comes next\<close>
  | Finish TOKEN cmdloc 's   \<comment> \<open>\<open>T_AMP\<close>, \<open>T_SEMI\<close> or \<open>T_NL\<close>\<close>
  | Eof 's                   \<comment> \<open>\<open>exit (EXIT_SUCCESS)\<close>\<close>
  | Error 's                 \<comment> \<open>\<open>return T_ERROR\<close>\<close>
  | Undef 's                 \<comment> \<open>undefined behaviour\<close>

definition add_word :: "world \<Rightarrow> cmdloc \<Rightarrow> shell \<Rightarrow> shell step" where
  "add_word w l s =
     (if length (cl_argv l) \<ge> MAXARG - 1 then Again l (err (''Too many args'' @ [NL]) s)
      else case cstr (cl_word l) of
        None \<Rightarrow> Undef s
      | Some a \<Rightarrow>
          (let s1 = s\<lparr>sh_allocs := Suc (sh_allocs s)\<rparr> in
           if \<not> w_malloc w (sh_allocs s) then Again l (err (''Out of arg memory'' @ [NL]) s1)
           else Again (l\<lparr>cl_argv := cl_argv l @ [a]\<rparr>) (s1\<lparr>sh_heap := Suc (sh_heap s1)\<rparr>)))"

definition in_redirection :: "bool \<Rightarrow> cmdloc \<Rightarrow> shell \<Rightarrow> shell step" where
  "in_redirection makepipe l s =
     (if makepipe then Again l (err (''Extra <'' @ [NL]) s)
      else let (t, f, s1) = next_token (cl_srcfile l) s; l1 = l\<lparr>cl_srcfile := f\<rparr> in
           if t \<noteq> T_WORD then Again l1 (err (''Illegal <'' @ [NL]) s1)
           else Again (l1\<lparr>cl_srcfd := - 1\<rparr>) s1)"

definition out_redirection :: "TOKEN \<Rightarrow> cmdloc \<Rightarrow> shell \<Rightarrow> shell step" where
  "out_redirection token l s =
     (if cl_dstfd l \<noteq> STDOUT_FILENO then Again l (err (''Extra > or >>'' @ [NL]) s)
      else let (t, f, s1) = next_token (cl_dstfile l) s; l1 = l\<lparr>cl_dstfile := f\<rparr> in
           if t \<noteq> T_WORD then Again l1 (err (''Illegal > or >>'' @ [NL]) s1)
           else Again (l1\<lparr>cl_dstfd := - 1, cl_append := Some (token = T_GTGT)\<rparr>) s1)"

definition cmd_step :: "world \<Rightarrow> bool \<Rightarrow> cmdloc \<Rightarrow> shell \<Rightarrow> shell step" where
  "cmd_step w makepipe l s =
     (let (token, wd, s1) = next_token (cl_word l) s; l1 = l\<lparr>cl_word := wd\<rparr> in
      case token of
        T_WORD \<Rightarrow> add_word w l1 s1
      | T_LT \<Rightarrow> in_redirection makepipe l1 s1
      | T_GT \<Rightarrow> out_redirection token l1 s1
      | T_GTGT \<Rightarrow> out_redirection token l1 s1
      | T_BAR \<Rightarrow>
          (if cl_dstfd l1 \<noteq> STDOUT_FILENO
           then Again l1 (err (''> or >> conflicts with |'' @ [NL]) s1)
           else Pipe l1 s1)
      | T_AMP \<Rightarrow> Finish token l1 s1
      | T_SEMI \<Rightarrow> Finish token l1 s1
      | T_NL \<Rightarrow> Finish token l1 s1
      | T_EOF \<Rightarrow> Eof s1
      | T_ERROR \<Rightarrow> Error s1)"

section \<open>The end of a command\<close>

text \<open>
  What \<open>command\<close> returns: the terminator, with \<open>*wpid\<close> and \<open>*pipefdp\<close>; \<open>T_ERROR\<close>; or that
  the process exited or its behaviour is undefined.
\<close>

datatype cmdres =
    Done TOKEN pid fd
  | DoneError
  | Exited int
  | UndefRes

text \<open>
  The tail of the branch: the pipe to the left, the invocation, \<open>*wpid\<close>, the complaint about
  an empty command, and the arguments freed.  \<open>append\<close> is passed by value also when no \<open>>\<close> assigned it: by the letter of the standard
  the behaviour is undefined then (it is an automatic variable whose address is never taken), although compilers pass some value that nothing
  looks at.  The model goes on, as they do, and counts these calls in \<open>sh_stray\<close>.
\<close>

definition stray :: "cmdloc \<Rightarrow> nat" where
  "stray l = (if cl_append l = None then 1 else 0)"

definition cmd_finish ::
  "world \<Rightarrow> bool \<Rightarrow> TOKEN \<Rightarrow> TOKEN \<Rightarrow> pid \<Rightarrow> cmdloc \<Rightarrow> shell \<Rightarrow> cmdres \<times> shell" where
  "cmd_finish w makepipe token term wpid l s =
     (let (pfd, s1) =
        (if makepipe
         then case pipe_fd (w_nofile w) (sh_pipes s) (sh_fds s) of
                (None, t) \<Rightarrow> ((- 1, - 1), s\<lparr>sh_fds := t\<rparr>)
              | (Some p, t) \<Rightarrow> (p, s\<lparr>sh_fds := t, sh_pipes := Suc (sh_pipes s)\<rparr>)
         else ((- 1, - 1), s));
        srcfd = (if makepipe then fst pfd else cl_srcfd l);
        (pid, s2) = invoke w (cl_argv l) srcfd (cl_srcfile l) (cl_dstfd l) (cl_dstfile l)
                      (cl_append l) (term = T_AMP) (snd pfd)
                      (s1\<lparr>sh_stray := sh_stray s1 + stray l\<rparr>);
        wpid' = (if token \<noteq> T_BAR then pid else wpid);
        s3 = (if cl_argv l = [] \<and> (token \<noteq> T_NL \<or> srcfd > 1)
              then err (''Missing command'' @ [NL]) s2 else s2)
      in (Done term wpid' (snd pfd), s3\<lparr>sh_heap := sh_heap s3 - length (cl_argv l)\<rparr>))"

section \<open>Every turn consumes input\<close>

lemma next_token_cases:
  "next_token word s =
     (case lex (sh_stdin s) of
        LWord v r \<Rightarrow> (T_WORD, fill word (v @ [NUL]),
                      errs (overflow_msgs (length word) (Suc (length v))) (s\<lparr>sh_stdin := r\<rparr>))
      | LTok t r \<Rightarrow> (t, word, s\<lparr>sh_stdin := r\<rparr>)
      | LEnd v \<Rightarrow> (if sh_ferror s then T_EOF else T_ERROR, fill word v,
                   errs (overflow_msgs (length word) (length v)
                         @ (if sh_ferror s then [] else [stdin_error_msg])) (s\<lparr>sh_stdin := []\<rparr>)))"
  by (cases "lex (sh_stdin s)") (simp_all add: next_token_def gettoken_lex)

lemma next_token_consumes:
  assumes "next_token word s = (t, wd, s1)"
  shows "length (sh_stdin s1) \<le> length (sh_stdin s)"
    and "t \<notin> {T_EOF, T_ERROR} \<Longrightarrow> length (sh_stdin s1) < length (sh_stdin s)"
    and "t \<in> {T_EOF, T_ERROR} \<Longrightarrow> sh_stdin s1 = []"
  using assms lex_consumes(1) [of "sh_stdin s"] lex_consumes(2) [of "sh_stdin s"]
  by (fastforce simp: next_token_cases operators_def split: lexeme.splits if_splits)+

definition step_state :: "'s step \<Rightarrow> 's" where
  "step_state x = (case x of Again _ s \<Rightarrow> s | Pipe _ s \<Rightarrow> s | Finish _ _ s \<Rightarrow> s
                   | Eof s \<Rightarrow> s | Error s \<Rightarrow> s | Undef s \<Rightarrow> s)"

lemma step_state_simps [simp]:
  "step_state (Again l s) = s" "step_state (Pipe l s) = s" "step_state (Finish t l s) = s"
  "step_state (Eof s) = s" "step_state (Error s) = s" "step_state (Undef s) = s"
  by (simp_all add: step_state_def)

lemma add_word_stdin [simp]: "sh_stdin (step_state (add_word w l s)) = sh_stdin s"
  by (auto simp: add_word_def Let_def split: option.splits)

lemma redirection_stdin:
  "length (sh_stdin (step_state (in_redirection mp l s))) \<le> length (sh_stdin s)"
  "length (sh_stdin (step_state (out_redirection tk l s))) \<le> length (sh_stdin s)"
  using next_token_consumes(1)
  by (auto simp: in_redirection_def out_redirection_def Let_def split: prod.splits)

lemma cmd_step_consumes:
  "length (sh_stdin (step_state (cmd_step w mp l s))) < length (sh_stdin s)
   \<or> (\<exists>s'. cmd_step w mp l s = Eof s' \<or> cmd_step w mp l s = Error s')"
proof -
  obtain t wd s1 where n: "next_token (cl_word l) s = (t, wd, s1)" by (cases "next_token (cl_word l) s")
  note c = next_token_consumes(2) [OF n]
  note r = redirection_stdin(1) [THEN order.strict_trans1] redirection_stdin(2) [THEN order.strict_trans1]
  show ?thesis
    using c by (cases t) (simp_all add: cmd_step_def n r Let_def)
qed

section \<open>The loop and the recursion\<close>

function command :: "world \<Rightarrow> bool \<Rightarrow> cmdloc \<Rightarrow> shell \<Rightarrow> cmdres \<times> shell" where
  "command w makepipe l s =
     (case cmd_step w makepipe l s of
        Again l' s' \<Rightarrow> command w makepipe l' s'
      | Pipe l' s' \<Rightarrow>
          (case command w True init_loc s' of
             (Done term wpid d, s'') \<Rightarrow>
               cmd_finish w makepipe T_BAR term wpid (l'\<lparr>cl_dstfd := d\<rparr>) s''
           | r \<Rightarrow> r)
      | Finish token l' s' \<Rightarrow> cmd_finish w makepipe token token 0 l' s'
      | Eof s' \<Rightarrow> (Exited 0, s')
      | Error s' \<Rightarrow> (DoneError, s')
      | Undef s' \<Rightarrow> (UndefRes, s'))"
  by pat_completeness auto
termination
proof (relation "measure (\<lambda>(w, mp, l, s). length (sh_stdin s))", goal_cases)
  case (2 w mp l s l' s')
  then show ?case using cmd_step_consumes [of w mp l s] by auto
next
  case (3 w mp l s l' s')
  then show ?case using cmd_step_consumes [of w mp l s] by auto
qed simp

declare command.simps [simp del]

section \<open>What the end of a command leaves alone\<close>

lemma invoke_stdin: "invoke w argv a b c d e f g s = (p, t) \<Longrightarrow> sh_stdin t = sh_stdin s"
  by (auto simp: invoke_def Let_def same_resources_def
      dest!: builtin_resources builtin_False split: if_splits prod.splits bool.splits)

lemma cmd_finish_stdin: "cmd_finish w mp tk tm wp l s = (r, t) \<Longrightarrow> sh_stdin t = sh_stdin s"
  by (auto simp: cmd_finish_def Let_def split: if_splits prod.splits option.splits dest!: invoke_stdin)

lemma cmd_step_end:
  "cmd_step w mp l s = Eof s' \<Longrightarrow> sh_stdin s' = []"
  "cmd_step w mp l s = Error s' \<Longrightarrow> sh_stdin s' = []"
  using next_token_consumes(3) [of "cl_word l" s]
  by (auto simp: cmd_step_def Let_def add_word_def in_redirection_def out_redirection_def
      split: prod.splits TOKEN.splits if_splits option.splits)

lemma cmd_finish_Done: "\<exists>p d t. cmd_finish w mp tk tm wp l s = (Done tm p d, t)"
  by (simp add: cmd_finish_def Let_def split: prod.splits)

lemma command_consumes:
  assumes "command w mp l s = (r, t)"
  shows "length (sh_stdin t) \<le> length (sh_stdin s)
    \<and> ((\<exists>tk p d. r = Done tk p d) \<longrightarrow> length (sh_stdin t) < length (sh_stdin s))"
  using assms
proof (induction w mp l s arbitrary: r t rule: command.induct)
  case (1 w mp l s)
  note step = cmd_step_consumes [of w mp l s]
  show ?case
  proof (cases "cmd_step w mp l s")
    case (Again l' s')
    with 1 step show ?thesis
      by (fastforce simp: command.simps [of w mp l s])
  next
    case (Pipe l' s')
    obtain r1 s1 where c: "command w True init_loc s' = (r1, s1)" by fastforce
    note IH = "1.IH"(2) [OF Pipe c]
    show ?thesis
    proof (cases r1)
      case (Done tk p d)
      with Pipe c "1.prems" have "cmd_finish w mp T_BAR tk p (l'\<lparr>cl_dstfd := d\<rparr>) s1 = (r, t)"
        by (simp add: command.simps [of w mp l s])
      from cmd_finish_stdin [OF this] IH step Pipe Done show ?thesis by auto
    qed (use Pipe c "1.prems" IH step in \<open>auto simp: command.simps [of w mp l s]\<close>)
  next
    case (Finish tk l' s')
    with "1.prems" have "cmd_finish w mp tk tk 0 l' s' = (r, t)"
      by (simp add: command.simps [of w mp l s])
    from cmd_finish_stdin [OF this] step Finish show ?thesis by auto
  next
    case (Undef s')
    with "1.prems" step show ?thesis by (auto simp: command.simps [of w mp l s])
  qed (use "1.prems" cmd_step_end [of w mp l s] in \<open>auto simp: command.simps [of w mp l s]\<close>)
qed

end
