(* ===== verification/ShellMain.thy ===== *)
theory ShellMain
  imports ShellCommand
begin

text \<open>
  The rest of \<open>communication/shell.c\<close>: \<open>wait_and_display\<close>, \<open>start_shell\<close>, \<open>main\<close> and the
  token printer \<open>test_gettoken\<close>.  The kernel's choice of the next child to end is an
  argument.  \<open>waitpid (-1, ...)\<close> does not return while no child ends; with no child left it returns -1 without waiting, and the loop of
  \<open>wait_and_display\<close>, which does not test for it, never ends.
\<close>

section \<open>\<open>wait_and_display\<close>\<close>

datatype 'a waiting =
    Got 'a           \<comment> \<open>it returned with a child\<close>
  | No_child         \<comment> \<open>-1: there is none\<close>
  | Blocks           \<comment> \<open>no child ever ends\<close>

definition waitpid_any :: "world \<Rightarrow> shell \<Rightarrow> ((pid \<times> wstatus) \<times> shell) waiting" where
  "waitpid_any w s =
     (if sh_unreaped s = [] then No_child
      else case w_reap w (sh_waits s) of
        None \<Rightarrow> Blocks
      | Some (i, status) \<Rightarrow>
          (let j = i mod length (sh_unreaped s); p = sh_unreaped s ! j
           in Got ((p, status),
                s\<lparr>sh_unreaped := remove_nth j (sh_unreaped s),
                  sh_waits := Suc (sh_waits s),
                  sh_reaped := sh_reaped s @ [(sh_forks s, p)]\<rparr>)))"

lemma waitpid_any_Got:
  assumes "waitpid_any w s = Got ((p, st), t)"
  obtains j where "j < length (sh_unreaped s)" "p = sh_unreaped s ! j" "w_reap w (sh_waits s) \<noteq> None"
    "t = s\<lparr>sh_unreaped := remove_nth j (sh_unreaped s), sh_waits := Suc (sh_waits s), sh_reaped := sh_reaped s @ [(sh_forks s, p)]\<rparr>"
proof -
  from assms have ne: "sh_unreaped s \<noteq> []" by (auto simp: waitpid_any_def split: if_splits)
  from assms ne obtain i where i: "w_reap w (sh_waits s) = Some (i, st)"
    by (auto simp: waitpid_any_def Let_def split: option.splits prod.splits)
  from ne have "i mod length (sh_unreaped s) < length (sh_unreaped s)" by simp
  from that [OF this] assms ne i show thesis by (auto simp: waitpid_any_def Let_def)
qed

lemma waitpid_any_shorter:
  "waitpid_any w s = Got (x, t) \<Longrightarrow> length (sh_unreaped t) < length (sh_unreaped s)"
  by (cases x) (auto elim!: waitpid_any_Got simp: length_remove_nth)

text \<open>\<open>No_child\<close> is the endless loop on -1.\<close>

function wait_and_display :: "world \<Rightarrow> pid \<Rightarrow> shell \<Rightarrow> shell waiting" where
  "wait_and_display w pid s =
     (case waitpid_any w s of
        No_child \<Rightarrow> No_child
      | Blocks \<Rightarrow> Blocks
      | Got ((wpid, status), s1) \<Rightarrow>
          (let s2 = out (display_status wpid status) s1 in
           if wpid = pid then Got s2 else wait_and_display w pid s2))"
  by pat_completeness auto
termination
  by (relation "measure (\<lambda>(w, pid, s). length (sh_unreaped s))") (auto dest: waitpid_any_shorter)

declare wait_and_display.simps [simp del]

section \<open>\<open>start_shell\<close> and \<open>main\<close>\<close>

datatype shell_end =
    Returned int     \<comment> \<open>\<open>start_shell\<close> returned\<close>
  | Exit int         \<comment> \<open>the process ended with this status\<close>
  | Undefined        \<comment> \<open>undefined behaviour\<close>
  | Diverges         \<comment> \<open>\<open>wait_and_display\<close> spins\<close>
  | Blocked          \<comment> \<open>it waits for ever for a child that does not end\<close>

function shell_loop :: "world \<Rightarrow> TOKEN \<Rightarrow> shell \<Rightarrow> shell_end \<times> shell" where
  "shell_loop w term s =
     (case command w False init_loc (if term = T_NL then out [PROMPT] s else s) of
        (DoneError, s1) \<Rightarrow> (Returned (- 1), err (''Bad command'' @ [NL]) s1)
      | (Exited n, s1) \<Rightarrow> (Exit n, s1)
      | (UndefRes, s1) \<Rightarrow> (Undefined, s1)
      | (Done term' pid d, s1) \<Rightarrow>
          (case (if term' \<noteq> T_AMP \<and> pid > 0 then wait_and_display w pid s1 else Got s1) of
             No_child \<Rightarrow> (Diverges, s1)
           | Blocks \<Rightarrow> (Blocked, s1)
           | Got s2 \<Rightarrow>
               (case fd_check (sh_fds s2) of
                  (True, ms) \<Rightarrow> shell_loop w term' s2
                | (False, ms) \<Rightarrow> (Exit 1, errs ms s2))))"
  by pat_completeness auto

lemma wait_and_display_stdin: "wait_and_display w pid s = Got t \<Longrightarrow> sh_stdin t = sh_stdin s"
proof (induction w pid s rule: wait_and_display.induct)
  case (1 w pid s)
  from "1.prems" obtain p st s1 where w: "waitpid_any w s = Got ((p, st), s1)"
    by (auto simp: wait_and_display.simps [of w pid s] split: waiting.splits)
  then have "sh_stdin s1 = sh_stdin s" by (auto elim!: waitpid_any_Got)
  with "1.prems" "1.IH" [OF w] w show ?case
    by (auto simp: wait_and_display.simps [of w pid s] Let_def split: if_splits)
qed

termination shell_loop
proof (relation "measure (\<lambda>(w, t, s). length (sh_stdin s))", goal_cases)
  case (2 w tm s r s1 tm' pid d s2 b ms)
  have "length (sh_stdin s1) < length (sh_stdin s)"
    using command_consumes [OF 2(1) [symmetric]] 2(2) by (auto split: if_splits)
  moreover have "sh_stdin s2 = sh_stdin s1"
    using 2(3) by (auto split: if_splits dest: wait_and_display_stdin)
  ultimately show ?case by simp
qed simp

declare shell_loop.simps [simp del]

definition start_shell :: "world \<Rightarrow> shell \<Rightarrow> shell_end \<times> shell" where
  "start_shell w s = shell_loop w T_NL (s\<lparr>sh_sigs := ignore_sig (sh_sigs s)\<rparr>)"

text \<open>\<open>main\<close> exits with \<open>EXIT_SUCCESS\<close> when \<open>start_shell\<close> returns, whatever it returned.\<close>

definition main :: "world \<Rightarrow> shell \<Rightarrow> shell_end \<times> shell" where
  "main w s = (case start_shell w s of
       (Returned _, t) \<Rightarrow> (Exit 0, t)
     | r \<Rightarrow> r)"

section \<open>\<open>test_gettoken\<close>\<close>

definition token_line :: "TOKEN \<Rightarrow> string \<Rightarrow> string" where
  "token_line t wd = (case t of
       T_WORD \<Rightarrow> ''T_WORD <'' @ wd @ ''>'' @ [NL]
     | T_BAR \<Rightarrow> ''T_BAR'' @ [NL] | T_AMP \<Rightarrow> ''T_AMP'' @ [NL] | T_SEMI \<Rightarrow> ''T_SEMI'' @ [NL]
     | T_GT \<Rightarrow> ''T_GT'' @ [NL] | T_GTGT \<Rightarrow> ''T_GTGT'' @ [NL] | T_LT \<Rightarrow> ''T_LT'' @ [NL]
     | T_NL \<Rightarrow> ''T_NL'' @ [NL] | T_EOF \<Rightarrow> ''T_EOF'' @ [NL] | T_ERROR \<Rightarrow> ''T_ERROR'' @ [NL])"

function token_lines :: "cbuf \<Rightarrow> shell \<Rightarrow> shell_end \<times> shell" where
  "token_lines word s =
     (case next_token word s of
        (t, word', s1) \<Rightarrow>
          (if t = T_EOF \<or> t = T_ERROR then (Exit 0, out (token_line t []) s1)
           else if t = T_WORD then
             (case cstr word' of
                None \<Rightarrow> (Undefined, s1)
              | Some wd \<Rightarrow> token_lines word' (out (token_line t wd) s1))
           else token_lines word' (out (token_line t []) s1)))"
  by pat_completeness auto
termination
proof (relation "measure (\<lambda>(word, s). length (sh_stdin s))", goal_cases)
  case (2 word s t y word' s1 wd)
  then show ?case using next_token_consumes(2) [of word s t word' s1] by auto
next
  case (3 word s t y word' s1)
  then show ?case using next_token_consumes(2) [of word s t word' s1] by auto
qed simp

declare token_lines.simps [simp del]

definition test_gettoken :: "shell \<Rightarrow> shell_end \<times> shell" where
  "test_gettoken s =
     (let s1 = out (''EOF char is ['' @ [CHR 0xFF] @ '':-1]'' @ [NL]) s;
          s2 = out (''Try typing '' @ [CHR 0x27] @ ''sort <inf | pr -h '' @ [DQUOTE] @ ''Sept. Results''
                    @ [DQUOTE] @ '' >>outf&'' @ [CHR 0x27] @ ''.'' @ [NL]) s1
      in token_lines (uninit MAXWORD) s2)"

end
