(* ===== verification/ShellPipeline.thy ===== *)
theory ShellPipeline
  imports ShellMain
begin

text \<open>
  \<open>command\<close> seen as two phases.  \<open>parse_line\<close> reads a whole command line and collects its
  simple commands, from left to right; \<open>run_stages\<close> then runs them from right to left,
  making the pipes on the way.  The main lemma \<open>command_two_phases\<close> says that the code's
  interleaved recursion does exactly this; the rest are facts about each phase.
\<close>

section \<open>The two phases\<close>

type_synonym stage = "TOKEN \<times> cmdloc"

function parse_line ::
  "world \<Rightarrow> bool \<Rightarrow> cmdloc \<Rightarrow> shell \<Rightarrow> (cmdres \<times> shell) + (stage list \<times> shell)" where
  "parse_line w makepipe l s =
     (case cmd_step w makepipe l s of
        Again l' s' \<Rightarrow> parse_line w makepipe l' s'
      | Pipe l' s' \<Rightarrow>
          (case parse_line w True init_loc s' of
             Inl r \<Rightarrow> Inl r
           | Inr (st, s'') \<Rightarrow> Inr ((T_BAR, l') # st, s''))
      | Finish token l' s' \<Rightarrow> Inr ([(token, l')], s')
      | Eof s' \<Rightarrow> Inl (Exited 0, s')
      | Error s' \<Rightarrow> Inl (DoneError, s')
      | Undef s' \<Rightarrow> Inl (UndefRes, s'))"
  by pat_completeness auto
termination
proof (relation "measure (\<lambda>(w, mp, l, s). length (sh_stdin s))", goal_cases)
  case (2 w mp l s l' s')
  then show ?case using cmd_step_consumes [of w mp l s] by auto
next
  case (3 w mp l s l' s')
  then show ?case using cmd_step_consumes [of w mp l s] by auto
qed simp

declare parse_line.simps [simp del]

fun run_stages :: "world \<Rightarrow> bool \<Rightarrow> stage list \<Rightarrow> shell \<Rightarrow> cmdres \<times> shell" where
  "run_stages w makepipe [] s = (UndefRes, s)"
| "run_stages w makepipe [(token, l)] s = cmd_finish w makepipe token token 0 l s"
| "run_stages w makepipe ((token, l) # st) s =
     (case run_stages w True st s of
        (Done term wpid d, s') \<Rightarrow> cmd_finish w makepipe T_BAR term wpid (l\<lparr>cl_dstfd := d\<rparr>) s'
      | r \<Rightarrow> r)"

lemma parse_line_nonempty: "parse_line w mp l s = Inr (st, t) \<Longrightarrow> st \<noteq> []"
proof (induction w mp l s arbitrary: st t rule: parse_line.induct)
  case (1 w mp l s)
  then show ?case
    by (cases "cmd_step w mp l s")
       (auto simp: parse_line.simps [of w mp l s] split: sum.splits prod.splits)
qed

lemma parse_line_Inl:
  "parse_line w mp l s = Inl (r, t) \<Longrightarrow> r \<in> {Exited 0, DoneError, UndefRes}"
proof (induction w mp l s arbitrary: r t rule: parse_line.induct)
  case (1 w mp l s)
  then show ?case
    by (cases "cmd_step w mp l s")
       (auto simp: parse_line.simps [of w mp l s] split: sum.splits prod.splits)
qed

lemma command_two_phases:
  "command w mp l s =
     (case parse_line w mp l s of
        Inl r \<Rightarrow> r
      | Inr (st, t) \<Rightarrow> run_stages w mp st t)"
proof (induction w mp l s rule: command.induct)
  case (1 w mp l s)
  show ?case
  proof (cases "cmd_step w mp l s")
    case (Pipe l' s')
    note IH = "1.IH"(2) [OF Pipe]
    show ?thesis
    proof (cases "parse_line w True init_loc s'")
      case (Inl x)
      obtain r t where x: "x = (r, t)" by fastforce
      with Inl have "r \<in> {Exited 0, DoneError, UndefRes}" by (blast dest: parse_line_Inl)
      with Pipe IH Inl x show ?thesis
        by (auto simp: parse_line.simps [of w mp l s] command.simps [of w mp l s])
    next
      case (Inr x)
      obtain st t where x: "x = (st, t)" by fastforce
      then have "st \<noteq> []" using Inr parse_line_nonempty by blast
      then obtain a st' where "st = a # st'" by (cases st) auto
      with Pipe IH Inr x show ?thesis
        by (simp add: parse_line.simps [of w mp l s] command.simps [of w mp l s])
    qed
  qed (use 1 in \<open>simp_all add: parse_line.simps [of w mp l s] command.simps [of w mp l s]\<close>)
qed

section \<open>Reading a command line\<close>

text \<open>Reading touches the input, the messages and the heap only.\<close>

definition reading :: "shell \<Rightarrow> shell \<Rightarrow> bool" where
  "reading s t \<longleftrightarrow>
     sh_ferror t = sh_ferror s \<and> sh_fds t = sh_fds s \<and> sh_env t = sh_env s
     \<and> sh_sigs t = sh_sigs s \<and> sh_forks t = sh_forks s \<and> sh_pipes t = sh_pipes s
     \<and> sh_unreaped t = sh_unreaped s \<and> sh_waits t = sh_waits s \<and> sh_kids t = sh_kids s
     \<and> sh_reaped t = sh_reaped s \<and> sh_stray t = sh_stray s"

lemma reading_refl [simp]: "reading s s"
  by (simp add: reading_def)

lemma reading_trans: "reading s t \<Longrightarrow> reading t u \<Longrightarrow> reading s u"
  by (simp add: reading_def)

lemma reading_messages [simp]: "reading s (err m t) \<longleftrightarrow> reading s t" "reading s (errs ms t) \<longleftrightarrow> reading s t"
  "reading s (out m t) \<longleftrightarrow> reading s t"
  "reading s (t\<lparr>sh_stdin := r\<rparr>) \<longleftrightarrow> reading s t"
  "reading s (t\<lparr>sh_allocs := n\<rparr>) \<longleftrightarrow> reading s t"
  "reading s (t\<lparr>sh_heap := h\<rparr>) \<longleftrightarrow> reading s t"
  by (simp_all add: reading_def)

lemma next_token_reading: "next_token word s = (t, wd, s1) \<Longrightarrow> reading s s1"
  by (auto simp: next_token_cases split: lexeme.splits if_splits)

lemma add_word_reading: "reading s t \<Longrightarrow> reading s (step_state (add_word w l t))"
  by (auto simp: add_word_def Let_def split: option.splits)

lemma redirection_reading:
  "reading s t \<Longrightarrow> reading s (step_state (in_redirection mp l t))"
  "reading s t \<Longrightarrow> reading s (step_state (out_redirection tk l t))"
  by (auto simp: in_redirection_def out_redirection_def Let_def split: prod.splits
      dest!: next_token_reading intro: reading_trans)

lemma cmd_step_reading: "reading s (step_state (cmd_step w mp l s))"
proof -
  obtain t wd s1 where n: "next_token (cl_word l) s = (t, wd, s1)" by (cases "next_token (cl_word l) s")
  note r = next_token_reading [OF n]
  show ?thesis
    using r add_word_reading [OF r] redirection_reading [OF r]
    by (cases t) (simp_all add: cmd_step_def n Let_def)
qed

lemma parse_line_reading:
  "(case parse_line w mp l s of Inl (r, t) \<Rightarrow> reading s t | Inr (st, t) \<Rightarrow> reading s t)"
proof (induction w mp l s rule: parse_line.induct)
  case (1 w mp l s)
  note step = cmd_step_reading [of s w mp l]
  show ?case
    using 1 step
    by (cases "cmd_step w mp l s")
       (auto simp: parse_line.simps [of w mp l s] split: sum.splits prod.splits
          intro: reading_trans)
qed

section \<open>The commands that were read\<close>

definition terminators :: "TOKEN set" where
  "terminators = {T_AMP, T_SEMI, T_NL}"

text \<open>
  The local variables of a command are in order: the arguments leave room for the final null
  pointer and are C strings; a descriptor is -1 exactly when a file name was read for it; a
  command that reads from a pipe has no input file; and \<open>append\<close> was assigned if there is an
  output file.
\<close>

definition wf_loc :: "bool \<Rightarrow> cmdloc \<Rightarrow> bool" where
  "wf_loc makepipe l \<longleftrightarrow>
     length (cl_argv l) < MAXARG \<and> (\<forall>a\<in>set (cl_argv l). no_nul a)
     \<and> length (cl_word l) = MAXWORD
     \<and> length (cl_srcfile l) = MAXFNAME \<and> length (cl_dstfile l) = MAXFNAME
     \<and> (cl_srcfd l = STDIN_FILENO \<and> cl_srcfile l = zeroed MAXFNAME
        \<or> cl_srcfd l = - 1 \<and> \<not> makepipe)
     \<and> (cl_dstfd l = STDOUT_FILENO \<and> cl_dstfile l = zeroed MAXFNAME
        \<or> cl_dstfd l = - 1 \<and> cl_append l \<noteq> None)"

fun wf_stages :: "bool \<Rightarrow> stage list \<Rightarrow> bool" where
  "wf_stages makepipe [] \<longleftrightarrow> False"
| "wf_stages makepipe [(token, l)] \<longleftrightarrow> wf_loc makepipe l \<and> token \<in> terminators"
| "wf_stages makepipe ((token, l) # st) \<longleftrightarrow>
     token = T_BAR \<and> wf_loc makepipe l \<and> cl_dstfd l = STDOUT_FILENO \<and> wf_stages True st"

lemma wf_init_loc [simp]: "wf_loc mp init_loc"
  by (simp add: wf_loc_def init_loc_def MAXARG_def)

lemma next_token_length: "next_token word s = (t, wd, s1) \<Longrightarrow> length wd = length word"
  by (auto simp: next_token_cases split: lexeme.splits if_splits)

lemma next_token_unchanged:
  "next_token word s = (t, wd, s1) \<Longrightarrow> t \<noteq> T_WORD \<Longrightarrow> wd = word \<or> sh_stdin s1 = []"
  by (auto simp: next_token_cases split: lexeme.splits if_splits)

lemma next_token_tokens:
  "next_token word s = (t, wd, s1) \<Longrightarrow> t \<in> insert T_WORD (insert T_EOF (insert T_ERROR operators))"
  by (auto simp: next_token_cases split: lexeme.splits if_splits dest: lex_consumes(2))

definition step_wf :: "bool \<Rightarrow> shell step \<Rightarrow> bool" where
  "step_wf mp x \<longleftrightarrow> (case x of
       Again l s \<Rightarrow> wf_loc mp l \<or> sh_stdin s = []
     | Pipe l s \<Rightarrow> wf_loc mp l \<and> cl_dstfd l = STDOUT_FILENO
     | Finish t l s \<Rightarrow> wf_loc mp l \<and> t \<in> terminators
     | _ \<Rightarrow> True)"

lemma add_word_wf: "wf_loc mp l \<Longrightarrow> step_wf mp (add_word w l s)"
  by (auto simp: add_word_def step_wf_def Let_def wf_loc_def MAXARG_def
      dest: cstr_no_nul split: option.splits)

lemma in_redirection_wf: "wf_loc mp l \<Longrightarrow> step_wf mp (in_redirection mp l s)"
  using next_token_unchanged [of "cl_srcfile l" s]
  by (auto simp: in_redirection_def step_wf_def Let_def wf_loc_def
      dest: next_token_length split: prod.splits)

lemma out_redirection_wf: "wf_loc mp l \<Longrightarrow> step_wf mp (out_redirection tk l s)"
  using next_token_unchanged [of "cl_dstfile l" s]
  by (auto simp: out_redirection_def step_wf_def Let_def wf_loc_def
      dest: next_token_length split: prod.splits)

lemma cmd_step_wf: "wf_loc mp l \<Longrightarrow> step_wf mp (cmd_step w mp l s)"
proof -
  assume wf: "wf_loc mp l"
  obtain t wd s1 where n: "next_token (cl_word l) s = (t, wd, s1)" by (cases "next_token (cl_word l) s")
  have wf1: "wf_loc mp (l\<lparr>cl_word := wd\<rparr>)"
    using wf next_token_length [OF n] by (simp add: wf_loc_def)
  show ?thesis
    using wf1 add_word_wf [OF wf1] in_redirection_wf [OF wf1] out_redirection_wf [OF wf1]
    by (cases t) (simp_all add: cmd_step_def n Let_def, simp_all add: step_wf_def terminators_def)
qed

lemma cmd_step_empty:
  "sh_stdin s = [] \<Longrightarrow> \<exists>s'. cmd_step w mp l s = Eof s' \<or> cmd_step w mp l s = Error s'"
  by (simp add: cmd_step_def next_token_cases)

lemma parse_line_wf:
  "wf_loc mp l \<or> sh_stdin s = [] \<Longrightarrow> parse_line w mp l s = Inr (st, t) \<Longrightarrow> wf_stages mp st"
proof (induction w mp l s arbitrary: st t rule: parse_line.induct)
  case (1 w mp l s)
  show ?case
  proof (cases "sh_stdin s = []")
    case True
    then show ?thesis
      using "1.prems" cmd_step_empty [of s w mp l] by (auto simp: parse_line.simps [of w mp l s])
  next
    case False
    with "1.prems" have "step_wf mp (cmd_step w mp l s)" by (simp add: cmd_step_wf)
    then show ?thesis
    proof (cases "cmd_step w mp l s")
      case (Pipe l' s')
      with "1.prems" obtain st' where st': "parse_line w True init_loc s' = Inr (st', t)"
        "st = (T_BAR, l') # st'"
        by (auto simp: parse_line.simps [of w mp l s] split: sum.splits prod.splits)
      then have "wf_stages True st'" using "1.IH"(2) [OF Pipe] by simp
      with st' Pipe \<open>step_wf mp (cmd_step w mp l s)\<close> show ?thesis
        by (cases st') (auto simp: step_wf_def)
    qed (use "1.prems" "1.IH" in \<open>auto simp: step_wf_def parse_line.simps [of w mp l s]\<close>)
  qed
qed

section \<open>What each stage is expected to run with\<close>

definition runnable :: "cmdloc \<Rightarrow> bool" where
  "runnable l \<longleftrightarrow> cl_argv l \<noteq> [] \<and> \<not> is_builtin (hd (cl_argv l))
     \<and> cstr (cl_srcfile l) \<noteq> None \<and> cstr (cl_dstfile l) \<noteq> None"

definition in_file :: "bool \<Rightarrow> cmdloc \<Rightarrow> string" where
  "in_file bg l = (if cl_srcfd l = STDIN_FILENO \<and> bg then ''/dev/null'' else the (cstr (cl_srcfile l)))"

definition stage_in :: "world \<Rightarrow> nat \<Rightarrow> bool \<Rightarrow> cmdloc \<Rightarrow> ofile" where
  "stage_in w k bg l =
     (let f = in_file bg l in if f \<noteq> [] \<and> w_open w k f then RdFile f else Std 0)"

definition stage_out :: "world \<Rightarrow> nat \<Rightarrow> cmdloc \<Rightarrow> ofile" where
  "stage_out w k l =
     (let f = the (cstr (cl_dstfile l))
      in if f \<noteq> [] \<and> w_open w k f then WrFile f (the (cl_append l)) else Std 1)"

definition stage_child ::
  "world \<Rightarrow> nat \<Rightarrow> sigtab \<Rightarrow> bool \<Rightarrow> ofile \<Rightarrow> ofile \<Rightarrow> string list \<Rightarrow> child" where
  "stage_child w k sigs bg i ofd argv =
     \<lparr>ch_pid = fork_result w k, ch_sigs = (if bg then sigs else entry_sig sigs),
      ch_fds = [0 \<mapsto> i, 1 \<mapsto> ofd, 2 \<mapsto> Std 2],
      ch_trace = (if w_exec w k (hd argv) then [] else [Err (''Can't execute '' @ hd argv @ [NL])]),
      ch_end = (if w_exec w k (hd argv) then Exec (hd argv) (cmdname (hd argv) # tl argv)
                else ExitChild 1)\<rparr>"

text \<open>
  The children of a pipeline, in the order they are started (from right to left), when the
  first gets the \<open>fork\<close> number \<open>k\<close> and the first pipe the number \<open>p\<close>: neighbours share a
  pipe, the ends have their redirections or what the shell had.
\<close>

fun pipeline_children ::
  "world \<Rightarrow> bool \<Rightarrow> bool \<Rightarrow> sigtab \<Rightarrow> nat \<Rightarrow> nat \<Rightarrow> cmdloc list \<Rightarrow> child list" where
  "pipeline_children w mp bg sigs k p [] = []"
| "pipeline_children w mp bg sigs k p (l # ls) =
     pipeline_children w True bg sigs k p ls @
     [stage_child w (k + length ls) sigs bg
        (if mp then PipeR (p + length ls) else stage_in w (k + length ls) bg l)
        (if ls = [] then stage_out w (k + length ls) l else PipeW (p + length ls - 1))
        (cl_argv l)]"

section \<open>The child's descriptors\<close>

text \<open>A table with the standard descriptors, and room for one more.\<close>

definition std_table :: "world \<Rightarrow> fdtable \<Rightarrow> bool" where
  "std_table w t \<longleftrightarrow> t 0 \<noteq> None \<and> t 1 \<noteq> None \<and> t 2 \<noteq> None \<and> t (- 1) = None
     \<and> lowest_free (w_nofile w) t \<noteq> None"

lemma zeroed_MAXFNAME [simp]: "cstr (zeroed MAXFNAME) = Some []"
  by (simp add: cstr_zeroed MAXFNAME_def)

lemma devnull_no_nul: "cstr (lit ''/dev/null'') = Some ''/dev/null''"
  by (simp add: cstr_lit no_nul_def)

lemma redirect_in_file:
  assumes wf: "wf_loc False l" "runnable l" and t: "std_table w t" "t 0 = Some (Std 0)"
  shows "redirect_in w k (cl_srcfd l) (cl_srcfile l) bg t = Some (t(0 \<mapsto> stage_in w k bg l))"
proof (cases "in_file bg l = []")
  case True
  then have b: "\<not> (cl_srcfd l = 0 \<and> bg)" and e: "cstr (cl_srcfile l) = Some []"
    using wf(2) by (auto simp: in_file_def runnable_def split: if_splits)
  have "cl_srcfd l \<in> {0, - 1}" using wf(1) by (auto simp: wf_loc_def)
  then have "move_fd (cl_srcfd l) 0 t = t(0 \<mapsto> Std 0)"
    using t by (auto simp: fun_eq_iff move_fd_apply std_table_def)
  with True b e show ?thesis
    by (auto simp: redirect_in_def open_unnamed stage_in_def)
next
  case False
  define b where "b = (if cl_srcfd l = 0 \<and> bg then lit ''/dev/null'' else cl_srcfile l)"
  define fd where "fd = (if cl_srcfd l = 0 \<and> bg then - 1 else cl_srcfd l)"
  have c: "cstr b = Some (in_file bg l)"
    using wf(2) by (auto simp: b_def in_file_def runnable_def devnull_no_nul)
  obtain d t1 where o: "open_named w k b (\<lambda>p. Some (RdFile p)) fd t = Some (d, t1)"
    "move_fd d 0 t1 = (if w_open w k (in_file bg l) \<and> lowest_free (w_nofile w) t \<noteq> None
                       then t(0 \<mapsto> RdFile (in_file bg l)) else t)"
    using open_move [OF c False, of "\<lambda>p. Some (RdFile p)" "RdFile (in_file bg l)" t 0 w k fd] t(1)
    by (auto simp: std_table_def)
  have "redirect_in w k (cl_srcfd l) (cl_srcfile l) bg t = Some (move_fd d 0 t1)"
    using o(1) by (auto simp: redirect_in_def b_def fd_def split: if_splits)
  moreover have "move_fd d 0 t1 = t(0 \<mapsto> stage_in w k bg l)"
    using o(2) t False by (auto simp: stage_in_def std_table_def fun_eq_iff)
  ultimately show ?thesis by simp
qed

lemma redirect_in_pipe:
  assumes "t r = Some (PipeR p)" and "r > 2"
  shows "redirect_in w k r (zeroed MAXFNAME) bg t = Some ((t(r := None))(0 \<mapsto> PipeR p))"
proof -
  have "move_fd r 0 t = (t(r := None))(0 \<mapsto> PipeR p)"
    using assms by (auto simp: move_fd_apply fun_eq_iff)
  with assms show ?thesis by (simp add: redirect_in_def open_unnamed)
qed

lemma redirect_out_file:
  assumes wf: "wf_loc mp l" "runnable l" and t: "std_table w t" "t 1 = Some (Std 1)"
  shows "redirect_out w k (cl_dstfd l) (cl_dstfile l) (cl_append l) t =
           Some (t(1 \<mapsto> stage_out w k l))"
proof (cases "cstr (cl_dstfile l) = Some []")
  case True
  have "cl_dstfd l \<in> {1, - 1}" using wf(1) by (auto simp: wf_loc_def)
  then have "move_fd (cl_dstfd l) 1 t = t(1 \<mapsto> Std 1)"
    using t by (auto simp: fun_eq_iff move_fd_apply std_table_def)
  with True show ?thesis
    by (simp add: redirect_out_def open_unnamed stage_out_def)
next
  case False
  obtain f where f: "cstr (cl_dstfile l) = Some f" "f \<noteq> []"
    using wf(2) False by (auto simp: runnable_def)
  obtain a where a: "cl_append l = Some a"
    using wf(1) f by (auto simp: wf_loc_def)
  obtain d t1 where o: "open_named w k (cl_dstfile l) (\<lambda>p. map_option (WrFile p) (cl_append l)) (cl_dstfd l) t = Some (d, t1)"
    "move_fd d 1 t1 = (if w_open w k f \<and> lowest_free (w_nofile w) t \<noteq> None
                       then t(1 \<mapsto> WrFile f a) else t)"
    using open_move [OF f, of "\<lambda>p. map_option (WrFile p) (cl_append l)" "WrFile f a" t 1 w k "cl_dstfd l"] t(1) a
    by (auto simp: std_table_def)
  have "move_fd d 1 t1 = t(1 \<mapsto> stage_out w k l)"
    using o(2) t f a by (auto simp: stage_out_def std_table_def fun_eq_iff)
  with o(1) show ?thesis by (simp add: redirect_out_def)
qed

lemma redirect_out_pipe:
  assumes "t d = Some (PipeW p)" and "d > 2"
  shows "redirect_out w k d (zeroed MAXFNAME) app t = Some ((t(d := None))(1 \<mapsto> PipeW p))"
proof -
  have "move_fd d 1 t = (t(d := None))(1 \<mapsto> PipeW p)"
    using assms by (auto simp: move_fd_apply fun_eq_iff)
  with assms show ?thesis by (simp add: redirect_out_def open_unnamed)
qed

section \<open>One stage\<close>

text \<open>What the shell has open while a pipeline is being built: besides the standard
  descriptors, the write end that waits for the stage to the left.\<close>

definition waiting_table :: "(fd \<times> nat) option \<Rightarrow> fdtable" where
  "waiting_table x = (case x of None \<Rightarrow> std_fds | Some (d, q) \<Rightarrow> std_fds(d \<mapsto> PipeW q))"

definition waiting_ok :: "(fd \<times> nat) option \<Rightarrow> bool" where
  "waiting_ok x \<longleftrightarrow> (case x of None \<Rightarrow> True | Some (d, q) \<Rightarrow> d = 4 \<or> d = 5)"

definition next_write_fd :: "(fd \<times> nat) option \<Rightarrow> fd" where
  "next_write_fd x = (case x of None \<Rightarrow> 4 | Some (d, q) \<Rightarrow> 9 - d)"

lemma std_fds_apply [simp]:
  "std_fds d = (if d = 0 then Some (Std 0) else if d = 1 then Some (Std 1)
                else if d = 2 then Some (Std 2) else None)"
  by (simp add: std_fds_def)

lemma less4_cases: "0 \<le> i \<Longrightarrow> i < 3 \<Longrightarrow> i = 0 \<or> i = 1 \<or> i = (2::int)"
  by arith

lemma pipe_fd_waiting:
  assumes "waiting_ok x" and "6 \<le> n"
  shows "pipe_fd n k (waiting_table x) =
     (Some (3, next_write_fd x),
      (waiting_table x)(3 \<mapsto> PipeR k, next_write_fd x \<mapsto> PipeW k))"
proof -
  let ?t = "waiting_table x" and ?w = "next_write_fd x"
  have w: "?w = 4 \<or> ?w = 5" using assms(1)
    by (auto simp: waiting_ok_def next_write_fd_def split: option.splits prod.splits)
  have 1: "lowest_free n ?t = Some 3"
  proof (rule lowest_free_least)
    show "?t 3 = None" using assms(1)
      by (auto simp: waiting_table_def waiting_ok_def split: option.splits)
    fix i :: int assume "0 \<le> i" "i < 3"
    then show "?t i \<noteq> None" by (auto simp: waiting_table_def split: option.splits dest!: less4_cases)
  qed (use assms(2) in auto)
  have 2: "lowest_free n (?t(3 \<mapsto> PipeR k)) = Some ?w"
  proof (rule lowest_free_least)
    show "(?t(3 \<mapsto> PipeR k)) ?w = None" using assms(1)
      by (auto simp: waiting_table_def waiting_ok_def next_write_fd_def split: option.splits)
    fix i :: int assume i: "0 \<le> i" "i < ?w"
    then have "i = 0 \<or> i = 1 \<or> i = 2 \<or> i = 3 \<or> i = 4" using w by auto
    then show "(?t(3 \<mapsto> PipeR k)) i \<noteq> None" using assms(1) i(2)
      by (auto simp: waiting_table_def waiting_ok_def next_write_fd_def split: option.splits)
  qed (use assms(2) w in auto)
  show ?thesis by (simp add: pipe_fd_def 1 2)
qed

lemma std_table_if:
  "t 0 = Some a \<Longrightarrow> t 1 = Some b \<Longrightarrow> t 2 = Some c \<Longrightarrow> dom t \<subseteq> {0, 1, 2, 3, 4} \<Longrightarrow>
   6 \<le> w_nofile w \<Longrightarrow> std_table w t"
proof -
  assume a: "t 0 = Some a" "t 1 = Some b" "t 2 = Some c" "dom t \<subseteq> {0, 1, 2, 3, 4}" "6 \<le> w_nofile w"
  have "5 \<notin> dom t" and "- 1 \<notin> dom t" using a(4) by auto
  then have n: "t 5 = None" "t (- 1) = None" by (auto simp: domIff)
  then obtain e where "lowest_free (w_nofile w) t = Some e"
    using lowest_free_isSome [of 5 "w_nofile w" t] a(5) by auto
  with a n show ?thesis by (simp add: std_table_def)
qed

lemma child_run_clean:
  assumes "Option.bind (redirect_in w k srcfd srcfile bg (if closefd \<noteq> - 1 then close_fd closefd t else t))
       (redirect_out w k dstfd dstfile app) = Some [0 \<mapsto> i, 1 \<mapsto> ofd, 2 \<mapsto> Std 2]"
    and "argv \<noteq> []"
  shows "child_run w k (fork_result w k) argv srcfd srcfile dstfd dstfile app bg closefd t sigs
       = stage_child w k sigs bg i ofd argv"
proof -
  have "fd_check [0 \<mapsto> i, 1 \<mapsto> ofd, 2 \<mapsto> Std 2] = (True, [])"
    by (rule fd_check_clean) (auto split: if_splits)
  moreover have "argv[0 := x] = x # tl argv" for x using assms(2) by (cases argv) simp_all
  ultimately show ?thesis
    using assms(1) by (simp add: child_run_def redirect_halves Let_def stage_child_def)
qed

text \<open>What a stage's output becomes: the pipe to the stage on its right, or its own redirection.\<close>

definition stage_sink :: "world \<Rightarrow> nat \<Rightarrow> (fd \<times> nat) option \<Rightarrow> cmdloc \<Rightarrow> ofile" where
  "stage_sink w k x l = (case x of None \<Rightarrow> stage_out w k l | Some (d, q) \<Rightarrow> PipeW q)"

definition stage_source :: "world \<Rightarrow> nat \<Rightarrow> bool \<Rightarrow> bool \<Rightarrow> nat \<Rightarrow> cmdloc \<Rightarrow> ofile" where
  "stage_source w k bg mp p l = (if mp then PipeR p else stage_in w k bg l)"

definition sink_fd :: "(fd \<times> nat) option \<Rightarrow> cmdloc \<Rightarrow> fd" where
  "sink_fd x l = (case x of None \<Rightarrow> cl_dstfd l | Some (d, q) \<Rightarrow> d)"

lemma waiting_apply:
  "waiting_ok x \<Longrightarrow> waiting_table x 0 = Some (Std 0)" "waiting_ok x \<Longrightarrow> waiting_table x 1 = Some (Std 1)"
  "waiting_ok x \<Longrightarrow> waiting_table x 2 = Some (Std 2)" "waiting_ok x \<Longrightarrow> waiting_table x 3 = None"
  "waiting_ok x \<Longrightarrow> waiting_table x (next_write_fd x) = None"
  "waiting_ok x \<Longrightarrow> next_write_fd x = 4 \<or> next_write_fd x = 5"
  by (auto simp: waiting_table_def waiting_ok_def next_write_fd_def split: option.splits)

lemma waiting_std_table:
  assumes "waiting_ok x" and "6 \<le> w_nofile w"
  shows "std_table w ((waiting_table x)(0 \<mapsto> i))" and "std_table w (waiting_table x)"
proof -
  have "waiting_table x (- 1) = None"
    using assms(1) by (auto simp: waiting_table_def waiting_ok_def split: option.splits)
  moreover have "lowest_free (w_nofile w) t \<noteq> None" if "t 3 = None" for t
    using that assms(2) lowest_free_isSome [of 3 "w_nofile w" t] by auto
  ultimately show "std_table w ((waiting_table x)(0 \<mapsto> i))" "std_table w (waiting_table x)"
    using waiting_apply [OF assms(1)] by (simp_all add: std_table_def)
qed

lemma stage_redirect_in:
  assumes wf: "wf_loc mp l" "runnable l" and n: "6 \<le> w_nofile w" and x: "waiting_ok x"
  shows "redirect_in w k (if mp then 3 else cl_srcfd l) (cl_srcfile l) bg
      (if mp then (waiting_table x)(3 \<mapsto> PipeR p) else waiting_table x)
      = Some ((waiting_table x)(0 \<mapsto> stage_source w k bg mp p l))"
proof (cases mp)
  case True
  then have "cl_srcfile l = zeroed MAXFNAME" using wf(1) by (simp add: wf_loc_def)
  moreover have "((waiting_table x)(3 \<mapsto> PipeR p))(3 := None) = waiting_table x"
    using waiting_apply(4) [OF x] by auto
  ultimately show ?thesis
    using True redirect_in_pipe [of "(waiting_table x)(3 \<mapsto> PipeR p)" 3 p w k bg]
    by (simp add: stage_source_def)
next
  case False
  with wf redirect_in_file [OF _ wf(2) waiting_std_table(2) [OF x n] waiting_apply(1) [OF x]]
  show ?thesis by (simp add: stage_source_def)
qed

lemma stage_redirect_out:
  assumes wf: "wf_loc mp l" "runnable l" and n: "6 \<le> w_nofile w" and x: "waiting_ok x"
    and bar: "x \<noteq> None \<longrightarrow> cl_dstfd l = STDOUT_FILENO"
  shows "redirect_out w k (sink_fd x l) (cl_dstfile l) (cl_append l) ((waiting_table x)(0 \<mapsto> i))
      = Some [0 \<mapsto> i, 1 \<mapsto> stage_sink w k x l, 2 \<mapsto> Std 2]"
proof (cases x)
  let ?t = "(waiting_table x)(0 \<mapsto> i)"
  case None
  have "?t 1 = Some (Std 1)" using waiting_apply(2) [OF x] by simp
  note out = redirect_out_file [OF wf waiting_std_table(1) [OF x n] this, of k]
  have "?t(1 \<mapsto> stage_out w k l) = [0 \<mapsto> i, 1 \<mapsto> stage_out w k l, 2 \<mapsto> Std 2]"
    using None by (auto simp: waiting_table_def fun_eq_iff)
  with out None show ?thesis by (simp only: sink_fd_def stage_sink_def option.case)
next
  let ?t = "(waiting_table x)(0 \<mapsto> i)"
  case (Some dq)
  obtain d q where dq: "dq = (d, q)" by fastforce
  have d: "d > 2" using x Some dq by (auto simp: waiting_ok_def)
  have z: "cl_dstfile l = zeroed MAXFNAME" using bar wf(1) Some by (auto simp: wf_loc_def)
  have "?t d = Some (PipeW q)" using d Some dq by (simp add: waiting_table_def)
  then have out: "redirect_out w k d (zeroed MAXFNAME) (cl_append l) ?t
      = Some ((?t(d := None))(1 \<mapsto> PipeW q))"
    using d by (rule redirect_out_pipe)
  have "(?t(d := None))(1 \<mapsto> PipeW q) = [0 \<mapsto> i, 1 \<mapsto> PipeW q, 2 \<mapsto> Std 2]"
    using Some dq d by (auto simp: waiting_table_def fun_eq_iff)
  with out z Some dq show ?thesis
    by (simp only: sink_fd_def stage_sink_def option.case prod.case)
qed

lemma stage_redirect:
  assumes wf: "wf_loc mp l" "runnable l" and n: "6 \<le> w_nofile w" and x: "waiting_ok x"
    and bar: "x \<noteq> None \<longrightarrow> cl_dstfd l = STDOUT_FILENO"
  shows "Option.bind
      (redirect_in w k (if mp then 3 else cl_srcfd l) (cl_srcfile l) bg
         (if mp then (waiting_table x)(3 \<mapsto> PipeR p) else waiting_table x))
      (redirect_out w k (sink_fd x l) (cl_dstfile l) (cl_append l))
    = Some [0 \<mapsto> stage_source w k bg mp p l, 1 \<mapsto> stage_sink w k x l, 2 \<mapsto> Std 2]"
  using stage_redirect_in [OF wf n x] stage_redirect_out [OF wf n x bar] by simp

lemma invoke_stage:
  assumes wf: "wf_loc mp l" "runnable l" and n: "6 \<le> w_nofile w" and x: "waiting_ok x"
    and bar: "x \<noteq> None \<longrightarrow> cl_dstfd l = STDOUT_FILENO"
    and fork: "w_fork w (sh_forks s) \<noteq> None"
    and fds: "sh_fds s = (if mp then (waiting_table x)(3 \<mapsto> PipeR p, next_write_fd x \<mapsto> PipeW p)
                          else waiting_table x)"
  shows "invoke w (cl_argv l) (if mp then 3 else cl_srcfd l) (cl_srcfile l) (sink_fd x l) (cl_dstfile l)
           (cl_append l) bg (if mp then next_write_fd x else - 1) s =
     (fork_result w (sh_forks s),
      (let t = s\<lparr>sh_forks := Suc (sh_forks s),
           sh_kids := sh_kids s @ [stage_child w (sh_forks s) (sh_sigs s) bg
               (stage_source w (sh_forks s) bg mp p l) (stage_sink w (sh_forks s) x l) (cl_argv l)],
           sh_unreaped := sh_unreaped s @ [fork_result w (sh_forks s)],
           sh_fds := (if mp then waiting_table (Some (next_write_fd x, p)) else std_fds)\<rparr>
       in if bg then out (show_int (fork_result w (sh_forks s)) @ [NL]) t else t))"
proof -
  let ?k = "sh_forks s" and ?src = "if mp then 3 else cl_srcfd l" and ?dst = "sink_fd x l"
  let ?w = "next_write_fd x"
  have b: "builtin w (cl_argv l) ?src ?dst s = (False, s)"
    using wf(2) builtin_iff builtin_False by (metis prod.collapse runnable_def)
  have pid: "fork_result w ?k \<noteq> - 1" using fork by (auto simp: fork_result_def)
  have close: "(if (if mp then ?w else - 1) \<noteq> - 1 then close_fd (if mp then ?w else - 1) (sh_fds s) else sh_fds s)
      = (if mp then (waiting_table x)(3 \<mapsto> PipeR p) else waiting_table x)"
    using waiting_apply(5,6) [OF x] by (auto simp: fds fun_eq_iff fd_simps)
  have src: "\<not> mp \<Longrightarrow> cl_srcfd l = 0 \<or> cl_srcfd l = - 1" using wf(1) by (auto simp: wf_loc_def)
  have dst: "x = None \<Longrightarrow> cl_dstfd l = 1 \<or> cl_dstfd l = - 1" using wf(1) by (auto simp: wf_loc_def)
  have ne: "cl_argv l \<noteq> []" using wf(2) by (simp add: runnable_def)
  have kid: "child_run w ?k (fork_result w ?k) (cl_argv l) ?src (cl_srcfile l) ?dst (cl_dstfile l)
        (cl_append l) bg (if mp then ?w else - 1) (sh_fds s) (sh_sigs s)
      = stage_child w ?k (sh_sigs s) bg (stage_source w ?k bg mp p l) (stage_sink w ?k x l) (cl_argv l)"
    by (rule child_run_clean [OF _ ne])
       (simp only: close stage_redirect [OF wf n x bar, of ?k bg p])
  have parent: "(let t1 = (if ?src > 1 then close_fd ?src (sh_fds s) else sh_fds s)
       in if ?dst > 1 then close_fd ?dst t1 else t1)
      = (if mp then waiting_table (Some (?w, p)) else std_fds)"
    using src dst x waiting_apply(4-6) [OF x]
    by (auto simp: fds fun_eq_iff fd_simps sink_fd_def waiting_table_def waiting_ok_def
        next_write_fd_def Let_def split: option.splits)
  have upd: "(if c then u\<lparr>sh_fds := close_fd d (sh_fds u)\<rparr> else u)
      = u\<lparr>sh_fds := if c then close_fd d (sh_fds u) else sh_fds u\<rparr>" for c d and u :: shell
    by simp
  show ?thesis
    unfolding invoke_def
    using parent b kid
    by (cases mp; cases "STDOUT_FILENO < sink_fd x l"; cases "1 < cl_srcfd l")
       (simp_all add: ne pid upd Let_def)
qed

declare std_fds_apply [simp del]

section \<open>The end of a command, for a stage of a pipeline\<close>

definition stage_loc :: "(fd \<times> nat) option \<Rightarrow> cmdloc \<Rightarrow> cmdloc" where
  "stage_loc x l = (case x of None \<Rightarrow> l | Some (d, q) \<Rightarrow> l\<lparr>cl_dstfd := d\<rparr>)"

definition announce :: "bool \<Rightarrow> pid \<Rightarrow> event list" where
  "announce bg pid = (if bg then [Out (show_int pid @ [NL])] else [])"

lemma cmd_finish_stage:
  assumes wf: "wf_loc mp l" "runnable l" and n: "6 \<le> w_nofile w" and x: "waiting_ok x"
    and bar: "x \<noteq> None \<longrightarrow> cl_dstfd l = STDOUT_FILENO"
    and fork: "w_fork w (sh_forks s) \<noteq> None"
    and fds: "sh_fds s = waiting_table x"
  shows "cmd_finish w mp token term wpid (stage_loc x l) s =
     (Done term (if token \<noteq> T_BAR then fork_result w (sh_forks s) else wpid)
        (if mp then next_write_fd x else - 1),
      s\<lparr>sh_forks := Suc (sh_forks s),
        sh_pipes := (if mp then Suc (sh_pipes s) else sh_pipes s),
        sh_kids := sh_kids s @ [stage_child w (sh_forks s) (sh_sigs s) (term = T_AMP)
            (stage_source w (sh_forks s) (term = T_AMP) mp (sh_pipes s) l)
            (stage_sink w (sh_forks s) x l) (cl_argv l)],
        sh_unreaped := sh_unreaped s @ [fork_result w (sh_forks s)],
        sh_trace := sh_trace s @ announce (term = T_AMP) (fork_result w (sh_forks s)),
        sh_heap := sh_heap s - length (cl_argv l),
        sh_stray := sh_stray s + stray l,
        sh_fds := (if mp then waiting_table (Some (next_write_fd x, sh_pipes s)) else std_fds)\<rparr>)"
proof -
  have loc: "cl_argv (stage_loc x l) = cl_argv l" "cl_srcfd (stage_loc x l) = cl_srcfd l"
    "cl_srcfile (stage_loc x l) = cl_srcfile l" "cl_dstfile (stage_loc x l) = cl_dstfile l"
    "cl_append (stage_loc x l) = cl_append l" "stray (stage_loc x l) = stray l" "cl_dstfd (stage_loc x l) = sink_fd x l"
    by (simp_all add: stage_loc_def sink_fd_def stray_def split: option.splits prod.splits)
  have ne: "cl_argv l \<noteq> []" using wf(2) by (simp add: runnable_def)
  show ?thesis
  proof (cases mp)
    case True
    let ?s = "s\<lparr>sh_fds := (waiting_table x)(3 \<mapsto> PipeR (sh_pipes s), next_write_fd x \<mapsto> PipeW (sh_pipes s)),
                sh_pipes := Suc (sh_pipes s), sh_stray := sh_stray s + stray l\<rparr>"
    note i = invoke_stage [OF wf n x bar, of ?s "sh_pipes s" "term = T_AMP"]
    show ?thesis
      using i fork True ne
      by (simp add: cmd_finish_def loc fds pipe_fd_waiting [OF x n] Let_def announce_def out_def)
  next
    case False
    let ?s = "s\<lparr>sh_stray := sh_stray s + stray l\<rparr>"
    note i = invoke_stage [OF wf n x bar, of ?s "sh_pipes s" "term = T_AMP"]
    show ?thesis
      using i fds fork False ne
      by (simp add: cmd_finish_def loc Let_def announce_def out_def)
  qed
qed

section \<open>A whole pipeline\<close>

definition stage_count_args :: "stage list \<Rightarrow> nat" where
  "stage_count_args st = sum_list (map (\<lambda>(t, l). length (cl_argv l)) st)"

lemma length_pipeline_children [simp]:
  "length (pipeline_children w mp bg sigs k p ls) = length ls"
  by (induction ls arbitrary: mp) simp_all

lemma pids_pipeline_children:
  "map ch_pid (pipeline_children w mp bg sigs k p ls) = map (fork_result w) [k..<k + length ls]"
  by (induction ls arbitrary: mp) (simp_all add: stage_child_def)

text \<open>The write end left for the stage on the left alternates between descriptors 4 and 5.\<close>

definition left_fd :: "nat \<Rightarrow> fd" where
  "left_fd n = (if odd n then 4 else 5)"

definition stage_strays :: "stage list \<Rightarrow> nat" where
  "stage_strays st = sum_list (map (\<lambda>(t, l). stray l) st)"

definition after_pipeline :: "world \<Rightarrow> bool \<Rightarrow> stage list \<Rightarrow> shell \<Rightarrow> shell" where
  "after_pipeline w mp st s =
     (let n = length st; bg = (fst (last st) = T_AMP);
          pids = map (fork_result w) [sh_forks s..<sh_forks s + n]
      in s\<lparr>sh_forks := sh_forks s + n,
           sh_pipes := sh_pipes s + (if mp then n else n - 1),
           sh_kids := sh_kids s @
             pipeline_children w mp bg (sh_sigs s) (sh_forks s) (sh_pipes s) (map snd st),
           sh_unreaped := sh_unreaped s @ pids,
           sh_trace := sh_trace s @ concat (map (announce bg) pids),
           sh_heap := sh_heap s - stage_count_args st,
           sh_stray := sh_stray s + stage_strays st,
           sh_fds := waiting_table (if mp then Some (left_fd n, sh_pipes s + n - 1) else None)\<rparr>)"

lemma run_stages_wiring:
  assumes "wf_stages mp st" and "\<forall>(t, l)\<in>set st. runnable l" and "6 \<le> w_nofile w"
    and "\<forall>i<length st. w_fork w (sh_forks s + i) \<noteq> None" and "sh_fds s = std_fds"
  shows "run_stages w mp st s =
     (Done (fst (last st)) (fork_result w (sh_forks s)) (if mp then left_fd (length st) else - 1),
      after_pipeline w mp st s)"
  using assms
proof (induction w mp st s rule: run_stages.induct)
  case (2 w mp token l s)
  have f: "w_fork w (sh_forks s) \<noteq> None" using "2.prems"(4) by auto
  have t: "token \<noteq> T_BAR" using "2.prems"(1) by (auto simp: terminators_def)
  have "sh_fds s = waiting_table None" using "2.prems"(5) by (simp add: waiting_table_def)
  with cmd_finish_stage [of mp l w None s token token 0] "2.prems" f t show ?case
    by (simp add: stage_loc_def waiting_ok_def after_pipeline_def Let_def left_fd_def
        next_write_fd_def stage_count_args_def stage_strays_def stage_source_def stage_sink_def waiting_table_def)
next
  case (3 w mp token l s2 st s)
  let ?st = "s2 # st" and ?n = "length (s2 # st)"
  have wf: "wf_loc mp l" "runnable l" "cl_dstfd l = STDOUT_FILENO" "wf_stages True ?st" "token = T_BAR"
    using "3.prems"(1,2) by auto
  have IH: "run_stages w True ?st s =
      (Done (fst (last ?st)) (fork_result w (sh_forks s)) (left_fd ?n), after_pipeline w True ?st s)"
    using "3.IH" wf(4) "3.prems"(2-5) by (auto simp: less_Suc_eq)
  let ?s = "after_pipeline w True ?st s" and ?x = "Some (left_fd ?n, sh_pipes s + ?n - 1)"
  have fds: "sh_fds ?s = waiting_table ?x" by (simp add: after_pipeline_def Let_def)
  have f: "w_fork w (sh_forks ?s) \<noteq> None"
    using "3.prems"(4) [rule_format, of ?n] by (simp add: after_pipeline_def Let_def)
  have x: "waiting_ok ?x" by (simp add: waiting_ok_def left_fd_def)
  have fd: "next_write_fd ?x = left_fd (Suc ?n)" by (simp add: next_write_fd_def left_fd_def)
  have loc: "l\<lparr>cl_dstfd := left_fd ?n\<rparr> = stage_loc ?x l" by (simp add: stage_loc_def)
  have bar: "?x \<noteq> None \<longrightarrow> cl_dstfd l = STDOUT_FILENO" using wf(3) by simp
  note fin = cmd_finish_stage [OF wf(1,2) "3.prems"(3) x bar f fds, of T_BAR "fst (last ?st)"
      "fork_result w (sh_forks s)"]
  have e: "run_stages w mp ((token, l) # ?st) s =
      cmd_finish w mp T_BAR (fst (last ?st)) (fork_result w (sh_forks s)) (stage_loc ?x l) ?s"
    by (simp only: run_stages.simps IH prod.case cmdres.case loc)
  show ?case
    unfolding e fin fd
    by (simp add: after_pipeline_def Let_def stage_count_args_def stage_strays_def stage_source_def stage_sink_def waiting_table_def)
qed simp

end
