(* ===== verification/ShellSyntax.thy ===== *)
theory ShellSyntax
  imports ShellPipeline
begin

text \<open>
  The shell's command language from the user's side: how a pipeline is written
  (\<open>print_line\<close>), that the lexer and \<open>parse_line\<close> read back what was written, and what
  \<open>command\<close> then makes of it: which programs run, with which arguments, connected how, and
  in what state the shell is left (\<open>after_line\<close>).
\<close>

section \<open>Writing a command line\<close>

text \<open>
  A pipeline of commands with an optional input file for the first, an optional output file
  for the last (\<open>True\<close>: append) and a terminator, and its text: every word quoted, the
  operators of the shell between them.
\<close>

definition print_words :: "string list \<Rightarrow> string" where
  "print_words args = concat (map (\<lambda>a. SPC # quote a) args)"

definition print_in :: "string option \<Rightarrow> string" where
  "print_in i = (case i of None \<Rightarrow> [] | Some f \<Rightarrow> CHR ''<'' # quote f)"

definition print_out :: "(bool \<times> string) option \<Rightarrow> string" where
  "print_out ofl = (case ofl of None \<Rightarrow> []
     | Some (app, f) \<Rightarrow> (if app then [CHR ''>'', CHR ''>''] else [CHR ''>'']) @ SPC # quote f)"

definition term_char :: "TOKEN \<Rightarrow> char" where
  "term_char t = (if t = T_AMP then CHR ''&'' else if t = T_SEMI then CHR '';'' else NL)"

fun print_line :: "string option \<Rightarrow> string list list \<Rightarrow> (bool \<times> string) option \<Rightarrow> TOKEN \<Rightarrow> string" where
  "print_line i [] ofl t = []"
| "print_line i [c] ofl t = print_words c @ print_in i @ print_out ofl @ [term_char t]"
| "print_line i (c # cs) ofl t = print_words c @ print_in i @ CHR ''|'' # print_line None cs ofl t"

text \<open>The local variables that should come out of it.\<close>

definition loc_of :: "string list \<Rightarrow> string option \<Rightarrow> (bool \<times> string) option \<Rightarrow> cmdloc \<Rightarrow> bool" where
  "loc_of args i ofl l \<longleftrightarrow> cl_argv l = args
     \<and> (case i of None \<Rightarrow> cl_srcfd l = STDIN_FILENO \<and> cl_srcfile l = zeroed MAXFNAME
        | Some f \<Rightarrow> cl_srcfd l = - 1 \<and> cstr (cl_srcfile l) = Some f)
     \<and> (case ofl of None \<Rightarrow> cl_dstfd l = STDOUT_FILENO \<and> cl_dstfile l = zeroed MAXFNAME \<and> cl_append l = None
        | Some (app, f) \<Rightarrow> cl_dstfd l = - 1 \<and> cstr (cl_dstfile l) = Some f \<and> cl_append l = Some app)"

fun stages_of :: "string option \<Rightarrow> string list list \<Rightarrow> (bool \<times> string) option \<Rightarrow> TOKEN \<Rightarrow> stage list \<Rightarrow> bool" where
  "stages_of i [] ofl t st \<longleftrightarrow> False"
| "stages_of i [c] ofl t st \<longleftrightarrow> (\<exists>l. st = [(t, l)] \<and> loc_of c i ofl l)"
| "stages_of i (c # cs) ofl t st \<longleftrightarrow>
     (\<exists>l st'. st = (T_BAR, l) # st' \<and> loc_of c i None l \<and> stages_of None cs ofl t st')"

text \<open>Words that fit the arrays.\<close>

definition good_word :: "string \<Rightarrow> bool" where
  "good_word a \<longleftrightarrow> no_nul a \<and> length a < MAXWORD"

definition good_args :: "string list \<Rightarrow> bool" where
  "good_args args \<longleftrightarrow> length args < MAXARG \<and> (\<forall>a\<in>set args. good_word a)"

text \<open>
  The arguments that are kept when an allocation may fail: the word whose allocation fails is reported and left out.  The \<open>a\<close>-th allocation is
  the next one.
\<close>

fun kept :: "world \<Rightarrow> nat \<Rightarrow> string list \<Rightarrow> string list" where
  "kept w a [] = []"
| "kept w a (x # xs) = (if w_malloc w a then x # kept w (Suc a) xs else kept w (Suc a) xs)"

fun kept_all :: "world \<Rightarrow> nat \<Rightarrow> string list list \<Rightarrow> string list list" where
  "kept_all w a [] = []"
| "kept_all w a (c # cs) = kept w a c # kept_all w (a + length c) cs"

text \<open>The state after \<open>n\<close> words of which \<open>m\<close> were kept.\<close>

definition took :: "nat \<Rightarrow> nat \<Rightarrow> string \<Rightarrow> shell \<Rightarrow> shell" where
  "took n m rest s = s\<lparr>sh_allocs := sh_allocs s + n, sh_heap := sh_heap s + m,
     sh_trace := sh_trace s @ replicate (n - m) (Err (''Out of arg memory'' @ [NL])), sh_stdin := rest\<rparr>"

lemma kept_works: "\<forall>k. w_malloc w k \<Longrightarrow> kept w a xs = xs"
  by (induction w a xs rule: kept.induct) auto

lemma kept_all_works: "\<forall>k. w_malloc w k \<Longrightarrow> kept_all w a cs = cs"
  by (induction w a cs rule: kept_all.induct) (auto simp: kept_works)

lemma length_kept: "length (kept w a xs) \<le> length xs"
  by (induction w a xs rule: kept.induct) auto

lemma set_kept: "set (kept w a xs) \<subseteq> set xs"
  by (induction w a xs rule: kept.induct) auto

lemma length_kept_all [simp]: "length (kept_all w a cs) = length cs"
  by (induction w a cs rule: kept_all.induct) auto

lemma length_concat_kept: "length (concat (kept_all w a cs)) \<le> length (concat cs)"
  by (induction w a cs rule: kept_all.induct) (auto intro: add_mono length_kept)

lemma kept_all_nth: "c \<in> set (kept_all w a cs) \<Longrightarrow> \<exists>d\<in>set cs. length c \<le> length d \<and> set c \<subseteq> set d"
  by (induction w a cs rule: kept_all.induct) (auto 4 4 intro: length_kept dest: set_kept [THEN subsetD])

lemma took_simps [simp]:
  "sh_stdin (took n m r s) = r" "sh_allocs (took n m r s) = sh_allocs s + n" "sh_heap (took n m r s) = sh_heap s + m"
  "sh_fds (took n m r s) = sh_fds s" "sh_forks (took n m r s) = sh_forks s" "sh_pipes (took n m r s) = sh_pipes s"
  "sh_sigs (took n m r s) = sh_sigs s" "sh_env (took n m r s) = sh_env s" "sh_kids (took n m r s) = sh_kids s"
  "sh_ferror (took n m r s) = sh_ferror s" "sh_unreaped (took n m r s) = sh_unreaped s" "sh_waits (took n m r s) = sh_waits s"
  "sh_reaped (took n m r s) = sh_reaped s" "sh_stray (took n m r s) = sh_stray s"
  "(took n m r s)\<lparr>sh_stdin := r'\<rparr> = took n m r' s"
  by (simp_all add: took_def)

lemma took_none: "took 0 0 r s = s\<lparr>sh_stdin := r\<rparr>"
  by (simp add: took_def)

lemma took_all: "took n n r s = s\<lparr>sh_allocs := sh_allocs s + n, sh_heap := sh_heap s + n, sh_stdin := r\<rparr>"
  by (simp add: took_def)

lemma took_took: "m \<le> n \<Longrightarrow> m' \<le> n' \<Longrightarrow> took n' m' r' (took n m r s) = took (n + n') (m + m') r' s"
  by (simp add: took_def replicate_add [symmetric] add.assoc)

section \<open>Reading it back\<close>

lemma takeWhile_no_nul: "no_nul a \<Longrightarrow> takeWhile (\<lambda>c. c \<noteq> NUL) a = a"
  by (auto simp: no_nul_def takeWhile_eq_all_conv)

lemma next_token_word:
  assumes "lex (sh_stdin s) = LWord a r" and "good_word a" and "length word = 500"
  shows "next_token word s = (T_WORD, fill word (a @ [NUL]), s\<lparr>sh_stdin := r\<rparr>)"
    and "cstr (fill word (a @ [NUL])) = Some a"
  using assms by (simp_all add: next_token_cases overflow_msgs_def good_word_def MAXWORD_def
      cstr_fill takeWhile_no_nul)

lemma next_token_op:
  "lex (sh_stdin s) = LTok t r \<Longrightarrow> next_token word s = (t, word, s\<lparr>sh_stdin := r\<rparr>)"
  by (simp add: next_token_cases)

lemma cmd_step_word:
  assumes "lex (sh_stdin s) = LWord a r" and "good_word a" and "length (cl_argv l) < MAXARG - 1"
    and "length (cl_word l) = MAXWORD"
  shows "cmd_step w mp l s =
     Again (l\<lparr>cl_word := fill (cl_word l) (a @ [NUL]), cl_argv := cl_argv l @ kept w (sh_allocs s) [a]\<rparr>)
       (took 1 (length (kept w (sh_allocs s) [a])) r s)"
  using assms next_token_word [OF assms(1,2), of "cl_word l"]
  by (cases s) (simp add: cmd_step_def add_word_def MAXWORD_def Let_def took_def err_def)

lemma parse_words:
  assumes "length (cl_argv l) + length args < MAXARG"
    and "\<forall>a\<in>set args. good_word a" and "length (cl_word l) = MAXWORD"
    and "sh_stdin s = print_words args @ rest"
  shows "\<exists>wd. length wd = MAXWORD \<and> parse_line w mp l s =
     parse_line w mp (l\<lparr>cl_word := wd, cl_argv := cl_argv l @ kept w (sh_allocs s) args\<rparr>)
       (took (length args) (length (kept w (sh_allocs s) args)) rest s)"
  using assms
proof (induction args arbitrary: l s)
  case Nil
  then have "s\<lparr>sh_stdin := rest\<rparr> = s" by (cases s) (simp add: print_words_def)
  with Nil show ?case by (intro exI [of _ "cl_word l"]) (simp add: took_none)
next
  case (Cons a args)
  let ?k = "kept w (sh_allocs s) [a]"
  let ?l = "l\<lparr>cl_word := fill (cl_word l) (a @ [NUL]), cl_argv := cl_argv l @ ?k\<rparr>"
  let ?s = "took 1 (length ?k) (print_words args @ rest) s"
  have "lex (sh_stdin s) = LWord a (print_words args @ rest)"
    using Cons.prems(4) lex_quoted [of a "print_words args @ rest"] by (simp add: print_words_def)
  then have "cmd_step w mp l s = Again ?l ?s"
    using Cons.prems by (intro cmd_step_word) auto
  then have "parse_line w mp l s = parse_line w mp ?l ?s"
    by (simp add: parse_line.simps [of w mp l s])
  moreover have "length (cl_argv ?l) + length args < MAXARG"
    using Cons.prems(1) length_kept [of w "sh_allocs s" "[a]"] by simp
  then obtain wd where "length wd = MAXWORD"
    "parse_line w mp ?l ?s = parse_line w mp (?l\<lparr>cl_word := wd, cl_argv := cl_argv ?l @ kept w (sh_allocs ?s) args\<rparr>)
       (took (length args) (length (kept w (sh_allocs ?s) args)) rest ?s)"
    using Cons.IH [of ?l ?s] Cons.prems by (auto simp del: kept.simps)
  moreover have "took (length args) (length (kept w (sh_allocs ?s) args)) rest ?s
      = took (length (a # args)) (length (kept w (sh_allocs s) (a # args))) rest s"
    using length_kept [of w "Suc (sh_allocs s)" args] by (subst took_took) auto
  ultimately show ?case by (intro exI [of _ wd]) simp
qed

definition with_in :: "string option \<Rightarrow> cmdloc \<Rightarrow> cmdloc" where
  "with_in i l = (case i of None \<Rightarrow> l
     | Some f \<Rightarrow> l\<lparr>cl_srcfile := fill (cl_srcfile l) (f @ [NUL]), cl_srcfd := - 1\<rparr>)"

definition with_out :: "(bool \<times> string) option \<Rightarrow> cmdloc \<Rightarrow> cmdloc" where
  "with_out ofl l = (case ofl of None \<Rightarrow> l
     | Some (app, f) \<Rightarrow> l\<lparr>cl_dstfile := fill (cl_dstfile l) (f @ [NUL]), cl_dstfd := - 1,
                            cl_append := Some app\<rparr>)"

lemma stdin_id: "sh_stdin s = r \<Longrightarrow> s\<lparr>sh_stdin := r\<rparr> = s"
  by (cases s) simp

lemma parse_in:
  assumes "sh_stdin s = print_in i @ rest" and "\<forall>f. i = Some f \<longrightarrow> good_word f \<and> \<not> mp"
    and "length (cl_srcfile l) = MAXFNAME"
  shows "parse_line w mp l s = parse_line w mp (with_in i l) (s\<lparr>sh_stdin := rest\<rparr>)"
proof (cases i)
  case None
  with assms(1) show ?thesis by (simp add: with_in_def print_in_def stdin_id)
next
  case (Some f)
  have op: "lex (sh_stdin s) = LTok T_LT (quote f @ rest)"
    using assms(1) Some by (simp add: print_in_def)
  have "next_token (cl_srcfile l) (s\<lparr>sh_stdin := quote f @ rest\<rparr>) =
      (T_WORD, fill (cl_srcfile l) (f @ [NUL]), s\<lparr>sh_stdin := rest\<rparr>)"
    using next_token_word(1) [of "s\<lparr>sh_stdin := quote f @ rest\<rparr>" f rest "cl_srcfile l"]
      assms(2,3) Some lex_quoted by (simp add: MAXFNAME_def)
  with next_token_op [OF op, of "cl_word l"] assms(2) Some
  have "cmd_step w mp l s = Again (with_in i l) (s\<lparr>sh_stdin := rest\<rparr>)"
    by (simp add: cmd_step_def in_redirection_def with_in_def)
  then show ?thesis by (simp add: parse_line.simps [of w mp l s])
qed

lemma parse_out:
  assumes "sh_stdin s = print_out ofl @ rest" and "\<forall>app f. ofl = Some (app, f) \<longrightarrow> good_word f"
    and "length (cl_dstfile l) = MAXFNAME" and "cl_dstfd l = STDOUT_FILENO"
  shows "parse_line w mp l s = parse_line w mp (with_out ofl l) (s\<lparr>sh_stdin := rest\<rparr>)"
proof (cases ofl)
  case None
  with assms(1) show ?thesis by (simp add: with_out_def print_out_def stdin_id)
next
  case (Some p)
  obtain app f where p: "p = (app, f)" by fastforce
  let ?t = "if app then T_GTGT else T_GT" and ?s = "s\<lparr>sh_stdin := SPC # quote f @ rest\<rparr>"
  have op: "lex (sh_stdin s) = LTok ?t (SPC # quote f @ rest)"
    using assms(1) Some p by (simp add: print_out_def lex_gt_def)
  have "lex (sh_stdin ?s) = LWord f rest" by (simp add: lex_quoted)
  then have "next_token (cl_dstfile l) ?s =
      (T_WORD, fill (cl_dstfile l) (f @ [NUL]), s\<lparr>sh_stdin := rest\<rparr>)"
    using next_token_word(1) [of ?s f rest "cl_dstfile l"] assms(2,3) Some p
    by (simp add: MAXFNAME_def)
  with next_token_op [OF op, of "cl_word l"] assms(4) Some p
  have "cmd_step w mp l s = Again (with_out ofl l) (s\<lparr>sh_stdin := rest\<rparr>)"
    by (cases app) (simp_all add: cmd_step_def out_redirection_def with_out_def)
  then show ?thesis by (simp add: parse_line.simps [of w mp l s])
qed

lemma cstr_good:
  "good_word f \<Longrightarrow> length b = MAXFNAME \<Longrightarrow> cstr (fill b (f @ [NUL])) = Some f"
  by (simp add: cstr_fill good_word_def MAXFNAME_def MAXWORD_def takeWhile_no_nul)

lemma loc_of_init:
  assumes "length wd = MAXWORD" and "\<forall>f. i = Some f \<longrightarrow> good_word f"
    and "\<forall>app f. ofl = Some (app, f) \<longrightarrow> good_word f"
  shows "loc_of args i ofl (with_out ofl (with_in i (init_loc\<lparr>cl_word := wd, cl_argv := args\<rparr>)))"
  using assms
  by (auto simp: loc_of_def with_in_def with_out_def init_loc_def cstr_good split: option.splits)

text \<open>One command up to the token that ends it.\<close>

lemma parse_command:
  assumes "good_args args" and "\<forall>f. i = Some f \<longrightarrow> good_word f \<and> \<not> mp"
    and "\<forall>app f. ofl = Some (app, f) \<longrightarrow> good_word f"
    and "sh_stdin s = print_words args @ print_in i @ print_out ofl @ rest"
  shows "\<exists>l. loc_of (kept w (sh_allocs s) args) i ofl l \<and> parse_line w mp init_loc s =
     parse_line w mp l (took (length args) (length (kept w (sh_allocs s) args)) rest s)"
proof -
  let ?k = "kept w (sh_allocs s) args"
  let ?s = "\<lambda>r. took (length args) (length ?k) r s"
  obtain wd where wd: "length wd = MAXWORD"
    "parse_line w mp init_loc s = parse_line w mp (init_loc\<lparr>cl_word := wd, cl_argv := ?k\<rparr>) (?s (print_in i @ print_out ofl @ rest))"
    using parse_words [OF _ _ _ assms(4), of init_loc w mp] assms(1)
    by (auto simp: good_args_def init_loc_def)
  let ?l = "init_loc\<lparr>cl_word := wd, cl_argv := ?k\<rparr>"
  note wd(2)
  also have "parse_line w mp ?l (?s (print_in i @ print_out ofl @ rest)) = parse_line w mp (with_in i ?l) (?s (print_out ofl @ rest))"
    using parse_in [of "?s (print_in i @ print_out ofl @ rest)" i "print_out ofl @ rest" mp ?l w] assms(2) by (auto simp: init_loc_def)
  also have "\<dots> = parse_line w mp (with_out ofl (with_in i ?l)) (?s rest)"
    using parse_out [of "?s (print_out ofl @ rest)" ofl rest "with_in i ?l" w mp] assms(3)
    by (auto simp: init_loc_def with_in_def split: option.splits)
  finally show ?thesis
    using loc_of_init [OF wd(1), of i ofl ?k] assms(2,3) by auto
qed

lemma parse_term:
  assumes "t \<in> terminators" and "sh_stdin s = term_char t # rest"
  shows "parse_line w mp l s = Inr ([(t, l)], s\<lparr>sh_stdin := rest\<rparr>)"
proof -
  have "lex (sh_stdin s) = LTok t rest"
    using assms by (auto simp: terminators_def term_char_def)
  moreover have "l\<lparr>cl_word := cl_word l\<rparr> = l" by (cases l) simp
  ultimately show ?thesis
    using next_token_op [of s t rest "cl_word l"] assms(1)
    by (auto simp: parse_line.simps [of w mp l s] cmd_step_def terminators_def)
qed

lemma parse_print_line_stages:
  assumes "cs \<noteq> []" and "\<forall>c\<in>set cs. good_args c"
    and "\<forall>f. i = Some f \<longrightarrow> good_word f \<and> \<not> mp" and "\<forall>app f. ofl = Some (app, f) \<longrightarrow> good_word f"
    and "t \<in> terminators" and "sh_stdin s = print_line i cs ofl t @ rest"
  shows "\<exists>st. parse_line w mp init_loc s =
       Inr (st, took (length (concat cs)) (length (concat (kept_all w (sh_allocs s) cs))) rest s)
     \<and> stages_of i (kept_all w (sh_allocs s) cs) ofl t st"
  using assms
proof (induction i cs ofl t arbitrary: mp s rule: print_line.induct)
  case (2 i c ofl t')
  then have inp: "sh_stdin s = print_words c @ print_in i @ print_out ofl @ term_char t' # rest"
    by simp
  let ?s = "took (length c) (length (kept w (sh_allocs s) c)) (term_char t' # rest) s"
  obtain l where l: "loc_of (kept w (sh_allocs s) c) i ofl l" "parse_line w mp init_loc s = parse_line w mp l ?s"
    using parse_command [OF _ _ _ inp, of mp w] "2.prems" by auto
  with parse_term [OF "2.prems"(5), of ?s rest w mp l] show ?case by auto
next
  case (3 i c c2 cs ofl t')
  let ?r = "print_line None (c2 # cs) ofl t' @ rest" and ?k = "kept w (sh_allocs s) c"
  let ?s = "took (length c) (length ?k) ?r s"
  have inp: "sh_stdin s = print_words c @ print_in i @ print_out None @ CHR ''|'' # ?r"
    using "3.prems"(6) by (simp add: print_out_def)
  obtain l where l: "loc_of ?k i None l" "parse_line w mp init_loc s =
      parse_line w mp l (took (length c) (length ?k) (CHR ''|'' # ?r) s)"
    using parse_command [OF _ _ _ inp, of mp w] "3.prems"(2,3) by auto
  have "cmd_step w mp l (took (length c) (length ?k) (CHR ''|'' # ?r) s) = Pipe l ?s"
    using l(1) next_token_op [of "took (length c) (length ?k) (CHR ''|'' # ?r) s" T_BAR ?r "cl_word l"]
    by (simp add: cmd_step_def loc_of_def)
  moreover obtain st where "parse_line w True init_loc ?s =
       Inr (st, took (length (concat (c2 # cs))) (length (concat (kept_all w (sh_allocs ?s) (c2 # cs)))) rest ?s)"
     "stages_of None (kept_all w (sh_allocs ?s) (c2 # cs)) ofl t' st"
    using "3.IH" [of True ?s] "3.prems" by auto
  moreover have "took (length (concat (c2 # cs))) (length (concat (kept_all w (sh_allocs ?s) (c2 # cs)))) rest ?s
      = took (length (concat (c # c2 # cs))) (length (concat (kept_all w (sh_allocs s) (c # c2 # cs)))) rest s"
    using length_kept [of w "sh_allocs s" c] length_concat_kept [of w "sh_allocs s + length c" "c2 # cs"] by (subst took_took) auto
  ultimately show ?case
    using l by (simp add: parse_line.simps [of w mp l])
qed simp

section \<open>Running it\<close>

definition line_source :: "world \<Rightarrow> nat \<Rightarrow> bool \<Rightarrow> string option \<Rightarrow> ofile" where
  "line_source w k bg i =
     (case (if i = None \<and> bg then Some ''/dev/null'' else i) of
        None \<Rightarrow> Std 0
      | Some f \<Rightarrow> if f \<noteq> [] \<and> w_open w k f then RdFile f else Std 0)"

definition line_sink :: "world \<Rightarrow> nat \<Rightarrow> (bool \<times> string) option \<Rightarrow> ofile" where
  "line_sink w k ofl =
     (case ofl of None \<Rightarrow> Std 1
      | Some (app, f) \<Rightarrow> if f \<noteq> [] \<and> w_open w k f then WrFile f app else Std 1)"

text \<open>The children the line asks for, in the order the shell starts them.\<close>

fun line_children ::
  "world \<Rightarrow> bool \<Rightarrow> sigtab \<Rightarrow> nat \<Rightarrow> nat \<Rightarrow> string option \<Rightarrow> bool \<Rightarrow> string list list
    \<Rightarrow> (bool \<times> string) option \<Rightarrow> child list" where
  "line_children w bg sigs k p i piped [] ofl = []"
| "line_children w bg sigs k p i piped (c # cs) ofl =
     line_children w bg sigs k p None True cs ofl @
     [stage_child w (k + length cs) sigs bg
        (if piped then PipeR (p + length cs) else line_source w (k + length cs) bg i)
        (if cs = [] then line_sink w (k + length cs) ofl else PipeW (p + length cs - 1)) c]"

lemma stages_of_nonempty: "stages_of i cs ofl t st \<Longrightarrow> st \<noteq> []"
  by (induction i cs ofl t st rule: stages_of.induct) auto

lemma loc_of_argv: "loc_of c i ofl l \<Longrightarrow> cl_argv l = c"
  by (simp add: loc_of_def)

lemma stage_in_loc: "loc_of c i ofl l \<Longrightarrow> stage_in w k bg l = line_source w k bg i"
  by (auto simp: stage_in_def in_file_def line_source_def loc_of_def split: option.splits)

lemma stage_out_loc: "loc_of c i ofl l \<Longrightarrow> stage_out w k l = line_sink w k ofl"
  by (auto simp: stage_out_def line_sink_def loc_of_def split: option.splits)

lemma children_of_stages:
  "stages_of i cs ofl t st \<Longrightarrow>
   pipeline_children w mp bg sigs k p (map snd st) = line_children w bg sigs k p i mp cs ofl
   \<and> length st = length cs"
proof (induction i cs ofl t st arbitrary: mp rule: stages_of.induct)
  case (2 i c ofl t st)
  then show ?case by (auto simp: stage_in_loc stage_out_loc loc_of_argv)
next
  case (3 i c c2 cs ofl t st)
  then obtain l st' where st: "st = (T_BAR, l) # st'" "loc_of c i None l"
    "stages_of None (c2 # cs) ofl t st'" by auto
  from st(3) have "st' \<noteq> []" by (rule stages_of_nonempty)
  with st "3.IH" [OF st(3), of True] show ?case
    by (simp add: stage_in_loc loc_of_argv)
qed simp

definition runs_program :: "string list \<Rightarrow> bool" where
  "runs_program c \<longleftrightarrow> c \<noteq> [] \<and> \<not> is_builtin (hd c)"

lemma runnable_loc: "loc_of c i ofl l \<Longrightarrow> runs_program c \<Longrightarrow> runnable l"
  by (auto simp: runnable_def runs_program_def loc_of_def split: option.splits)

text \<open>The commands of the line that are started although nothing assigned their \<open>append\<close>.\<close>

definition line_strays :: "string list list \<Rightarrow> (bool \<times> string) option \<Rightarrow> nat" where
  "line_strays cs ofl = length cs - (if ofl = None then 0 else 1)"

lemma stray_loc: "loc_of c i ofl l \<Longrightarrow> stray l = (if ofl = None then 1 else 0)"
  by (auto simp: loc_of_def stray_def split: option.splits)

lemma stages_of_strays: "stages_of i cs ofl t st \<Longrightarrow> stage_strays st = line_strays cs ofl"
proof (induction i cs ofl t st rule: stages_of.induct)
  case (2 i c ofl t st)
  then show ?case by (auto simp: stage_strays_def line_strays_def stray_loc)
next
  case (3 i c c2 cs ofl t st)
  then obtain l st' where st: "st = (T_BAR, l) # st'" "loc_of c i None l" "stages_of None (c2 # cs) ofl t st'" by auto
  with "3.IH" [OF st(3)] show ?case by (simp add: stage_strays_def line_strays_def stray_loc)
qed simp

lemma stages_of_facts:
  "stages_of i cs ofl t st \<Longrightarrow> \<forall>c\<in>set cs. runs_program c \<Longrightarrow>
   (\<forall>(tk, l)\<in>set st. runnable l) \<and> fst (last st) = t \<and> stage_count_args st = length (concat cs)"
proof (induction i cs ofl t st rule: stages_of.induct)
  case (2 i c ofl t st)
  then show ?case
    by (auto simp: stage_count_args_def loc_of_argv dest: runnable_loc)
next
  case (3 i c c2 cs ofl t st)
  then obtain l st' where st: "st = (T_BAR, l) # st'" "loc_of c i None l"
    "stages_of None (c2 # cs) ofl t st'" by auto
  from st(3) have "st' \<noteq> []" by (rule stages_of_nonempty)
  with st "3.IH" [OF st(3)] "3.prems"(2) show ?case
    by (simp add: stage_count_args_def loc_of_argv runnable_loc)
qed simp

definition after_line ::
  "world \<Rightarrow> string option \<Rightarrow> string list list \<Rightarrow> (bool \<times> string) option \<Rightarrow> TOKEN \<Rightarrow> string \<Rightarrow> shell \<Rightarrow> shell" where
  "after_line w i cs ofl t rest s =
     (let n = length cs; pids = map (fork_result w) [sh_forks s..<sh_forks s + n]
      in s\<lparr>sh_stdin := rest, sh_allocs := sh_allocs s + length (concat cs),
           sh_forks := sh_forks s + n, sh_pipes := sh_pipes s + (n - 1),
           sh_kids := sh_kids s @
             line_children w (t = T_AMP) (sh_sigs s) (sh_forks s) (sh_pipes s) i False cs ofl,
           sh_unreaped := sh_unreaped s @ pids,
           sh_stray := sh_stray s + line_strays cs ofl,
           sh_trace := sh_trace s @ concat (map (announce (t = T_AMP)) pids)\<rparr>)"

lemma command_print_line:
  assumes "\<forall>k. w_malloc w k" and "\<forall>k. w_fork w k \<noteq> None" and "6 \<le> w_nofile w"
    and "cs \<noteq> []" and "\<forall>c\<in>set cs. good_args c \<and> runs_program c"
    and "\<forall>f. i = Some f \<longrightarrow> good_word f" and "\<forall>app f. ofl = Some (app, f) \<longrightarrow> good_word f"
    and "t \<in> terminators" and "sh_stdin s = print_line i cs ofl t @ rest" and "sh_fds s = std_fds"
  shows "command w False init_loc s =
     (Done t (fork_result w (sh_forks s)) (- 1), after_line w i cs ofl t rest s)"
proof -
  let ?s = "s\<lparr>sh_allocs := sh_allocs s + length (concat cs), sh_heap := sh_heap s + length (concat cs),
              sh_stdin := rest\<rparr>"
  obtain st where st: "parse_line w False init_loc s = Inr (st, ?s)" "stages_of i cs ofl t st"
    using parse_print_line_stages [OF assms(4) _ _ assms(7,8,9), of False w] assms(5,6)
    by (auto simp: took_all kept_all_works [OF assms(1)])
  have wf: "wf_stages False st" using parse_line_wf [OF _ st(1)] by simp
  note f = stages_of_facts [OF st(2)]
  have "command w False init_loc s = run_stages w False st ?s"
    by (simp add: command_two_phases st(1))
  also have "\<dots> = (Done (fst (last st)) (fork_result w (sh_forks ?s)) (- 1), after_pipeline w False st ?s)"
    using run_stages_wiring [OF wf _ assms(3), of ?s] f assms(2,5,10) by auto
  also have "\<dots> = (Done t (fork_result w (sh_forks s)) (- 1), after_line w i cs ofl t rest s)"
    using f assms(5,10) children_of_stages [OF st(2)] stages_of_strays [OF st(2)]
    by (cases s) (simp add: after_pipeline_def after_line_def Let_def waiting_table_def)
  finally show ?thesis .
qed

end
