(* ===== verification/ShellRun.thy ===== *)
theory ShellRun
  imports ShellSyntax
begin

text \<open>
  What holds of every run of the shell, whatever its input and whatever the environment
  answers: the effect of waiting, that \<open>command\<close> leaves the processes it reports to be waited
  for (so the loop of \<open>start_shell\<close> never hangs), that the arguments it allocates are freed,
  and that no behaviour is undefined as long as every word fits its array (\<open>words_fit\<close>).
\<close>

section \<open>Waiting\<close>

definition waited :: "shell \<Rightarrow> shell \<Rightarrow> bool" where
  "waited s t \<longleftrightarrow>
     sh_stdin t = sh_stdin s \<and> sh_ferror t = sh_ferror s \<and> sh_fds t = sh_fds s \<and> sh_env t = sh_env s
     \<and> sh_sigs t = sh_sigs s \<and> sh_forks t = sh_forks s \<and> sh_pipes t = sh_pipes s
     \<and> sh_allocs t = sh_allocs s \<and> sh_heap t = sh_heap s \<and> sh_kids t = sh_kids s \<and> sh_stray t = sh_stray s"

lemma waitpid_any_effect:
  assumes "waitpid_any w s = Got ((p, st), t)"
  shows "waited s t" and "p \<in> set (sh_unreaped s)"
    and "set (sh_unreaped s) = insert p (set (sh_unreaped t))"
proof -
  from assms obtain j where j: "j < length (sh_unreaped s)" and p: "p = sh_unreaped s ! j"
    and t: "t = s\<lparr>sh_unreaped := remove_nth j (sh_unreaped s), sh_waits := Suc (sh_waits s), sh_reaped := sh_reaped s @ [(sh_forks s, p)]\<rparr>"
    by (rule waitpid_any_Got)
  show "waited s t" by (simp add: waited_def t)
  show "p \<in> set (sh_unreaped s)" using j p by simp
  show "set (sh_unreaped s) = insert p (set (sh_unreaped t))"
    using set_remove_nth [OF j] p t by simp
qed

lemma waited_out [simp]: "waited s (out m t) \<longleftrightarrow> waited s t"
  by (simp add: waited_def)

lemma waited_trans: "waited s t \<Longrightarrow> waited t u \<Longrightarrow> waited s u"
  by (simp add: waited_def)

lemma wait_and_display_effect: "wait_and_display w pid s = Got t \<Longrightarrow> waited s t"
proof (induction w pid s rule: wait_and_display.induct)
  case (1 w pid s)
  from "1.prems" obtain p st s1 where e: "waitpid_any w s = Got ((p, st), s1)"
    by (auto simp: wait_and_display.simps [of w pid s] split: waiting.splits)
  note w = waitpid_any_effect(1) [OF e]
  show ?case
  proof (cases "p = pid")
    case True
    with "1.prems" e w show ?thesis by (auto simp: wait_and_display.simps [of w pid s])
  next
    case False
    with "1.prems" e have "wait_and_display w pid (out (display_status p st) s1) = Got t"
      by (simp add: wait_and_display.simps [of w pid s])
    from "1.IH" [OF e refl refl refl False this]
    have "waited (out (display_status p st) s1) t" .
    with w show ?thesis by (simp add: waited_def)
  qed
qed

text \<open>It spins exactly when no child left to wait for has the pid, and waits for ever only for a child that never ends.\<close>

lemma wait_and_display_ends:
  "pid \<in> set (sh_unreaped s) \<Longrightarrow> case wait_and_display w pid s of
     Got t \<Rightarrow> True | No_child \<Rightarrow> False | Blocks \<Rightarrow> (\<exists>k. w_reap w k = None)"
proof (induction w pid s rule: wait_and_display.induct)
  case (1 w pid s)
  show ?case
  proof (cases "waitpid_any w s")
    case (Got x)
    obtain p st s1 where x: "x = ((p, st), s1)" by (metis prod.collapse)
    note e = waitpid_any_effect(3) [OF Got [unfolded x]]
    show ?thesis
    proof (cases "p = pid")
      case True
      with Got x show ?thesis by (simp add: wait_and_display.simps [of w pid s])
    next
      case False
      with e "1.prems" have "pid \<in> set (sh_unreaped (out (display_status p st) s1))" by simp
      from "1.IH" [OF Got [unfolded x] refl refl refl False this] Got x False show ?thesis
        by (simp add: wait_and_display.simps [of w pid s])
    qed
  qed (use "1.prems" in \<open>auto simp: wait_and_display.simps [of w pid s] waitpid_any_def Let_def split: if_splits option.splits prod.splits\<close>)
qed

lemma wait_and_display_spins: "pid \<notin> set (sh_unreaped s) \<Longrightarrow> wait_and_display w pid s \<noteq> Got t"
proof (induction w pid s rule: wait_and_display.induct)
  case (1 w pid s)
  show ?case
  proof (cases "waitpid_any w s")
    case (Got x)
    obtain p st s1 where x: "x = ((p, st), s1)" by (metis prod.collapse)
    note e = waitpid_any_effect(3) [OF Got [unfolded x]]
    with "1.prems" have p: "p \<noteq> pid" by auto
    with e "1.prems" have "pid \<notin> set (sh_unreaped (out (display_status p st) s1))" by simp
    from "1.IH" [OF Got [unfolded x] refl refl refl p this] Got x p show ?thesis
      by (simp add: wait_and_display.simps [of w pid s])
  qed (simp_all add: wait_and_display.simps [of w pid s])
qed

lemma wait_and_display_returns:
  assumes "children_end w"
  shows "(\<exists>t. wait_and_display w pid s = Got t) \<longleftrightarrow> pid \<in> set (sh_unreaped s)"
proof -
  have no: "(\<exists>k. w_reap w k = None) = False" using assms unfolding children_end_def by blast
  then show ?thesis
    using wait_and_display_ends [of pid s w, unfolded no] wait_and_display_spins [of pid s w] by (cases "wait_and_display w pid s") auto
qed

section \<open>What every command leaves behind\<close>

lemma run_stages_Done: "wf_stages mp st \<Longrightarrow> \<exists>tk p d t. run_stages w mp st s = (Done tk p d, t)"
proof (induction w mp st s rule: run_stages.induct)
  case (2 w mp token l s)
  then show ?case using cmd_finish_Done [of w mp token token 0 l s] by auto
next
  case (3 w mp token l s2 st s)
  then obtain tk p d t where "run_stages w True (s2 # st) s = (Done tk p d, t)" by auto
  then show ?case using cmd_finish_Done [of w mp T_BAR tk p "l\<lparr>cl_dstfd := d\<rparr>" t] by auto
qed simp

lemma command_cases:
  fixes w :: world and mp :: bool and s :: shell
  obtains (failed) r t where "command w mp init_loc s = (r, t)"
      "r \<in> {Exited 0, DoneError, UndefRes}" "reading s t"
  | (ran) st t where "parse_line w mp init_loc s = Inr (st, t)" "wf_stages mp st" "reading s t"
      "command w mp init_loc s = run_stages w mp st t"
proof (cases "parse_line w mp init_loc s")
  case (Inl x)
  obtain r t where x: "x = (r, t)" by fastforce
  show ?thesis
    using failed [of r t] parse_line_Inl [OF Inl [unfolded x]] parse_line_reading [where w = w and mp = mp and l = init_loc and s = s]
    by (simp add: Inl x command_two_phases)
next
  case (Inr x)
  obtain st t where x: "x = (st, t)" by fastforce
  show ?thesis
    using ran [of st t] parse_line_wf [OF _ Inr [unfolded x]] parse_line_reading [where w = w and mp = mp and l = init_loc and s = s]
    by (simp add: Inr x command_two_phases)
qed

text \<open>The processes: what \<open>invoke\<close> adds, and what the whole line adds.\<close>

lemma fork_result_pos: "fork_result w k \<noteq> - 1 \<Longrightarrow> 0 < fork_result w k"
  by (simp add: fork_result_def split: option.splits)

lemma invoke_unreaped:
  assumes "invoke w argv a b c d e f g s = (p, t)"
  shows "set (sh_unreaped s) \<subseteq> set (sh_unreaped t)"
    and "0 < p \<Longrightarrow> p \<in> set (sh_unreaped t)"
  using assms
  by (auto simp: invoke_def Let_def same_resources_def
      dest!: builtin_resources builtin_False split: if_splits prod.splits bool.splits)

text \<open>The end of a command is an \<open>invoke\<close> between the making of a pipe and messages.\<close>

lemma cmd_finish_parts:
  assumes "cmd_finish w mp tk tm wp l s = (r, t)"
  obtains src d fds n pid s2 ms where
    "invoke w (cl_argv l) src (cl_srcfile l) (cl_dstfd l) (cl_dstfile l) (cl_append l) (tm = T_AMP) d
       (s\<lparr>sh_fds := fds, sh_pipes := n, sh_stray := sh_stray s + stray l\<rparr>) = (pid, s2)"
    "src = (if mp then src else cl_srcfd l)"
    "t = (errs ms s2)\<lparr>sh_heap := sh_heap s2 - length (cl_argv l)\<rparr>"
    "r = Done tm (if tk \<noteq> T_BAR then pid else wp) d"
proof -
  define x where "x = (if mp
         then case pipe_fd (w_nofile w) (sh_pipes s) (sh_fds s) of
                (None, t) \<Rightarrow> ((- 1, - 1), s\<lparr>sh_fds := t\<rparr>)
              | (Some p, t) \<Rightarrow> (p, s\<lparr>sh_fds := t, sh_pipes := Suc (sh_pipes s)\<rparr>)
         else ((- 1, - 1), s))"
  obtain r0 d s1 where x: "x = ((r0, d), s1)" by (metis prod.collapse)
  let ?s1 = "s1\<lparr>sh_stray := sh_stray s1 + stray l\<rparr>"
  have s1: "s\<lparr>sh_fds := sh_fds s1, sh_pipes := sh_pipes s1, sh_stray := sh_stray s + stray l\<rparr> = ?s1"
    using x by (cases s) (auto simp: x_def split: if_splits prod.splits option.splits)
  let ?src = "if mp then r0 else cl_srcfd l"
  obtain pid s2 where i: "invoke w (cl_argv l) ?src (cl_srcfile l) (cl_dstfd l) (cl_dstfile l)
      (cl_append l) (tm = T_AMP) d ?s1 = (pid, s2)" by fastforce
  let ?c = "cl_argv l = [] \<and> (tk \<noteq> T_NL \<or> ?src > 1)"
  define ms where "ms = (if ?c then [''Missing command'' @ [NL]] else [])"
  have m: "(if ?c then err (''Missing command'' @ [NL]) s2 else s2) = errs ms s2"
    by (simp add: ms_def errs_def err_def)
  have src: "(if mp then fst (r0, d) else cl_srcfd l) = ?src" by simp
  have "cmd_finish w mp tk tm wp l s =
      (Done tm (if tk \<noteq> T_BAR then pid else wp) d, (errs ms s2)\<lparr>sh_heap := sh_heap s2 - length (cl_argv l)\<rparr>)"
    unfolding cmd_finish_def x_def [symmetric]
    by (simp only: x Let_def prod.case src snd_conv i m shell_update_simps)
  then have e: "(r, t) = (Done tm (if tk \<noteq> T_BAR then pid else wp) d, (errs ms s2)\<lparr>sh_heap := sh_heap s2 - length (cl_argv l)\<rparr>)"
    using assms by simp
  show ?thesis
    by (rule that [where src = ?src and d = d and fds = "sh_fds s1" and n = "sh_pipes s1" and pid = pid and ?s2.0 = s2 and ms = ms]) (use e i in \<open>simp_all add: s1\<close>)
qed

lemma cmd_finish_unreaped:
  assumes "cmd_finish w mp tk tm wp l s = (Done tm' p d, t)"
  shows "set (sh_unreaped s) \<subseteq> set (sh_unreaped t)"
    and "tk \<noteq> T_BAR \<Longrightarrow> 0 < p \<Longrightarrow> p \<in> set (sh_unreaped t)"
    and "tk = T_BAR \<Longrightarrow> p = wp"
proof -
  obtain src e fds n pid s2 ms where f:
    "invoke w (cl_argv l) src (cl_srcfile l) (cl_dstfd l) (cl_dstfile l) (cl_append l) (tm = T_AMP) e
       (s\<lparr>sh_fds := fds, sh_pipes := n, sh_stray := sh_stray s + stray l\<rparr>) = (pid, s2)"
    "t = (errs ms s2)\<lparr>sh_heap := sh_heap s2 - length (cl_argv l)\<rparr>"
    "Done tm' p d = Done tm (if tk \<noteq> T_BAR then pid else wp) e"
    by (rule cmd_finish_parts [OF assms]) blast
  note u = invoke_unreaped [OF f(1)]
  show "set (sh_unreaped s) \<subseteq> set (sh_unreaped t)" using u(1) f(2) by simp
  show "tk \<noteq> T_BAR \<Longrightarrow> 0 < p \<Longrightarrow> p \<in> set (sh_unreaped t)" using u(2) f(2,3) by simp
  show "tk = T_BAR \<Longrightarrow> p = wp" using f(3) by simp
qed

lemma run_stages_unreaped:
  "wf_stages mp st \<Longrightarrow> run_stages w mp st s = (Done tm p d, t) \<Longrightarrow> 0 < p \<Longrightarrow> p \<in> set (sh_unreaped t)"
proof (induction w mp st s arbitrary: tm p d t rule: run_stages.induct)
  case (2 w mp token l s)
  then show ?case by (auto simp: terminators_def dest!: cmd_finish_unreaped(2))
next
  case (3 w mp token l s2 st s)
  then obtain tk p' d' t' where r: "run_stages w True (s2 # st) s = (Done tk p' d', t')"
    using run_stages_Done [of True "s2 # st" w s] by auto
  with "3.prems" have f: "cmd_finish w mp T_BAR tk p' (l\<lparr>cl_dstfd := d'\<rparr>) t' = (Done tm p d, t)"
    by simp
  have "p' = p" using cmd_finish_unreaped(3) [OF f] by simp
  with "3.IH" [OF _ r] "3.prems" have "p \<in> set (sh_unreaped t')" by simp
  with cmd_finish_unreaped(1) [OF f] show ?case by auto
qed simp

lemma command_pid:
  assumes "command w mp init_loc s = (Done tm p d, t)" and "0 < p"
  shows "p \<in> set (sh_unreaped t)"
  using assms run_stages_unreaped
  by (cases rule: command_cases [of w mp s]) auto

section \<open>The shell's loop never hangs\<close>

lemma command_Exited: "command w mp init_loc s = (Exited n, t) \<Longrightarrow> n = 0"
proof -
  assume c: "command w mp init_loc s = (Exited n, t)"
  show "n = 0"
  proof (cases rule: command_cases [of w mp s])
    case (ran st u)
    with c run_stages_Done [of mp st w u] show ?thesis by auto
  qed (use c in auto)
qed

text \<open>Why the loop can end, and that it waits for ever only for a child that never ends.\<close>

definition ends_well :: "world \<Rightarrow> shell_end \<Rightarrow> bool" where
  "ends_well w r \<longleftrightarrow> r \<in> {Returned (- 1), Exit 0, Exit 1, Undefined} \<or> r = Blocked \<and> (\<exists>k. w_reap w k = None)"

lemma shell_loop_returns: "ends_well w (fst (shell_loop w tm s))"
proof (induction w tm s rule: shell_loop.induct)
  case (1 w tm s)
  let ?s = "if tm = T_NL then out [PROMPT] s else s"
  obtain r s1 where c: "command w False init_loc ?s = (r, s1)" by fastforce
  show ?case
  proof (cases r)
    case (Done tm' pid d)
    note c' = c [unfolded Done]
    let ?wait = "if tm' \<noteq> T_AMP \<and> 0 < pid then wait_and_display w pid s1 else Got s1"
    have e: "case ?wait of Got t \<Rightarrow> True | No_child \<Rightarrow> False | Blocks \<Rightarrow> (\<exists>k. w_reap w k = None)"
      using command_pid [OF c'] wait_and_display_ends [of pid s1 w] by simp
    show ?thesis
    proof (cases ?wait)
      case (Got s2)
      obtain ok ms where f: "fd_check (sh_fds s2) = (ok, ms)" by fastforce
      show ?thesis
      proof (cases ok)
        case True
        have "ends_well w (fst (shell_loop w tm' s2))"
          using "1.IH" [OF c [symmetric] Done Got f [symmetric]] True by simp
        with c' Got f True show ?thesis by (simp add: shell_loop.simps [of w tm s])
      next
        case False
        with c' Got f show ?thesis by (simp add: shell_loop.simps [of w tm s] ends_well_def)
      qed
    qed (use e c' in \<open>simp_all add: shell_loop.simps [of w tm s] ends_well_def\<close>)
  next
    case (Exited n)
    with c command_Exited show ?thesis by (auto simp: shell_loop.simps [of w tm s] ends_well_def)
  qed (simp_all add: shell_loop.simps [of w tm s] c ends_well_def)
qed

section \<open>The arguments are freed\<close>

text \<open>\<open>sh_heap\<close> counts the argument strings that are allocated.\<close>

definition step_heap :: "cmdloc \<Rightarrow> shell \<Rightarrow> shell step \<Rightarrow> bool" where
  "step_heap l s x \<longleftrightarrow> (case x of
       Again l' s' \<Rightarrow> sh_heap s' + length (cl_argv l) = sh_heap s + length (cl_argv l')
     | Pipe l' s' \<Rightarrow> sh_heap s' + length (cl_argv l) = sh_heap s + length (cl_argv l')
     | Finish t l' s' \<Rightarrow> sh_heap s' + length (cl_argv l) = sh_heap s + length (cl_argv l')
     | _ \<Rightarrow> True)"

lemma next_token_heap: "next_token word s = (t, wd, s1) \<Longrightarrow> sh_heap s1 = sh_heap s"
  by (auto simp: next_token_cases split: lexeme.splits if_splits)

lemma add_word_heap: "step_heap l s (add_word w l s)"
  by (auto simp: add_word_def step_heap_def Let_def split: option.splits)

lemma redirection_heap: "step_heap l s (in_redirection mp l s)" "step_heap l s (out_redirection tk l s)"
  by (auto simp: in_redirection_def out_redirection_def step_heap_def Let_def
      dest: next_token_heap split: prod.splits)

lemma cmd_step_heap: "step_heap l s (cmd_step w mp l s)"
proof -
  obtain t wd s1 where n: "next_token (cl_word l) s = (t, wd, s1)" by (cases "next_token (cl_word l) s")
  have c: "step_heap l s x \<longleftrightarrow> step_heap (l\<lparr>cl_word := wd\<rparr>) s1 x" for x
    using next_token_heap [OF n] by (cases x) (simp_all add: step_heap_def)
  show ?thesis
    using next_token_heap [OF n]
    by (cases t) (simp_all add: cmd_step_def n c add_word_heap redirection_heap Let_def, simp_all add: step_heap_def)
qed

lemma parse_line_heap:
  "parse_line w mp l s = Inr (st, t) \<Longrightarrow>
     sh_heap t + length (cl_argv l) = sh_heap s + stage_count_args st"
proof (induction w mp l s arbitrary: st t rule: parse_line.induct)
  case (1 w mp l s)
  note h = cmd_step_heap [of l s w mp]
  show ?case
  proof (cases "cmd_step w mp l s")
    case (Pipe l' s')
    with "1.prems" obtain st' where st': "parse_line w True init_loc s' = Inr (st', t)" "st = (T_BAR, l') # st'"
      by (auto simp: parse_line.simps [of w mp l s] split: sum.splits prod.splits)
    with "1.IH"(2) [OF Pipe st'(1)] h Pipe show ?thesis
      by (simp add: step_heap_def stage_count_args_def init_loc_def)
  qed (use "1.prems" "1.IH" h in
      \<open>force simp: parse_line.simps [of w mp l s] step_heap_def stage_count_args_def\<close>)+
qed

lemma invoke_heap: "invoke w argv a b c d e f g s = (p, t) \<Longrightarrow> sh_heap t = sh_heap s"
  by (auto simp: invoke_def Let_def same_resources_def
      dest!: builtin_resources builtin_False split: if_splits prod.splits bool.splits)

lemma cmd_finish_heap:
  assumes "cmd_finish w mp tk tm wp l s = (r, t)"
  shows "sh_heap t = sh_heap s - length (cl_argv l)"
  by (rule cmd_finish_parts [OF assms]) (auto dest: invoke_heap)

lemma run_stages_heap:
  "wf_stages mp st \<Longrightarrow> run_stages w mp st s = (r, t) \<Longrightarrow> sh_heap t = sh_heap s - stage_count_args st"
proof (induction w mp st s arbitrary: r t rule: run_stages.induct)
  case (2 w mp token l s)
  then show ?case by (auto simp: stage_count_args_def dest: cmd_finish_heap)
next
  case (3 w mp token l s2 st s)
  then obtain tk p' d' t' where r: "run_stages w True (s2 # st) s = (Done tk p' d', t')"
    using run_stages_Done [of True "s2 # st" w s] by auto
  with "3.prems" have "cmd_finish w mp T_BAR tk p' (l\<lparr>cl_dstfd := d'\<rparr>) t' = (r, t)"
    by simp
  from cmd_finish_heap [OF this] "3.IH" [OF _ r] "3.prems" show ?case
    by (simp add: stage_count_args_def)
qed simp

lemma command_heap:
  assumes "command w mp init_loc s = (Done tm p d, t)"
  shows "sh_heap t = sh_heap s"
  using assms
proof (cases rule: command_cases [of w mp s])
  case (ran st u)
  with assms show ?thesis
    using parse_line_heap [OF ran(1)] run_stages_heap [of mp st w u "Done tm p d" t]
    by (simp add: init_loc_def)
qed auto

section \<open>Words that fit\<close>

text \<open>Every word the lexer finds in an input is shorter than the array it is read into.\<close>

function words_fit :: "string \<Rightarrow> bool" where
  "words_fit s \<longleftrightarrow> (case lex s of
       LWord v r \<Rightarrow> length v < MAXWORD \<and> words_fit r
     | LTok t r \<Rightarrow> words_fit r
     | LEnd v \<Rightarrow> True)"
  by pat_completeness auto
termination
  by (relation "measure length") (auto dest: lex_consumes)

declare words_fit.simps [simp del]

lemma words_fit_Nil [simp]: "words_fit []"
  by (simp add: words_fit.simps [of "[]"])

lemma words_fit_token:
  assumes "next_token word s = (t, wd, s1)" and "words_fit (sh_stdin s)"
  shows "words_fit (sh_stdin s1)"
    and "t = T_WORD \<Longrightarrow> length word = 500 \<Longrightarrow> cstr wd \<noteq> None"
  using assms words_fit.simps [of "sh_stdin s"] lex_consumes(2) [of "sh_stdin s"]
  by (auto simp: next_token_cases cstr_fill MAXWORD_def operators_def split: lexeme.splits if_splits)

text \<open>The arrays of a command hold C strings, whatever was read into them.\<close>

definition terminated :: "cmdloc \<Rightarrow> bool" where
  "terminated l \<longleftrightarrow> cstr (cl_srcfile l) \<noteq> None \<and> cstr (cl_dstfile l) \<noteq> None"

definition step_terminated :: "shell step \<Rightarrow> bool" where
  "step_terminated x \<longleftrightarrow> words_fit (sh_stdin (step_state x)) \<and> (case x of
       Again l s \<Rightarrow> terminated l \<or> sh_stdin s = []
     | Pipe l s \<Rightarrow> terminated l
     | Finish t l s \<Rightarrow> terminated l
     | Undef s \<Rightarrow> False
     | _ \<Rightarrow> True)"

lemma step_terminated_simps [simp]:
  "step_terminated (Again l s) \<longleftrightarrow> words_fit (sh_stdin s) \<and> (terminated l \<or> sh_stdin s = [])"
  "step_terminated (Pipe l s) \<longleftrightarrow> words_fit (sh_stdin s) \<and> terminated l"
  "step_terminated (Finish t l s) \<longleftrightarrow> words_fit (sh_stdin s) \<and> terminated l"
  "step_terminated (Eof s) \<longleftrightarrow> words_fit (sh_stdin s)"
  "step_terminated (Error s) \<longleftrightarrow> words_fit (sh_stdin s)"
  "step_terminated (Undef s) \<longleftrightarrow> False"
  by (simp_all add: step_terminated_def)

lemma add_word_terminated:
  "terminated l \<Longrightarrow> words_fit (sh_stdin s) \<Longrightarrow> cstr (cl_word l) \<noteq> None \<Longrightarrow>
   step_terminated (add_word w l s)"
  by (auto simp: add_word_def terminated_def Let_def)

lemma redirection_terminated:
  assumes "terminated l" "wf_loc mp l" "words_fit (sh_stdin s)"
  shows "step_terminated (in_redirection mp l s)" "step_terminated (out_redirection tk l s)"
  using assms words_fit_token [of "cl_srcfile l" s] words_fit_token [of "cl_dstfile l" s]
    next_token_unchanged [of "cl_srcfile l" s] next_token_unchanged [of "cl_dstfile l" s]
  by (auto simp: in_redirection_def out_redirection_def terminated_def Let_def wf_loc_def MAXFNAME_def
      split: prod.splits)

lemma cmd_step_terminated:
  assumes "terminated l" "wf_loc mp l" "words_fit (sh_stdin s)"
  shows "step_terminated (cmd_step w mp l s)"
proof -
  obtain t wd s1 where n: "next_token (cl_word l) s = (t, wd, s1)" by (cases "next_token (cl_word l) s")
  let ?l = "l\<lparr>cl_word := wd\<rparr>"
  have l: "terminated ?l" "wf_loc mp ?l"
    using assms(1,2) next_token_length [OF n] by (simp_all add: terminated_def wf_loc_def)
  note f = words_fit_token [OF n assms(3)]
  have wd: "t = T_WORD \<Longrightarrow> cstr wd \<noteq> None" using f(2) assms(2) by (simp add: wf_loc_def MAXWORD_def)
  show ?thesis
    using l f(1) wd redirection_terminated [OF l f(1)] add_word_terminated [OF l(1) f(1), of w]
    by (cases t) (simp_all add: cmd_step_def n Let_def)
qed

lemma terminated_init [simp]: "terminated init_loc"
  by (simp add: terminated_def init_loc_def)

lemma parse_line_terminated:
  assumes "terminated l \<and> wf_loc mp l \<or> sh_stdin s = []" and "words_fit (sh_stdin s)"
  shows "case parse_line w mp l s of
     Inl (r, t) \<Rightarrow> r \<noteq> UndefRes \<and> words_fit (sh_stdin t)
   | Inr (st, t) \<Rightarrow> (\<forall>(tk, l)\<in>set st. terminated l) \<and> words_fit (sh_stdin t)"
  using assms
proof (induction w mp l s rule: parse_line.induct)
  case (1 w mp l s)
  show ?case
  proof (cases "sh_stdin s = []")
    case True
    then show ?thesis
      using cmd_step_empty [of s w mp l] cmd_step_end [of w mp l s]
      by (auto simp: parse_line.simps [of w mp l s])
  next
    case False
    with "1.prems" have t: "step_terminated (cmd_step w mp l s)" and wf: "step_wf mp (cmd_step w mp l s)"
      by (simp_all add: cmd_step_terminated cmd_step_wf)
    show ?thesis
    proof (cases "cmd_step w mp l s")
      case (Again l' s')
      with "1.IH"(1) [OF Again] t wf show ?thesis
        by (auto simp: parse_line.simps [of w mp l s] step_wf_def)
    next
      case (Pipe l' s')
      have "terminated init_loc \<and> wf_loc True init_loc \<or> sh_stdin s' = []" by simp
      from "1.IH"(2) [OF Pipe this] t Pipe show ?thesis
        by (auto simp: parse_line.simps [of w mp l s] split: sum.splits)
    qed (use t in \<open>simp_all add: parse_line.simps [of w mp l s]\<close>)
  qed
qed

section \<open>No undefined behaviour\<close>

definition kids_defined :: "shell \<Rightarrow> bool" where
  "kids_defined s \<longleftrightarrow> (\<forall>c\<in>set (sh_kids s). ch_end c \<noteq> UndefChild)"

lemma open_named_defined:
  "cstr b \<noteq> None \<Longrightarrow> (\<And>p. cstr b = Some p \<Longrightarrow> p \<noteq> [] \<Longrightarrow> mk p \<noteq> None) \<Longrightarrow> open_named w k b mk fd t \<noteq> None"
  by (auto simp: open_named_def nonempty_cstr split: option.splits bool.splits prod.splits)

lemma redirect_defined:
  assumes "cstr srcfile \<noteq> None" and "cstr dstfile \<noteq> None" and "cstr dstfile = Some [] \<or> app \<noteq> None"
  shows "redirect w k srcfd srcfile dstfd dstfile app bg t \<noteq> RedirUndef"
proof -
  have "redirect_in w k srcfd srcfile bg t \<noteq> None"
    using open_named_defined [of srcfile "\<lambda>p. Some (RdFile p)"] assms(1)
      open_named_defined [of "lit ''/dev/null''" "\<lambda>p. Some (RdFile p)"]
    by (simp add: redirect_in_def devnull_no_nul)
  moreover have "redirect_out w k dstfd dstfile app u \<noteq> None" for u
    using open_named_defined [of dstfile "\<lambda>p. map_option (WrFile p) app"] assms(2,3)
    by (auto simp: redirect_out_def)
  ultimately show ?thesis
    by (auto simp: redirect_halves split: option.splits bind_splits)
qed

lemma invoke_defined:
  assumes "invoke w argv a b c d e f g s = (p, t)" and "kids_defined s"
    and "cstr b \<noteq> None" and "cstr d \<noteq> None" and "cstr d = Some [] \<or> e \<noteq> None"
  shows "kids_defined t"
proof -
  have c: "ch_end (child_run w k pid argv a b c d e f g u sg) \<noteq> UndefChild" for k pid u sg
    using redirect_defined [OF assms(3-5)] by (auto simp: child_run_def Let_def split: redir.splits)
  show ?thesis
    using assms(1,2) c
    by (auto simp: invoke_def Let_def same_resources_def kids_defined_def
        dest!: builtin_resources builtin_False split: if_splits prod.splits bool.splits)
qed

lemma cmd_finish_defined:
  assumes "cmd_finish w mp tk tm wp l s = (r, t)" and "kids_defined s" and "terminated l"
    and "cl_dstfile l = zeroed MAXFNAME \<or> cl_append l \<noteq> None"
  shows "kids_defined t"
  by (rule cmd_finish_parts [OF assms(1)])
     (use assms(2-4) in \<open>auto simp: terminated_def kids_defined_def dest!: invoke_defined\<close>)

lemma run_stages_defined:
  "wf_stages mp st \<Longrightarrow> \<forall>(tk, l)\<in>set st. terminated l \<Longrightarrow> kids_defined s \<Longrightarrow>
   run_stages w mp st s = (r, t) \<Longrightarrow> kids_defined t \<and> r \<noteq> UndefRes"
proof (induction w mp st s arbitrary: r t rule: run_stages.induct)
  case (2 w mp token l s)
  have "cl_dstfile l = zeroed MAXFNAME \<or> cl_append l \<noteq> None"
    using "2.prems"(1) by (auto simp: wf_loc_def)
  with 2 cmd_finish_defined [of w mp token token 0 l s r t] cmd_finish_Done [of w mp token token 0 l s]
  show ?case by auto
next
  case (3 w mp token l s2 st s)
  then obtain tk p' d' t' where r: "run_stages w True (s2 # st) s = (Done tk p' d', t')"
    using run_stages_Done [of True "s2 # st" w s] by auto
  with "3.prems" have f: "cmd_finish w mp T_BAR tk p' (l\<lparr>cl_dstfd := d'\<rparr>) t' = (r, t)"
    by simp
  have z: "cl_dstfile (l\<lparr>cl_dstfd := d'\<rparr>) = zeroed MAXFNAME \<or> cl_append (l\<lparr>cl_dstfd := d'\<rparr>) \<noteq> None"
    using "3.prems"(1) by (auto simp: wf_loc_def)
  have "kids_defined t'" using "3.IH" [OF _ _ _ r] "3.prems" by simp
  with cmd_finish_defined [OF f _ _ z] "3.prems"(2) have "kids_defined t"
    by (simp add: terminated_def)
  moreover have "r \<noteq> UndefRes"
    using f cmd_finish_Done [of w mp T_BAR tk p' "l\<lparr>cl_dstfd := d'\<rparr>" t'] by auto
  ultimately show ?case ..
qed simp

lemma invoke_sigs: "invoke w argv a b c d e f g s = (p, t) \<Longrightarrow> sh_sigs t = sh_sigs s"
  by (auto simp: invoke_def Let_def same_resources_def
      dest!: builtin_resources builtin_False split: if_splits prod.splits bool.splits)

lemma run_stages_stdin: "run_stages w mp st s = (r, t) \<Longrightarrow> sh_stdin t = sh_stdin s"
proof (induction w mp st s arbitrary: r t rule: run_stages.induct)
  case (3 w mp token l s2 st s)
  obtain r' t' where r: "run_stages w True (s2 # st) s = (r', t')" by fastforce
  with "3.IH" [OF r] "3.prems" show ?case
    by (auto split: cmdres.splits dest: cmd_finish_stdin)
qed (auto dest: cmd_finish_stdin)

lemma command_defined:
  assumes "words_fit (sh_stdin s)" and "kids_defined s" and "command w mp init_loc s = (r, t)"
  shows "r \<noteq> UndefRes" and "kids_defined t" and "words_fit (sh_stdin t)"
proof -
  have "terminated init_loc \<and> wf_loc mp init_loc \<or> sh_stdin s = []" by simp
  note p = parse_line_terminated [OF this assms(1), of w]
  have "r \<noteq> UndefRes \<and> kids_defined t \<and> words_fit (sh_stdin t)"
  proof (cases "parse_line w mp init_loc s")
    case (Inl x)
    with p assms(2,3) parse_line_reading [where w = w and mp = mp and l = init_loc and s = s]
    show ?thesis by (auto simp: command_two_phases kids_defined_def reading_def)
  next
    case (Inr x)
    obtain st u where x: "x = (st, u)" by fastforce
    with Inr p parse_line_reading [where w = w and mp = mp and l = init_loc and s = s] assms(2)
    have "kids_defined u" "\<forall>(tk, l)\<in>set st. terminated l" "words_fit (sh_stdin u)"
      by (simp_all add: kids_defined_def reading_def)
    moreover have "wf_stages mp st" using parse_line_wf [OF _ Inr [unfolded x]] by simp
    moreover have "run_stages w mp st u = (r, t)"
      using assms(3) Inr x by (simp add: command_two_phases)
    ultimately show ?thesis
      using run_stages_defined run_stages_stdin by auto
  qed
  then show "r \<noteq> UndefRes" "kids_defined t" "words_fit (sh_stdin t)" by auto
qed

lemma shell_loop_defined:
  assumes "words_fit (sh_stdin s)" and "kids_defined s" and "shell_loop w tm s = (r, t)"
  shows "r \<noteq> Undefined \<and> kids_defined t"
  using assms
proof (induction w tm s arbitrary: r t rule: shell_loop.induct)
  case (1 w tm s)
  let ?s = "if tm = T_NL then out [PROMPT] s else s"
  obtain r1 s1 where c: "command w False init_loc ?s = (r1, s1)" by fastforce
  have "words_fit (sh_stdin ?s)" "kids_defined ?s" using "1.prems"(1,2) by (simp_all add: kids_defined_def)
  note d = command_defined [OF this c]
  show ?case
  proof (cases r1)
    case (Done tm' pid d)
    let ?wait = "if tm' \<noteq> T_AMP \<and> 0 < pid then wait_and_display w pid s1 else Got s1"
    show ?thesis
    proof (cases ?wait)
      case (Got s2)
      have w: "waited s1 s2"
        using Got wait_and_display_effect by (auto split: if_splits simp: waited_def)
      then have k: "words_fit (sh_stdin s2)" "kids_defined s2"
        using d by (simp_all add: waited_def kids_defined_def)
      obtain ok ms where f: "fd_check (sh_fds s2) = (ok, ms)" by fastforce
      show ?thesis
      proof (cases ok)
        case True
        with "1.prems"(3) have "shell_loop w tm' s2 = (r, t)"
          by (simp add: shell_loop.simps [of w tm s] c Done Got f)
        with "1.IH" [OF c [symmetric] Done Got f [symmetric]] True k show ?thesis by simp
      next
        case False
        with "1.prems"(3) have "(r, t) = (Exit 1, errs ms s2)"
          by (simp add: shell_loop.simps [of w tm s] c Done Got f)
        with k show ?thesis by (simp add: kids_defined_def)
      qed
    qed (use c Done d "1.prems"(3) in \<open>simp_all add: shell_loop.simps [of w tm s]\<close>)
  qed (use "1.prems"(3) c d in \<open>auto simp: shell_loop.simps [of w tm s] kids_defined_def\<close>)
qed

end
