(* ===== verification/ShellSpec.thy ===== *)
theory ShellSpec
  imports ShellRun "HOL-Library.Sublist"
begin

text \<open>
  What \<open>main\<close> does with any script of lines that can be written, whatever the environment answers: a specification that knows nothing of
  descriptors, arrays and the recursion of \<open>command\<close> (\<open>spec_script\<close>), and that \<open>main\<close> refines it (\<open>main_spec\<close>).  A
  pipeline in which a command starts no process leaves a descriptor open that ends the shell.
\<close>

type_synonym line = "string option \<times> string list list \<times> (bool \<times> string) option \<times> TOKEN"

section \<open>The end of the input\<close>

lemma command_at_end:
  assumes "sh_stdin s = []"
  shows "command w mp l s =
     (if sh_ferror s then (Exited 0, s) else (DoneError, err stdin_error_msg s))"
proof -
  have "s\<lparr>sh_stdin := []\<rparr> = s" using assms by (cases s) simp
  with assms show ?thesis
    by (simp add: command.simps [of w mp l s] cmd_step_def next_token_cases overflow_msgs_def
        errs_def err_def)
qed

lemma shell_loop_at_end:
  assumes "sh_stdin s = []" and "\<not> sh_ferror s"
  shows "shell_loop w tm s =
     (Returned (- 1), errs [stdin_error_msg, ''Bad command'' @ [NL]] (if tm = T_NL then out [PROMPT] s else s))"
  using assms by (simp add: shell_loop.simps [of w tm s] command_at_end errs_def err_def)

text \<open>Only an end of the input makes a line fail, and what is said of it comes last.\<close>

lemma next_token_failed:
  assumes "next_token wd s = (t, wd', s')"
  shows "t = T_ERROR \<Longrightarrow> sh_stdin s' = [] \<and> suffix [Err stdin_error_msg] (sh_trace s')" and "t = T_EOF \<Longrightarrow> sh_ferror s"
  using assms lex_consumes(2) [of "sh_stdin s"]
  by (auto simp: next_token_cases operators_def suffix_def split: lexeme.splits if_splits)

lemma add_word_goes_on: "add_word w l s \<noteq> Error t" "add_word w l s \<noteq> Eof t"
  by (auto simp: add_word_def Let_def split: option.splits)

lemma redirection_goes_on:
  "in_redirection mp l s \<noteq> Error t" "in_redirection mp l s \<noteq> Eof t" "out_redirection tk l s \<noteq> Error t" "out_redirection tk l s \<noteq> Eof t"
  by (auto simp: in_redirection_def out_redirection_def Let_def split: prod.splits)

lemma cmd_step_failed:
  "cmd_step w mp l s = Error t \<Longrightarrow> sh_stdin t = [] \<and> suffix [Err stdin_error_msg] (sh_trace t)"
  "cmd_step w mp l s = Eof t \<Longrightarrow> sh_ferror s"
proof -
  obtain tk wd s1 where n: "next_token (cl_word l) s = (tk, wd, s1)" by (cases "next_token (cl_word l) s")
  note f = next_token_failed [OF n]
  show "cmd_step w mp l s = Error t \<Longrightarrow> sh_stdin t = [] \<and> suffix [Err stdin_error_msg] (sh_trace t)"
    using f by (cases tk) (simp_all add: cmd_step_def n Let_def add_word_goes_on redirection_goes_on split: if_splits)
  show "cmd_step w mp l s = Eof t \<Longrightarrow> sh_ferror s"
    using f by (cases tk) (simp_all add: cmd_step_def n Let_def add_word_goes_on redirection_goes_on split: if_splits)
qed

lemma parse_line_failed:
  "parse_line w mp l s = Inl (r, t) \<Longrightarrow> \<not> sh_ferror s \<Longrightarrow>
     r \<noteq> Exited 0 \<and> (r = DoneError \<longrightarrow> sh_stdin t = [] \<and> suffix [Err stdin_error_msg] (sh_trace t))"
proof (induction w mp l s arbitrary: r t rule: parse_line.induct)
  case (1 w mp l s)
  note f = cmd_step_failed [of w mp l s]
  have "reading s (step_state (cmd_step w mp l s))" by (rule cmd_step_reading)
  then have "\<not> sh_ferror (step_state (cmd_step w mp l s))" using "1.prems"(2) by (simp add: reading_def)
  note nf = this
  show ?case
  proof (cases "cmd_step w mp l s")
    case (Again l' s')
    with "1.IH"(1) [OF Again] "1.prems"(1) nf show ?thesis by (simp add: parse_line.simps [of w mp l s])
  next
    case (Pipe l' s')
    with "1.IH"(2) [OF Pipe] "1.prems"(1) nf show ?thesis
      by (simp add: parse_line.simps [of w mp l s] split: sum.splits prod.splits)
  next
    case (Error s')
    with f(1) "1.prems"(1) show ?thesis by (simp add: parse_line.simps [of w mp l s])
  next
    case (Eof s')
    with f(2) "1.prems"(2) show ?thesis by simp
  qed (use "1.prems"(1) in \<open>simp_all add: parse_line.simps [of w mp l s]\<close>)
qed

lemma invoke_ferror: "invoke w argv a b c d e f g s = (p, t) \<Longrightarrow> sh_ferror t = sh_ferror s"
  by (auto simp: invoke_def Let_def same_resources_def
      dest!: builtin_resources builtin_False split: if_splits prod.splits bool.splits)

lemma cmd_finish_ferror: "cmd_finish w mp tk tm wp l s = (r, t) \<Longrightarrow> sh_ferror t = sh_ferror s"
  by (rule cmd_finish_parts, assumption) (auto dest: invoke_ferror)

lemma run_stages_ferror: "run_stages w mp st s = (r, t) \<Longrightarrow> sh_ferror t = sh_ferror s"
proof (induction w mp st s arbitrary: r t rule: run_stages.induct)
  case (3 w mp token l s2 st s)
  obtain r' t' where r: "run_stages w True (s2 # st) s = (r', t')" by fastforce
  with "3.IH" [OF r] "3.prems" show ?case by (auto split: cmdres.splits dest: cmd_finish_ferror)
qed (auto dest: cmd_finish_ferror)

lemma command_failed:
  assumes "command w mp init_loc s = (r, t)" and "\<not> sh_ferror s"
  shows "\<not> sh_ferror t" and "r \<noteq> Exited n" and "r = DoneError \<Longrightarrow> sh_stdin t = [] \<and> suffix [Err stdin_error_msg] (sh_trace t)"
proof -
  note rd = parse_line_reading [where w = w and mp = mp and l = init_loc and s = s]
  have "\<not> sh_ferror t \<and> r \<noteq> Exited n \<and> (r = DoneError \<longrightarrow> sh_stdin t = [] \<and> suffix [Err stdin_error_msg] (sh_trace t))"
  proof (cases "parse_line w mp init_loc s")
    case (Inl x)
    with assms rd parse_line_failed [of w mp init_loc s r t] parse_line_Inl [of w mp init_loc s r t] show ?thesis
      by (auto simp: command_two_phases reading_def)
  next
    case (Inr x)
    obtain st u where x: "x = (st, u)" by fastforce
    have "wf_stages mp st" using parse_line_wf [OF _ Inr [unfolded x]] by simp
    from run_stages_Done [OF this, of w u] assms rd Inr x show ?thesis
      by (auto simp: command_two_phases reading_def dest: run_stages_ferror)
  qed
  then show "\<not> sh_ferror t" "r \<noteq> Exited n" "r = DoneError \<Longrightarrow> sh_stdin t = [] \<and> suffix [Err stdin_error_msg] (sh_trace t)" by auto
qed

lemma shell_loop_last_words:
  "\<not> sh_ferror s \<Longrightarrow> shell_loop w tm s = (r, t) \<Longrightarrow> r \<in> {Returned n, Exit 0} \<Longrightarrow>
     sh_stdin t = [] \<and> suffix [Err stdin_error_msg, Err (''Bad command'' @ [NL])] (sh_trace t)"
proof (induction w tm s arbitrary: r t rule: shell_loop.induct)
  case (1 w tm s)
  let ?s = "if tm = T_NL then out [PROMPT] s else s"
  obtain r1 s1 where c: "command w False init_loc ?s = (r1, s1)" by fastforce
  have "\<not> sh_ferror ?s" using "1.prems"(1) by simp
  note f = command_failed [OF c this]
  show ?case
  proof (cases r1)
    case (Done tm' pid d)
    let ?wait = "if tm' \<noteq> T_AMP \<and> 0 < pid then wait_and_display w pid s1 else Got s1"
    show ?thesis
    proof (cases ?wait)
      case (Got s2)
      then have "\<not> sh_ferror s2"
        using f(1) wait_and_display_effect [of w pid s1 s2] by (auto simp: waited_def split: if_splits)
      obtain ok ms where k: "fd_check (sh_fds s2) = (ok, ms)" by fastforce
      show ?thesis
      proof (cases ok)
        case True
        with "1.prems"(2) have "shell_loop w tm' s2 = (r, t)" by (simp add: shell_loop.simps [of w tm s] c Done Got k)
        with "1.IH" [OF c [symmetric] Done Got k [symmetric]] True \<open>\<not> sh_ferror s2\<close> "1.prems"(3) show ?thesis by simp
      qed (use "1.prems"(2,3) in \<open>auto simp: shell_loop.simps [of w tm s] c Done Got k\<close>)
    qed (use "1.prems"(2,3) c Done in \<open>auto simp: shell_loop.simps [of w tm s]\<close>)
  next
    case DoneError
    with f(3) "1.prems"(2) c show ?thesis by (auto simp: shell_loop.simps [of w tm s] suffix_def)
  next
    case (Exited m)
    with f(2) [of m] show ?thesis by simp
  qed (use "1.prems"(2,3) c in \<open>auto simp: shell_loop.simps [of w tm s]\<close>)
qed

section \<open>A turn of the shell's loop\<close>

lemma shell_turn:
  assumes ce: "children_end w" and c: "command w False init_loc (if tm = T_NL then out [PROMPT] s else s) = (Done t pid d, s1)"
  shows "\<exists>s2. (if t \<noteq> T_AMP \<and> 0 < pid then wait_and_display w pid s1 else Got s1) = Got s2 \<and> waited s1 s2
    \<and> shell_loop w tm s = (if fst (fd_check (sh_fds s1)) then shell_loop w t s2 else (Exit 1, errs (snd (fd_check (sh_fds s1))) s2))"
proof -
  have "0 < pid \<Longrightarrow> pid \<in> set (sh_unreaped s1)" using command_pid [OF c] .
  then obtain s2 where s2: "(if t \<noteq> T_AMP \<and> 0 < pid then wait_and_display w pid s1 else Got s1) = Got s2"
    using wait_and_display_returns [OF ce, of pid s1] by fastforce
  then have w: "waited s1 s2" using wait_and_display_effect by (auto split: if_splits simp: waited_def)
  obtain ok ms where "fd_check (sh_fds s1) = (ok, ms)" by fastforce
  with c s2 w show ?thesis by (intro exI [of _ s2]) (auto simp: shell_loop.simps [of w tm s] waited_def)
qed

section \<open>A pipeline with a command that starts no process\<close>

text \<open>Every command of the line, from right to left, is a program and gets its process; the first \<open>fork\<close> is the \<open>k\<close>-th.\<close>

fun starts :: "world \<Rightarrow> nat \<Rightarrow> string list list \<Rightarrow> bool" where
  "starts w k [] \<longleftrightarrow> True"
| "starts w k (c # cs) \<longleftrightarrow> starts w k cs \<and> runs_program c \<and> w_fork w (k + length cs) \<noteq> None"

text \<open>A descriptor that the next check will find, other than the one that is going to be closed.\<close>

definition leaks :: "fd \<Rightarrow> fdtable \<Rightarrow> bool" where
  "leaks d t \<longleftrightarrow> (\<exists>f. 3 \<le> f \<and> f < 20 \<and> f \<noteq> d \<and> t f \<noteq> None)"

lemma leaks_check: "leaks d t \<Longrightarrow> \<not> fst (fd_check t)"
  unfolding leaks_def fd_check_ok by auto

lemma invoke_keeps_fd:
  assumes "invoke w argv src sf dst df app bg cl s = (p, t)" and "f \<noteq> src" and "f \<noteq> dst"
  shows "sh_fds t f = sh_fds s f"
  using assms
  by (auto simp: invoke_def Let_def same_resources_def close_fd_apply dest!: builtin_resources builtin_False
      split: if_splits prod.splits bool.splits)

lemma pipe_fd_keeps:
  assumes "pipe_fd n k t = (r, t')" and "t f \<noteq> None"
  shows "t' f = t f \<and> (\<forall>a b. r = Some (a, b) \<longrightarrow> f \<noteq> a \<and> f \<noteq> b)"
  using assms by (fastforce simp: pipe_fd_def split: option.splits if_splits dest: lowest_free_SomeD(1))

lemma cmd_finish_fds:
  assumes "cmd_finish w mp tk tm wp l s = (Done tm' p d', t)"
  obtains src s1 pid u where
    "invoke w (cl_argv l) src (cl_srcfile l) (cl_dstfd l) (cl_dstfile l) (cl_append l) (tm = T_AMP) d' s1 = (pid, u)"
    "sh_fds t = sh_fds u" "sh_forks s1 = sh_forks s"
    "if mp then (case pipe_fd (w_nofile w) (sh_pipes s) (sh_fds s) of
        (None, t1) \<Rightarrow> src = - 1 \<and> d' = - 1 \<and> sh_fds s1 = t1 | (Some (a, b), t1) \<Rightarrow> src = a \<and> d' = b \<and> sh_fds s1 = t1)
      else src = cl_srcfd l \<and> d' = - 1 \<and> sh_fds s1 = sh_fds s"
proof -
  have fin: "cmd_finish w mp tk tm wp l s = (Done tm' p d', t)" by (rule assms)
  show ?thesis
  proof (cases mp)
    case False
    obtain pid u where i: "invoke w (cl_argv l) (cl_srcfd l) (cl_srcfile l) (cl_dstfd l) (cl_dstfile l) (cl_append l) (tm = T_AMP) (- 1)
        (s\<lparr>sh_stray := sh_stray s + stray l\<rparr>) = (pid, u)"
      by fastforce
    with fin False show ?thesis by (intro that [of "cl_srcfd l" "s\<lparr>sh_stray := sh_stray s + stray l\<rparr>" pid u]) (auto simp: cmd_finish_def Let_def)
  next
    case True
    obtain r t1 where p: "pipe_fd (w_nofile w) (sh_pipes s) (sh_fds s) = (r, t1)" by fastforce
    define a where "a = (case r of None \<Rightarrow> - 1 | Some p \<Rightarrow> fst p)"
    define b where "b = (case r of None \<Rightarrow> - 1 | Some p \<Rightarrow> snd p)"
    define s1 where "s1 = (case r of None \<Rightarrow> s\<lparr>sh_fds := t1, sh_stray := sh_stray s + stray l\<rparr>
      | Some p \<Rightarrow> s\<lparr>sh_fds := t1, sh_pipes := Suc (sh_pipes s), sh_stray := sh_stray s + stray l\<rparr>)"
    obtain pid u where i: "invoke w (cl_argv l) a (cl_srcfile l) (cl_dstfd l) (cl_dstfile l) (cl_append l) (tm = T_AMP) b s1 = (pid, u)"
      by fastforce
    then have "b = d'" "sh_fds t = sh_fds u"
      using fin True p by (auto simp: cmd_finish_def Let_def a_def b_def s1_def split: option.splits)
    with i p True show ?thesis
      by (intro that [of a s1 pid u]) (auto simp: a_def b_def s1_def split: option.splits)
  qed
qed

text \<open>Children are only added.\<close>

lemma cmd_finish_kids: "cmd_finish w mp tk tm wp l s = (r, t) \<Longrightarrow> prefix (sh_kids s) (sh_kids t)"
  by (rule cmd_finish_parts, assumption)
     (auto simp: invoke_def Let_def same_resources_def dest!: builtin_resources builtin_False split: if_splits prod.splits bool.splits)

lemma run_stages_kids: "run_stages w mp st s = (r, t) \<Longrightarrow> prefix (sh_kids s) (sh_kids t)"
proof (induction w mp st s arbitrary: r t rule: run_stages.induct)
  case (3 w mp token l s2 st s)
  obtain r' t' where r: "run_stages w True (s2 # st) s = (r', t')" by fastforce
  with "3.IH" [OF r] "3.prems" show ?case
    by (auto split: cmdres.splits dest: cmd_finish_kids intro: prefix_order.trans)
qed (auto dest: cmd_finish_kids)

lemma command_kids: "command w mp init_loc s = (r, t) \<Longrightarrow> prefix (sh_kids s) (sh_kids t)"
  by (cases rule: command_cases [of w mp s]) (fastforce simp: reading_def dest: run_stages_kids)+

text \<open>Once there is such a descriptor it stays, whatever becomes of the commands to the left.\<close>

lemma finish_leaks:
  assumes f: "cmd_finish w mp tk tm wp (l\<lparr>cl_dstfd := d\<rparr>) s = (Done tm' p d', t)" and k: "leaks d (sh_fds s)"
    and l: "\<not> mp \<Longrightarrow> cl_srcfd l < 3"
  shows "leaks d' (sh_fds t)"
proof -
  from k obtain h where h: "3 \<le> h" "h < 20" "h \<noteq> d" "sh_fds s h \<noteq> None" by (auto simp: leaks_def)
  let ?l = "l\<lparr>cl_dstfd := d\<rparr>"
  obtain src s1 pid u where
    i: "invoke w (cl_argv ?l) src (cl_srcfile ?l) (cl_dstfd ?l) (cl_dstfile ?l) (cl_append ?l) (tm = T_AMP) d' s1 = (pid, u)"
      "sh_fds t = sh_fds u" "sh_forks s1 = sh_forks s"
    and m: "if mp then (case pipe_fd (w_nofile w) (sh_pipes s) (sh_fds s) of
        (None, t1) \<Rightarrow> src = - 1 \<and> d' = - 1 \<and> sh_fds s1 = t1 | (Some (a, b), t1) \<Rightarrow> src = a \<and> d' = b \<and> sh_fds s1 = t1)
      else src = cl_srcfd ?l \<and> d' = - 1 \<and> sh_fds s1 = sh_fds s"
    by (rule cmd_finish_fds [OF f])
  obtain r t1 where p: "pipe_fd (w_nofile w) (sh_pipes s) (sh_fds s) = (r, t1)" by fastforce
  have "h \<noteq> src \<and> h \<noteq> d' \<and> sh_fds s1 h \<noteq> None"
    using m l h pipe_fd_keeps [OF p h(4)] p by (cases mp) (auto split: option.splits)
  moreover have "cl_dstfd ?l = d" by simp
  ultimately show ?thesis using invoke_keeps_fd [OF i(1), of h] i(2) h by (auto simp: leaks_def intro!: exI [of _ h])
qed

lemma invoke_nothing:
  assumes "argv = [] \<or> is_builtin (hd argv) \<or> w_fork w (sh_forks s) = None" and "invoke w argv a b c d e f g s = (p, t)"
  shows "p = 0 \<and> sh_fds t = sh_fds s"
  using assms builtin_iff [of w argv a c s]
  by (auto simp: invoke_def Let_def same_resources_def fork_result_def dest!: builtin_resources builtin_False
      split: prod.splits bool.splits if_splits)

text \<open>A command of a pipeline that starts no process leaves the ends of its pipes open.\<close>

lemma finish_starts_no_process:
  assumes x: "waiting_ok x" and fds: "sh_fds s = waiting_table x" and n: "6 \<le> w_nofile w"
    and l: "cl_argv l = [] \<or> is_builtin (hd (cl_argv l)) \<or> w_fork w (sh_forks s) = None"
    and mp: "mp \<or> x \<noteq> None"
    and f: "cmd_finish w mp tk tm wp (stage_loc x l) s = (Done tm' p d', t)"
  shows "leaks d' (sh_fds t)"
proof -
  let ?l = "stage_loc x l"
  have a: "cl_argv ?l = cl_argv l" by (simp add: stage_loc_def split: option.splits prod.splits)
  obtain src s1 pid u where
    i: "invoke w (cl_argv ?l) src (cl_srcfile ?l) (cl_dstfd ?l) (cl_dstfile ?l) (cl_append ?l) (tm = T_AMP) d' s1 = (pid, u)"
      "sh_fds t = sh_fds u" "sh_forks s1 = sh_forks s"
    and m: "if mp then (case pipe_fd (w_nofile w) (sh_pipes s) (sh_fds s) of
        (None, t1) \<Rightarrow> src = - 1 \<and> d' = - 1 \<and> sh_fds s1 = t1 | (Some (a, b), t1) \<Rightarrow> src = a \<and> d' = b \<and> sh_fds s1 = t1)
      else src = cl_srcfd ?l \<and> d' = - 1 \<and> sh_fds s1 = sh_fds s"
    by (rule cmd_finish_fds [OF f])
  have t: "sh_fds t = sh_fds s1" using invoke_nothing [OF _ i(1)] l i(2,3) a by simp
  show ?thesis
  proof (cases mp)
    case True
    with m have "d' = next_write_fd x" "sh_fds s1 3 \<noteq> None"
      using waiting_apply(6) [OF x] by (auto simp: fds pipe_fd_waiting [OF x n])
    with waiting_apply(6) [OF x] t show ?thesis by (auto simp: leaks_def intro!: exI [of _ 3])
  next
    case False
    with mp obtain d q where "x = Some (d, q)" by auto
    with m False t x show ?thesis
      by (auto simp: leaks_def fds waiting_table_def waiting_ok_def intro!: exI [of _ d])
  qed
qed

lemma run_stages_leaks:
  assumes "wf_stages mp st" and "\<forall>(t, l)\<in>set st. cstr (cl_srcfile l) \<noteq> None \<and> cstr (cl_dstfile l) \<noteq> None"
    and "6 \<le> w_nofile w" and "sh_fds s = std_fds" and "\<not> starts w (sh_forks s) (map (cl_argv \<circ> snd) st)" and "mp \<or> 1 < length st"
    and "run_stages w mp st s = (Done tm p d, t)"
  shows "leaks d (sh_fds t)"
  using assms
proof (induction w mp st s arbitrary: tm p d t rule: run_stages.induct)
  case (2 w mp token l s)
  have f: "cmd_finish w mp token token 0 (stage_loc None l) s = (Done tm p d, t)"
    using "2.prems"(7) by (simp add: stage_loc_def)
  show ?case
    by (rule finish_starts_no_process [OF _ _ "2.prems"(3) _ _ f])
       (use "2.prems" in \<open>auto simp: waiting_ok_def waiting_table_def runs_program_def\<close>)
next
  case (3 w mp token l s2 st s)
  let ?st = "s2 # st" and ?n = "length (s2 # st)"
  have wf: "wf_loc mp l" "cl_dstfd l = STDOUT_FILENO" "wf_stages True ?st" using "3.prems"(1) by auto
  obtain tk p1 d1 t1 where r: "run_stages w True ?st s = (Done tk p1 d1, t1)"
    using run_stages_Done [OF wf(3)] by blast
  have f: "cmd_finish w mp T_BAR tk p1 (l\<lparr>cl_dstfd := d1\<rparr>) t1 = (Done tm p d, t)"
    using "3.prems"(7) by (simp only: run_stages.simps r prod.case cmdres.case)
  show ?case
  proof (cases "starts w (sh_forks s) (map (cl_argv \<circ> snd) ?st)")
    case False
    have "leaks d1 (sh_fds t1)"
      by (rule "3.IH" [OF wf(3) _ "3.prems"(3,4) False _ r]) (use "3.prems"(2) in auto)
    then show ?thesis by (rule finish_leaks [OF f]) (use wf(1) in \<open>auto simp: wf_loc_def\<close>)
  next
    case True
    have run: "\<forall>(t, l)\<in>set st'. runnable l" "\<forall>i<length st'. w_fork w (k + i) \<noteq> None"
      if "starts w k (map (cl_argv \<circ> snd) st')" "\<forall>(t, l)\<in>set st'. cstr (cl_srcfile l) \<noteq> None \<and> cstr (cl_dstfile l) \<noteq> None"
      for st' :: "stage list" and k
      using that by (induction st') (auto simp: runs_program_def runnable_def less_Suc_eq)
    from run_stages_wiring [OF wf(3) run(1) "3.prems"(3) run(2) "3.prems"(4), OF True _ True] "3.prems"(2)
    have e: "run_stages w True ?st s = (Done (fst (last ?st)) (fork_result w (sh_forks s)) (left_fd ?n), after_pipeline w True ?st s)"
      by auto
    let ?x = "Some (left_fd ?n, sh_pipes s + ?n - 1)"
    have x: "waiting_ok ?x" by (simp add: waiting_ok_def left_fd_def)
    have t1: "d1 = left_fd ?n" "sh_fds t1 = waiting_table ?x" "sh_forks t1 = sh_forks s + ?n"
      using e r by (auto simp: after_pipeline_def Let_def)
    have f: "cmd_finish w mp T_BAR tk p1 (stage_loc ?x l) t1 = (Done tm p d, t)" using f t1(1) by (simp add: stage_loc_def)
    show ?thesis
      by (rule finish_starts_no_process [OF x t1(2) "3.prems"(3) _ _ f])
         (use "3.prems"(5) True t1(3) in \<open>auto simp: runs_program_def comp_def\<close>)
  qed
qed simp

section \<open>What a script asks for\<close>

text \<open>
  The shell as a user sees it: its environment, the children it has started, and how often it has asked for memory, processes and pipes, which
  is what the answers in \<open>world\<close> depend on.
\<close>

record sview =
  sv_env :: "(string \<times> string) list"
  sv_kids :: "child list"
  sv_allocs :: nat
  sv_forks :: nat
  sv_pipes :: nat

definition view :: "shell \<Rightarrow> sview" where
  "view s = \<lparr>sv_env = sh_env s, sv_kids = sh_kids s, sv_allocs = sh_allocs s, sv_forks = sh_forks s, sv_pipes = sh_pipes s\<rparr>"

text \<open>Only an assignment of one value to one name changes the environment.\<close>

definition builtin_env :: "string list \<Rightarrow> (string \<times> string) list \<Rightarrow> (string \<times> string) list" where
  "builtin_env c env =
     (if strchr (hd c) (CHR ''='') \<noteq> None \<and> length c = 1
      then case asg_parts (hd c) of (Some n, Some v) \<Rightarrow> AList.update n v env | _ \<Rightarrow> env
      else env)"

text \<open>A command alone on its line that starts no process.\<close>

definition spec_alone :: "string list \<Rightarrow> sview \<Rightarrow> sview" where
  "spec_alone c a =
     (if c = [] then a
      else if is_builtin (hd c) then a\<lparr>sv_env := builtin_env c (sv_env a)\<rparr>
      else a\<lparr>sv_forks := Suc (sv_forks a)\<rparr>)"

text \<open>
  A line: when every command starts its process, these are its children; a single command that does not start one has no
  other effect; and a pipeline with such a command is the end of the shell.  Words for which there is no memory are left out.
\<close>

definition spec_line :: "world \<Rightarrow> sigtab \<Rightarrow> line \<Rightarrow> sview \<Rightarrow> sview option" where
  "spec_line w sigs = (\<lambda>(i, cs, ofl, t) a.
     (let ds = kept_all w (sv_allocs a) cs; n = length cs; a1 = a\<lparr>sv_allocs := sv_allocs a + length (concat cs)\<rparr> in
      if starts w (sv_forks a) ds
      then Some (a1\<lparr>sv_forks := sv_forks a + n, sv_pipes := sv_pipes a + (n - 1),
          sv_kids := sv_kids a @ line_children w (t = T_AMP) sigs (sv_forks a) (sv_pipes a) i False ds ofl\<rparr>)
      else if n = 1 then Some (spec_alone (hd ds) a1)
      else None))"

text \<open>The whole script, with the lines left unread when the shell ends before.\<close>

fun spec_script :: "world \<Rightarrow> sigtab \<Rightarrow> line list \<Rightarrow> sview \<Rightarrow> sview \<times> line list option" where
  "spec_script w sigs [] a = (a, None)"
| "spec_script w sigs (x # ls) a =
     (case spec_line w sigs x a of Some a' \<Rightarrow> spec_script w sigs ls a' | None \<Rightarrow> (a, Some ls))"

text \<open>A line that can be written: at least one command, which may be empty, and words that fit the arrays.\<close>

definition legal_line :: "line \<Rightarrow> bool" where
  "legal_line = (\<lambda>(i, cs, ofl, t). cs \<noteq> [] \<and> (\<forall>c\<in>set cs. good_args c)
     \<and> (\<forall>f. i = Some f \<longrightarrow> good_word f) \<and> (\<forall>app f. ofl = Some (app, f) \<longrightarrow> good_word f) \<and> t \<in> terminators)"

section \<open>One line\<close>

lemma builtin_view:
  assumes "builtin w c a b s = (True, t)"
  shows "sh_env t = builtin_env c (sh_env s) \<and> same_resources s t"
proof -
  have "sh_env (fold (\<lambda>(n, v). out (n @ ''='' @ v @ [NL])) al u) = sh_env u" for al u
    by (induction al arbitrary: u) auto
  then have "sh_env (set_cmd c s) = sh_env s" by (simp add: set_cmd_def)
  moreover have "sh_env (asg c s) = (if length c = 1 then case asg_parts (hd c) of (Some n, Some v) \<Rightarrow> AList.update n v (sh_env s) | _ \<Rightarrow> sh_env s else sh_env s)"
    by (auto simp: asg_def setenv_def split: option.split prod.split)
  moreover have "sh_env (cd w c s) = sh_env s" by (auto simp: cd_def Let_def)
  ultimately show ?thesis
    using assms builtin_resources [OF assms] by (auto simp: builtin_def builtin_env_def Let_def split: if_splits)
qed

lemma finish_alone:
  assumes l: "loc_of c i ofl l" and n: "\<not> starts w (sh_forks s) [c]"
  shows "\<exists>u. cmd_finish w False tk tm wp l s = (Done tm (if tk \<noteq> T_BAR then 0 else wp) (- 1), u) \<and> view u = spec_alone c (view s)
     \<and> sh_fds u = sh_fds s \<and> sh_sigs u = sh_sigs s \<and> sh_ferror u = sh_ferror s \<and> sh_stdin u = sh_stdin s"
proof -
  let ?s = "s\<lparr>sh_stray := sh_stray s + stray l\<rparr>"
  let ?inv = "invoke w c (cl_srcfd l) (cl_srcfile l) (cl_dstfd l) (cl_dstfile l) (cl_append l) (tm = T_AMP) (- 1) ?s"
  obtain p u where i: "?inv = (p, u)" by fastforce
  have a: "cl_argv l = c" using l by (rule loc_of_argv)
  obtain b v where bv: "builtin w c (cl_srcfd l) (cl_dstfd l) ?s = (b, v)" by fastforce
  have u: "p = 0 \<and> view u = spec_alone c (view s) \<and> sh_fds u = sh_fds s \<and> sh_sigs u = sh_sigs s \<and> sh_ferror u = sh_ferror s \<and> sh_stdin u = sh_stdin s"
  proof (cases "c = [] \<or> is_builtin (hd c)")
    case True
    then show ?thesis
      using i bv builtin_iff [of w c "cl_srcfd l" "cl_dstfd l" ?s] builtin_view [of w c "cl_srcfd l" "cl_dstfd l" ?s v]
      by (auto simp: invoke_def view_def spec_alone_def same_resources_def)
  next
    case False
    then have "b = False" "v = ?s" "w_fork w (sh_forks s) = None"
      using n bv builtin_iff [of w c "cl_srcfd l" "cl_dstfd l" ?s] builtin_False [of w c "cl_srcfd l" "cl_dstfd l" ?s v]
      by (auto simp: runs_program_def)
    with i bv False show ?thesis by (auto simp: invoke_def view_def spec_alone_def fork_result_def Let_def)
  qed
  then show ?thesis using i a by (auto simp: cmd_finish_def view_def)
qed

lemma view_took: "view (took n m r s) = (view s)\<lparr>sv_allocs := sh_allocs s + n\<rparr>"
  by (simp add: view_def)

lemma stages_of_locs: "stages_of i cs ofl t st \<Longrightarrow> \<forall>(t, l)\<in>set st. cstr (cl_srcfile l) \<noteq> None \<and> cstr (cl_dstfile l) \<noteq> None"
  by (induction i cs ofl t st rule: stages_of.induct) (fastforce simp: loc_of_def split: option.splits)+

lemma run_stages_term: "wf_stages mp st \<Longrightarrow> run_stages w mp st s = (Done tk p d, u) \<Longrightarrow> tk = fst (last st)"
proof (induction w mp st s arbitrary: tk p d u rule: run_stages.induct)
  case (2 w mp token l s)
  then show ?case using cmd_finish_Done [of w mp token token 0 l s] by auto
next
  case (3 w mp token l s2 st s)
  then obtain tk' p' d' t' where r: "run_stages w True (s2 # st) s = (Done tk' p' d', t')"
    using run_stages_Done [of True "s2 # st" w s] by auto
  with "3.prems" "3.IH" [OF _ r] show ?case
    using cmd_finish_Done [of w mp T_BAR tk' p' "l\<lparr>cl_dstfd := d'\<rparr>" t'] by auto
qed simp

lemma stages_of_argvs: "stages_of i cs ofl t st \<Longrightarrow> map (cl_argv \<circ> snd) st = cs \<and> fst (last st) = t"
  by (induction i cs ofl t st rule: stages_of.induct) (use stages_of_nonempty in \<open>fastforce simp: loc_of_argv\<close>)+

lemma starts_facts: "starts w k cs \<Longrightarrow> (\<forall>c\<in>set cs. runs_program c) \<and> (\<forall>i<length cs. w_fork w (k + i) \<noteq> None)"
  by (induction cs) (auto simp: less_Suc_eq)

text \<open>What \<open>command\<close> does with the text of a line.\<close>

lemma command_legal_line:
  assumes x: "legal_line (i, cs, ofl, t)" and n: "6 \<le> w_nofile w" and fds: "sh_fds s = std_fds"
    and inp: "sh_stdin s = print_line i cs ofl t @ rest"
  shows "\<exists>p d u. command w False init_loc s = (Done t p d, u) \<and> sh_stdin u = rest
     \<and> (case spec_line w (sh_sigs s) (i, cs, ofl, t) (view s) of
          None \<Rightarrow> leaks d (sh_fds u)
        | Some a \<Rightarrow> view u = a \<and> sh_fds u = std_fds \<and> sh_sigs u = sh_sigs s \<and> sh_ferror u = sh_ferror s)"
proof -
  let ?ds = "kept_all w (sh_allocs s) cs"
  let ?s = "took (length (concat cs)) (length (concat ?ds)) rest s"
  have g: "cs \<noteq> []" "\<forall>c\<in>set cs. good_args c" "\<forall>f. i = Some f \<longrightarrow> good_word f" "\<forall>app f. ofl = Some (app, f) \<longrightarrow> good_word f" "t \<in> terminators"
    using x by (auto simp: legal_line_def)
  obtain st where st: "parse_line w False init_loc s = Inr (st, ?s)" "stages_of i ?ds ofl t st"
    using parse_print_line_stages [OF g(1,2) _ g(4,5) inp, of False w] g(3) by auto
  have wf: "wf_stages False st" using parse_line_wf [OF _ st(1)] by simp
  obtain tk p d u where r: "run_stages w False st ?s = (Done tk p d, u)" using run_stages_Done [OF wf] by blast
  note args = stages_of_argvs [OF st(2)]
  have len: "length st = length cs" using args by (metis length_kept_all length_map)
  have c: "command w False init_loc s = (Done tk p d, u)" using r by (simp add: command_two_phases st(1))
  have u0: "sh_stdin u = rest" using run_stages_stdin [OF r] by simp
  show ?thesis
  proof (cases "starts w (sh_forks s) ?ds")
    case True
    note S = starts_facts [OF True]
    note f = stages_of_facts [OF st(2) conjunct1 [OF S]]
    have "(Done tk p d, u) = (Done t (fork_result w (sh_forks s)) (- 1), after_pipeline w False st ?s)"
      using run_stages_wiring [OF wf _ n, of ?s] f S fds r len by auto
    with c u0 True fds f len children_of_stages [OF st(2), of w False "t = T_AMP" "sh_sigs s" "sh_forks s" "sh_pipes s"] show ?thesis
      by (auto simp: spec_line_def view_def after_pipeline_def Let_def waiting_table_def)
  next
    case False
    show ?thesis
    proof (cases "length cs = 1")
      case True
      then obtain a where "cs = [a]" by (auto simp: length_Suc_conv)
      then obtain l where l: "st = [(t, l)]" "loc_of (kept w (sh_allocs s) a) i ofl l" using st(2) by auto
      have "\<not> starts w (sh_forks ?s) [kept w (sh_allocs s) a]" using False \<open>cs = [a]\<close> by simp
      from finish_alone [OF l(2) this, of t t 0] r l(1) c u0 False fds \<open>cs = [a]\<close> show ?thesis
        by (auto simp: spec_line_def view_took view_def Let_def simp del: starts.simps)
    next
      case two: False
      then have "1 < length st" using len g(1) by (cases cs; cases "tl cs") auto
      then have "leaks d (sh_fds u)"
        using run_stages_leaks [OF wf stages_of_locs [OF st(2)] n _ _ _ r] False args fds by auto
      moreover have "tk = t"
        using run_stages_term [OF wf r] args by simp
      ultimately show ?thesis using c u0 False two by (auto simp: spec_line_def view_def Let_def)
    qed
  qed
qed

section \<open>The whole script\<close>

definition script_text :: "line list \<Rightarrow> string" where
  "script_text ls = concat (map (\<lambda>(i, cs, ofl, t). print_line i cs ofl t) ls)"

lemma script_text_Cons: "script_text ((i, cs, ofl, t) # ls) = print_line i cs ofl t @ script_text ls"
  by (simp add: script_text_def)

lemma view_waited: "waited s t \<Longrightarrow> view t = view s"
  by (simp add: waited_def view_def)

text \<open>The loop on the lines of a script, whatever follows them.\<close>

lemma shell_loop_spec:
  assumes "6 \<le> w_nofile w" and ce: "children_end w" and "\<forall>x\<in>set ls. legal_line x" and "sh_stdin s = script_text ls @ tail" and "sh_fds s = std_fds" and "\<not> sh_ferror s"
  shows "case spec_script w (sh_sigs s) ls (view s) of
      (a, None) \<Rightarrow> \<exists>tm' t. shell_loop w tm s = shell_loop w tm' t \<and> view t = a \<and> sh_fds t = std_fds \<and> sh_stdin t = tail
        \<and> sh_heap t = sh_heap s \<and> sh_sigs t = sh_sigs s \<and> \<not> sh_ferror t
    | (a, Some rest) \<Rightarrow> \<exists>t. shell_loop w tm s = (Exit 1, t) \<and> prefix (sv_kids a) (sh_kids t) \<and> sh_stdin t = script_text rest @ tail
        \<and> sh_heap t = sh_heap s"
  using assms(3-)
proof (induction ls arbitrary: tm s)
  case Nil
  then show ?case by (auto simp: script_text_def)
next
  case (Cons x ls)
  obtain i cs ofl t' where x: "x = (i, cs, ofl, t')" by (metis prod.exhaust)
  let ?s = "if tm = T_NL then out [PROMPT] s else s"
  have s: "view ?s = view s" "sh_sigs ?s = sh_sigs s" "sh_heap ?s = sh_heap s" "\<not> sh_ferror ?s" by (simp_all add: view_def Cons.prems(4))
  have "legal_line (i, cs, ofl, t')" "sh_fds ?s = std_fds" "sh_stdin ?s = print_line i cs ofl t' @ script_text ls @ tail"
    using Cons.prems(1-3) x by (simp_all add: script_text_Cons)
  from command_legal_line [OF this(1) assms(1) this(2,3)] obtain p d s1 where
    c: "command w False init_loc ?s = (Done t' p d, s1)" and s1: "sh_stdin s1 = script_text ls @ tail"
    and e: "case spec_line w (sh_sigs s) x (view s) of None \<Rightarrow> leaks d (sh_fds s1)
        | Some a \<Rightarrow> view s1 = a \<and> sh_fds s1 = std_fds \<and> sh_sigs s1 = sh_sigs s \<and> sh_ferror s1 = sh_ferror ?s"
    unfolding s x by blast
  from shell_turn [OF ce c] obtain s2 where s2: "waited s1 s2"
    "shell_loop w tm s = (if fst (fd_check (sh_fds s1)) then shell_loop w t' s2 else (Exit 1, errs (snd (fd_check (sh_fds s1))) s2))" by blast
  have heap: "sh_heap s2 = sh_heap s" using command_heap [OF c] s2(1) s(3) by (simp add: waited_def)
  show ?case
  proof (cases "spec_line w (sh_sigs s) x (view s)")
    case None
    with e leaks_check have f: "\<not> fst (fd_check (sh_fds s1))" by simp
    have "prefix (sh_kids s) (sh_kids s2)"
      using command_kids [OF c] s2(1) s(1) by (simp add: waited_def view_def)
    with f None heap s1 s2 show ?thesis by (simp add: view_def waited_def)
  next
    case (Some a)
    with e have v: "view s1 = a" "sh_fds s1 = std_fds" "sh_sigs s1 = sh_sigs s" "\<not> sh_ferror s1" using s(4) by simp_all
    have "fd_check std_fds = (True, [])" by (rule fd_check_clean) (auto simp: std_fds_def split: if_splits)
    then have turn: "shell_loop w tm s = shell_loop w t' s2" using s2(2) v(2) by simp
    have "sh_stdin s2 = script_text ls @ tail" "sh_fds s2 = std_fds" "\<not> sh_ferror s2" "sh_sigs s2 = sh_sigs s"
      using s2(1) s1 v by (simp_all add: waited_def)
    note IH = Cons.IH [OF _ this(1-3), of t', unfolded this(4) view_waited [OF s2(1)] v(1) heap]
    show ?thesis unfolding spec_script.simps Some option.case turn by (rule IH) (use Cons.prems(1) in simp)
  qed
qed

text \<open>A shell that is just started, with its signals ignored.\<close>

definition ignoring :: sigtab where
  "ignoring = \<lparr>sig_int = SIG_IGN, sig_quit = SIG_IGN\<rparr>"

definition start_view :: "(string \<times> string) list \<Rightarrow> sview" where
  "start_view env = \<lparr>sv_env = env, sv_kids = [], sv_allocs = 0, sv_forks = 0, sv_pipes = 0\<rparr>"

lemma main_spec:
  assumes "6 \<le> w_nofile w" and "children_end w" and "\<forall>x\<in>set ls. legal_line x"
  shows "case spec_script w ignoring ls (start_view env) of
      (a, None) \<Rightarrow> \<exists>t. main w (init_shell (script_text ls) env) = (Exit 0, t) \<and> view t = a \<and> sh_fds t = std_fds \<and> sh_stdin t = [] \<and> sh_heap t = 0
    | (a, Some rest) \<Rightarrow> \<exists>t. main w (init_shell (script_text ls @ tail) env) = (Exit 1, t) \<and> prefix (sv_kids a) (sh_kids t)
        \<and> sh_stdin t = script_text rest @ tail \<and> sh_heap t = 0"
proof -
  let ?s = "\<lambda>tail. (init_shell (script_text ls @ tail) env)\<lparr>sh_sigs := ignore_sig (sh_sigs (init_shell (script_text ls @ tail) env))\<rparr>"
  have s: "sh_stdin (?s tail) = script_text ls @ tail" "sh_fds (?s tail) = std_fds" "\<not> sh_ferror (?s tail)"
    "sh_sigs (?s tail) = ignoring" "view (?s tail) = start_view env" "sh_heap (?s tail) = 0" for tail
    by (simp_all add: init_shell_def ignore_sig_def ignoring_def view_def start_view_def)
  note L = shell_loop_spec [OF assms s(1-3), of T_NL, unfolded s(4-6)]
  obtain a k where a: "spec_script w ignoring ls (start_view env) = (a, k)" by fastforce
  show ?thesis
  proof (cases k)
    case None
    from L [of "[]"] obtain tm' t where t: "shell_loop w T_NL (?s []) = shell_loop w tm' t" "view t = a" "sh_fds t = std_fds" "sh_stdin t = []"
      "sh_heap t = 0" "\<not> sh_ferror t" unfolding a None by auto
    with shell_loop_at_end [OF t(4,6), of w tm'] show ?thesis
      unfolding a None by (auto simp: main_def start_shell_def view_def)
  next
    case (Some rest)
    from L [of tail] show ?thesis unfolding a Some by (auto simp: main_def start_shell_def)
  qed
qed

end
