(* ===== verification/ShellScript.thy ===== *)
theory ShellScript
  imports ShellSpec
begin

text \<open>
  Cases of \<open>main_spec\<close>: a script of lines whose commands all start their processes, and a line with a command that runs no
  program; and a word that does not fit.
\<close>

section \<open>Scripts in which every command starts its process\<close>

definition good_line :: "line \<Rightarrow> bool" where
  "good_line = (\<lambda>(i, cs, ofl, t). cs \<noteq> [] \<and> (\<forall>c\<in>set cs. good_args c \<and> runs_program c)
     \<and> (\<forall>f. i = Some f \<longrightarrow> good_word f) \<and> (\<forall>app f. ofl = Some (app, f) \<longrightarrow> good_word f)
     \<and> t \<in> terminators)"

fun script_children :: "world \<Rightarrow> sigtab \<Rightarrow> nat \<Rightarrow> nat \<Rightarrow> line list \<Rightarrow> child list" where
  "script_children w sigs k p [] = []"
| "script_children w sigs k p ((i, cs, ofl, t) # ls) =
     line_children w (t = T_AMP) sigs k p i False cs ofl
     @ script_children w sigs (k + length cs) (p + (length cs - 1)) ls"

lemma good_legal: "good_line x \<Longrightarrow> legal_line x"
  by (auto simp: good_line_def legal_line_def)

lemma starts_good: "\<forall>k. w_fork w k \<noteq> None \<Longrightarrow> \<forall>c\<in>set cs. runs_program c \<Longrightarrow> starts w k cs"
  by (induction cs) auto

lemma spec_script_good:
  assumes "\<forall>k. w_malloc w k" and "\<forall>k. w_fork w k \<noteq> None" and "\<forall>x\<in>set ls. good_line x"
  shows "\<exists>a. spec_script w sigs ls b = (a, None) \<and> sv_env a = sv_env b
     \<and> sv_kids a = sv_kids b @ script_children w sigs (sv_forks b) (sv_pipes b) ls"
  using assms(3)
proof (induction ls arbitrary: b)
  case (Cons x ls)
  obtain i cs ofl t where x: "x = (i, cs, ofl, t)" by (metis prod.exhaust)
  then have "starts w (sv_forks b) cs" using Cons.prems assms(2) by (auto simp: good_line_def intro: starts_good)
  then obtain b' where "spec_line w sigs x b = Some b'" "sv_env b' = sv_env b" "sv_forks b' = sv_forks b + length cs"
    "sv_pipes b' = sv_pipes b + (length cs - 1)"
    "sv_kids b' = sv_kids b @ line_children w (t = T_AMP) sigs (sv_forks b) (sv_pipes b) i False cs ofl"
    by (simp add: x spec_line_def kept_all_works [OF assms(1)] Let_def)
  with Cons.IH [of b'] Cons.prems show ?case by (auto simp: x)
qed simp

lemma main_script:
  assumes "\<forall>k. w_malloc w k" and "\<forall>k. w_fork w k \<noteq> None" and "6 \<le> w_nofile w" and "children_end w"
    and "\<forall>x\<in>set ls. good_line x"
  shows "\<exists>t. main w (init_shell (script_text ls) env) = (Exit 0, t) \<and> sh_fds t = std_fds
     \<and> sh_env t = env \<and> sh_heap t = 0 \<and> sh_stdin t = []
     \<and> sh_kids t = script_children w \<lparr>sig_int = SIG_IGN, sig_quit = SIG_IGN\<rparr> 0 0 ls"
proof -
  from spec_script_good [OF assms(1,2,5), of ignoring "start_view env"] obtain a where
    a: "spec_script w ignoring ls (start_view env) = (a, None)" "sv_env a = env" "sv_kids a = script_children w ignoring 0 0 ls"
    by (auto simp: start_view_def)
  with main_spec [OF assms(3,4), of ls env] assms(5) good_legal show ?thesis
    by (auto simp: view_def ignoring_def)
qed

text \<open>A pipeline with a first command that runs no program.\<close>

lemma main_leak:
  assumes "\<forall>k. w_malloc w k" and "6 \<le> w_nofile w" and "children_end w"
    and "good_args c1" and "c1 = [] \<or> is_builtin (hd c1)" and "good_args c2"
  shows "\<exists>t. main w (init_shell (print_line None [c1, c2] None T_NL @ rest) env) = (Exit 1, t)
     \<and> sh_stdin t = rest"
proof -
  let ?x = "(None, [c1, c2], None, T_NL)"
  have "\<forall>x\<in>set [?x]. legal_line x" using assms(4,6) by (simp add: legal_line_def terminators_def)
  note S = main_spec [OF assms(2,3) this, of env rest]
  have "\<not> starts w 0 [c1, c2]" using assms(5) by (auto simp: runs_program_def)
  then have "spec_script w ignoring [?x] (start_view env) = (start_view env, Some [])"
    by (simp add: spec_line_def kept_all_works [OF assms(1)] start_view_def Let_def del: starts.simps)
  with S show ?thesis by (auto simp: script_text_def)
qed

section \<open>A word that does not fit\<close>

lemma command_long_word:
  assumes "sh_stdin s = a @ d # rest" and "a \<noteq> []" and "\<forall>c\<in>set a. \<not> word_end c" and "hd a \<noteq> DQUOTE"
    and "word_end d" and "MAXWORD \<le> length a" and "no_nul a"
  shows "fst (command w mp init_loc s) = UndefRes"
proof -
  have l: "lex (sh_stdin s) = LWord a (d # rest)"
    unfolding assms(1) by (rule lex_plain) (use assms in auto)
  have "NUL \<notin> set (take 500 a)" using assms(7) by (auto simp: no_nul_def dest: in_set_takeD)
  then have "cstr (fill (uninit MAXWORD) (a @ [NUL])) = None"
    using assms(6) by (simp add: cstr_fill MAXWORD_def)
  with l obtain s' where "cmd_step w mp init_loc s = Undef s'"
    by (simp add: cmd_step_def next_token_cases add_word_def MAXARG_def init_loc_def)
  then show ?thesis by (simp add: command.simps [of w mp init_loc s])
qed

end
