(* ===== verification/ShellWaits.thy ===== *)
theory ShellWaits
  imports ShellScript
begin

text \<open>
  The processes that \<open>shell.c\<close> waits for: \<open>waitpid\<close> gives any child that has ended, so that \<open>wait_and_display\<close> also reaps earlier
  background commands, and stops at the one it was asked for.
\<close>

text \<open>What \<open>wait_and_display\<close> leaves unreaped.\<close>

lemma waitpid_any_reaps:
  assumes "waitpid_any w s = Got ((p, st), t)" and "distinct (sh_unreaped s)"
  shows "distinct (sh_unreaped t) \<and> set (sh_unreaped t) = set (sh_unreaped s) - {p}"
proof -
  obtain j where j: "j < length (sh_unreaped s)" and t: "sh_unreaped t = remove_nth j (sh_unreaped s)" and p: "p = sh_unreaped s ! j"
    by (rule waitpid_any_Got [OF assms(1)]) auto
  have s: "sh_unreaped s = take j (sh_unreaped s) @ p # drop (Suc j) (sh_unreaped s)"
    using id_take_nth_drop [OF j] p by simp
  have "distinct (take j (sh_unreaped s) @ p # drop (Suc j) (sh_unreaped s))"
    "set (sh_unreaped s) = set (take j (sh_unreaped s) @ p # drop (Suc j) (sh_unreaped s))"
    using assms(2) s by metis+
  then show ?thesis unfolding t remove_nth_def by auto
qed

lemma wait_and_display_reaps:
  "wait_and_display w pid s = Got t \<Longrightarrow> distinct (sh_unreaped s) \<Longrightarrow>
   distinct (sh_unreaped t) \<and> set (sh_unreaped t) \<subseteq> set (sh_unreaped s) - {pid}
   \<and> set (sh_reaped s) \<union> {(sh_forks s, pid)} \<subseteq> set (sh_reaped t)"
proof (induction w pid s rule: wait_and_display.induct)
  case (1 w pid s)
  from "1.prems"(1) obtain p st s1 where e: "waitpid_any w s = Got ((p, st), s1)"
    by (auto simp: wait_and_display.simps [of w pid s] split: waiting.splits)
  have l: "sh_reaped s1 = sh_reaped s @ [(sh_forks s, p)]" "sh_forks s1 = sh_forks s" by (rule waitpid_any_Got [OF e]; simp)+
  note r = waitpid_any_reaps [OF e "1.prems"(2)]
  show ?case
  proof (cases "p = pid")
    case True
    with e "1.prems"(1) have "t = out (display_status p st) s1" by (simp add: wait_and_display.simps [of w pid s])
    with r l True show ?thesis by simp
  next
    case False
    with e "1.prems"(1) have t: "wait_and_display w pid (out (display_status p st) s1) = Got t"
      by (simp add: wait_and_display.simps [of w pid s])
    have "distinct (sh_unreaped t) \<and> set (sh_unreaped t) \<subseteq> set (sh_unreaped (out (display_status p st) s1)) - {pid}
        \<and> set (sh_reaped (out (display_status p st) s1)) \<union> {(sh_forks (out (display_status p st) s1), pid)} \<subseteq> set (sh_reaped t)"
      by (rule "1.IH" [OF e refl refl refl False t]) (use r in simp)
    with r l show ?thesis by auto
  qed
qed

text \<open>The numbers of the forks of the processes that the shell waits for: the rightmost command of a line is started first.\<close>

fun foreground_forks :: "nat \<Rightarrow> line list \<Rightarrow> nat list" where
  "foreground_forks k [] = []"
| "foreground_forks k ((i, cs, ofl, t) # ls) = (if t = T_AMP then [] else [k]) @ foreground_forks (k + length cs) ls"

text \<open>With them, how many forks there have been when the next line comes.\<close>

fun foreground_reaps :: "nat \<Rightarrow> line list \<Rightarrow> (nat \<times> nat) list" where
  "foreground_reaps k [] = []"
| "foreground_reaps k ((i, cs, ofl, t) # ls) = (if t = T_AMP then [] else [(k + length cs, k)]) @ foreground_reaps (k + length cs) ls"

text \<open>How many commands are started although their \<open>append\<close> was never assigned: all but those with an output file.\<close>

fun script_strays :: "line list \<Rightarrow> nat" where
  "script_strays [] = 0"
| "script_strays ((i, cs, ofl, t) # ls) = line_strays cs ofl + script_strays ls"

text \<open>The processes not yet waited for are among those started, and those that had to be waited for are not.\<close>

definition reap_inv :: "world \<Rightarrow> nat set \<Rightarrow> shell \<Rightarrow> bool" where
  "reap_inv w ks s \<longleftrightarrow> distinct (sh_unreaped s) \<and> set (sh_unreaped s) \<subseteq> fork_result w ` {..<sh_forks s}
     \<and> ks \<subseteq> {..<sh_forks s} \<and> (\<forall>k\<in>ks. fork_result w k \<notin> set (sh_unreaped s))"

lemma reap_inv_line:
  assumes "reap_inv w ks s" and "inj (fork_result w)" and u: "sh_unreaped u = sh_unreaped s @ map (fork_result w) [sh_forks s..<sh_forks s + n]"
    "sh_forks u = sh_forks s + n"
  shows "reap_inv w ks u"
proof -
  have "fork_result w ` {..<sh_forks s} \<inter> fork_result w ` {sh_forks s..<sh_forks s + n} = {}"
    using assms(2) by (auto dest: injD)
  moreover have "distinct (map (fork_result w) [sh_forks s..<sh_forks s + n])"
    using inj_on_subset [OF assms(2)] by (simp add: distinct_map)
  ultimately show ?thesis using assms(1) unfolding reap_inv_def u by (fastforce simp: image_iff dest: injD [OF assms(2)])
qed

lemma reap_inv_wait:
  assumes "reap_inv w ks s" and "wait_and_display w (fork_result w k) s = Got t" and "k < sh_forks s"
  shows "reap_inv w (insert k ks) t"
  using assms wait_and_display_reaps [OF assms(2)] wait_and_display_effect [OF assms(2)]
  by (auto simp: reap_inv_def waited_def)

lemma shell_loop_waits:
  assumes "\<forall>k. w_malloc w k" and "\<forall>k. w_fork w k \<noteq> None" and "6 \<le> w_nofile w" and inj: "inj (fork_result w)" and ce: "children_end w"
    and "\<forall>x\<in>set ls. good_line x" and "sh_stdin s = script_text ls @ tail" and "sh_fds s = std_fds" and "reap_inv w ks s"
  shows "\<exists>tm' t. shell_loop w tm s = shell_loop w tm' t \<and> sh_stdin t = tail
     \<and> sh_kids t = sh_kids s @ script_children w (sh_sigs s) (sh_forks s) (sh_pipes s) ls
     \<and> reap_inv w (ks \<union> set (foreground_forks (sh_forks s) ls)) t
     \<and> set (sh_reaped s) \<union> map_prod id (fork_result w) ` set (foreground_reaps (sh_forks s) ls) \<subseteq> set (sh_reaped t)
     \<and> sh_ferror t = sh_ferror s \<and> sh_stray t = sh_stray s + script_strays ls"
  using assms(6-)
proof (induction ls arbitrary: tm s ks)
  case Nil
  then show ?case by (auto simp: script_text_def)
next
  case (Cons x ls)
  obtain i cs ofl t' where x: "x = (i, cs, ofl, t')" by (metis prod.exhaust)
  let ?s = "if tm = T_NL then out [PROMPT] s else s" and ?pid = "fork_result w (sh_forks s)"
  let ?s1 = "after_line w i cs ofl t' (script_text ls @ tail) ?s"
  have g: "good_line (i, cs, ofl, t')" using Cons.prems(1) x by simp
  then have n: "sh_forks s < sh_forks s + length cs" by (simp add: good_line_def)
  have c: "command w False init_loc ?s = (Done t' ?pid (- 1), ?s1)"
    using command_print_line [OF assms(1-3), where s = ?s and rest = "script_text ls @ tail" and i = i and cs = cs and ofl = ofl and t = t']
      g Cons.prems(2,3) x by (auto simp: good_line_def script_text_Cons)
  have a: "sh_forks ?s1 = sh_forks s + length cs" "sh_fds ?s1 = std_fds" "sh_reaped ?s1 = sh_reaped s" "sh_ferror ?s1 = sh_ferror s" "sh_stray ?s1 = sh_stray s + line_strays cs ofl" "sh_stdin ?s1 = script_text ls @ tail" "sh_sigs ?s1 = sh_sigs s"
    "sh_pipes ?s1 = sh_pipes s + (length cs - 1)" "sh_unreaped ?s1 = sh_unreaped s @ map (fork_result w) [sh_forks s..<sh_forks s + length cs]"
    "sh_kids ?s1 = sh_kids s @ line_children w (t' = T_AMP) (sh_sigs s) (sh_forks s) (sh_pipes s) i False cs ofl"
    using Cons.prems(3) by (simp_all add: after_line_def Let_def)
  from shell_turn [OF ce c] obtain s2 where s2: "(if t' \<noteq> T_AMP \<and> 0 < ?pid then wait_and_display w ?pid ?s1 else Got ?s1) = Got s2"
    "waited ?s1 s2" "shell_loop w tm s = (if fst (fd_check (sh_fds ?s1)) then shell_loop w t' s2 else (Exit 1, errs (snd (fd_check (sh_fds ?s1))) s2))"
    by blast
  have "fd_check std_fds = (True, [])" by (rule fd_check_clean) (auto simp: std_fds_def split: if_splits)
  then have turn: "shell_loop w tm s = shell_loop w t' s2" using s2(3) a(2) by simp
  have pos: "0 < ?pid" using assms(2) by (simp add: fork_result_def split: option.splits)
  let ?ks = "set (if t' = T_AMP then [] else [sh_forks s])" and ?rs = "set (if t' = T_AMP then [] else [(sh_forks s + length cs, ?pid)])"
  have r1: "reap_inv w ks ?s1" by (rule reap_inv_line [OF Cons.prems(4) inj a(9,1)])
  then have "distinct (sh_unreaped ?s1)" by (simp add: reap_inv_def)
  have "reap_inv w (ks \<union> ?ks) s2 \<and> set (sh_reaped s) \<union> ?rs \<subseteq> set (sh_reaped s2)"
  proof (cases "t' = T_AMP")
    case True
    with s2(1) r1 a(3) show ?thesis by auto
  next
    case False
    with s2(1) pos have wt: "wait_and_display w ?pid ?s1 = Got s2" by simp
    have "reap_inv w (insert (sh_forks s) ks) s2" using reap_inv_wait [OF r1 wt] n a(1) by simp
    with False wait_and_display_reaps [OF wt \<open>distinct (sh_unreaped ?s1)\<close>] a(1,3) show ?thesis by simp
  qed
  then have r2: "reap_inv w (ks \<union> ?ks) s2" "set (sh_reaped s) \<union> ?rs \<subseteq> set (sh_reaped s2)" by auto
  have w: "sh_stdin s2 = script_text ls @ tail" "sh_fds s2 = std_fds" "sh_sigs s2 = sh_sigs s" "sh_forks s2 = sh_forks s + length cs"
    "sh_pipes s2 = sh_pipes s + (length cs - 1)" "sh_kids s2 = sh_kids ?s1" "sh_ferror s2 = sh_ferror s" "sh_stray s2 = sh_stray s + line_strays cs ofl"
    using s2(2) a by (simp_all add: waited_def)
  have "\<forall>x\<in>set ls. good_line x" using Cons.prems(1) by simp
  from Cons.IH [OF this w(1,2) r2(1), of t'] obtain tm2 t where t: "shell_loop w t' s2 = shell_loop w tm2 t" "sh_stdin t = tail"
    "sh_kids t = sh_kids s2 @ script_children w (sh_sigs s2) (sh_forks s2) (sh_pipes s2) ls"
    "reap_inv w (ks \<union> ?ks \<union> set (foreground_forks (sh_forks s2) ls)) t"
    "set (sh_reaped s2) \<union> map_prod id (fork_result w) ` set (foreground_reaps (sh_forks s2) ls) \<subseteq> set (sh_reaped t)" "sh_ferror t = sh_ferror s2" "sh_stray t = sh_stray s2 + script_strays ls"
    by blast
  have "set (sh_reaped s) \<union> map_prod id (fork_result w) ` set (foreground_reaps (sh_forks s) (x # ls)) \<subseteq> set (sh_reaped t)"
    using t(5) r2(2) w(4) by (auto simp: x)
  with t show ?case unfolding turn x w(3-8) a(10) by (intro exI [of _ tm2] exI [of _ t]) (auto simp: Un_assoc)
qed

lemma foreground_forks_children:
  assumes "\<forall>x\<in>set ls. good_line x"
  shows "fork_result w ` set (foreground_forks k ls) \<subseteq> ch_pid ` set (script_children w sigs k p ls)"
  using assms
proof (induction ls arbitrary: k p)
  case (Cons x ls)
  obtain i cs ofl t' where x: "x = (i, cs, ofl, t')" by (metis prod.exhaust)
  with Cons.prems have "cs \<noteq> []" by (simp add: good_line_def)
  then have "fork_result w k \<in> ch_pid ` set (line_children w bg sigs k p i b cs ofl)" for bg b
  proof (induction cs arbitrary: i b)
    case (Cons a cs)
    then show ?case by (cases cs) (auto simp: stage_child_def image_iff)
  qed simp
  with Cons show ?case by (fastforce simp: x split: if_splits)
qed simp

end
