(* ===== verification/ShellTheorems.thy ===== *)
theory ShellTheorems
  imports ShellWaits
begin

text \<open>
  The properties of \<open>communication/shell.c\<close> and \<open>display.c\<close>, each with an instance at a concrete
  input where it has hypotheses.
\<close>

section \<open>A concrete environment\<close>

text \<open>Every call succeeds, pids count from 100, a child ends in the order it was started with
  exit value 0, and there are 64 descriptors.\<close>

definition easy_world :: world where
  "easy_world = \<lparr>w_open = (\<lambda>k p. True), w_exec = (\<lambda>k p. True), w_fork = (\<lambda>k. Some (99 + k)),
     w_chdir = (\<lambda>p. True), w_malloc = (\<lambda>k. True), w_reap = (\<lambda>k. Some (0, 0)), w_nofile = 64\<rparr>"

definition easy_line :: line where
  "easy_line = (Some ''in'', [[''sort''], [''/bin/wc'', ''-l'']], Some (True, ''out''), T_NL)"

lemma easy_world_ok:
  "\<forall>k. w_malloc easy_world k" "\<forall>k. w_fork easy_world k \<noteq> None" "6 \<le> w_nofile easy_world" "children_end easy_world"
  by (simp_all add: easy_world_def children_end_def)

lemma easy_line_ok: "good_line easy_line"
  by (simp add: easy_line_def good_line_def good_args_def good_word_def no_nul_def runs_program_def
      is_builtin_def terminators_def MAXARG_def MAXWORD_def)

section \<open>What the shell runs\<close>

text \<open>
A script runs as it is written.  When the allocations and forks succeed, \<open>main\<close> reads a text made of
well-formed command lines, starts for every line exactly the children the line asks for (each with
its program, its arguments, its signal dispositions, its redirections and the pipes to its
neighbours, and no other descriptor), waits for the foreground ones, and ends with status 0, the
standard descriptors only, its environment unchanged and every argument freed.
\<close>

theorem main_runs_script:
  assumes "\<forall>k. w_malloc w k" and "\<forall>k. w_fork w k \<noteq> None" and "6 \<le> w_nofile w" and "children_end w"
    and "\<forall>x\<in>set ls. good_line x"
  shows "\<exists>t. main w (init_shell (script_text ls) env) = (Exit 0, t) \<and> sh_fds t = std_fds
     \<and> sh_env t = env \<and> sh_heap t = 0 \<and> sh_stdin t = []
     \<and> sh_kids t = script_children w \<lparr>sig_int = SIG_IGN, sig_quit = SIG_IGN\<rparr> 0 0 ls"
  by (rule main_script) (use assms in auto)

lemma main_runs_script_witness:
  "\<exists>t. main easy_world (init_shell (script_text [easy_line, easy_line]) []) = (Exit 0, t)
     \<and> sh_fds t = std_fds \<and> sh_env t = [] \<and> sh_heap t = 0 \<and> sh_stdin t = []
     \<and> sh_kids t = script_children easy_world \<lparr>sig_int = SIG_IGN, sig_quit = SIG_IGN\<rparr> 0 0
         [easy_line, easy_line]"
  by (rule main_runs_script) (use easy_world_ok easy_line_ok in auto)

text \<open>
C2: Every script, whatever the environment answers.  On a text of lines that can be written, with programs, assignments, \<open>set\<close>, \<open>cd\<close> and
empty commands, \<open>main\<close> does what \<open>spec_script\<close> says, which \<open>malloc\<close> and \<open>fork\<close> may fail, and which files and programs there are, being part of \<open>w\<close>: a
line whose commands all start their processes gets the children it asks for, without the words there was no memory for; a command
alone on its line that starts none has its effect on the environment, or none, and the shell goes on; and a pipeline
with such a command ends the shell with status 1 and leaves the rest unread.  Otherwise the shell ends with status 0, with the standard
descriptors only.  Every argument is freed.  Children that are waited for are taken to end (\<open>children_end\<close>).
\<close>

theorem main_runs_any_script:
  assumes "6 \<le> w_nofile w" and "children_end w" and "\<forall>x\<in>set ls. legal_line x"
  shows "case spec_script w ignoring ls (start_view env) of
      (a, None) \<Rightarrow> \<exists>t. main w (init_shell (script_text ls) env) = (Exit 0, t) \<and> view t = a \<and> sh_fds t = std_fds \<and> sh_stdin t = [] \<and> sh_heap t = 0
    | (a, Some rest) \<Rightarrow> \<exists>t. main w (init_shell (script_text ls @ tail) env) = (Exit 1, t) \<and> prefix (sv_kids a) (sh_kids t)
        \<and> sh_stdin t = script_text rest @ tail \<and> sh_heap t = 0"
  by (rule main_spec [OF assms])

text \<open>A world in which the first \<open>fork\<close> and the second \<open>malloc\<close> fail.\<close>

definition short_world :: world where
  "short_world = easy_world\<lparr>w_fork := \<lambda>k. if k = 0 then None else Some (99 + k), w_malloc := \<lambda>k. k \<noteq> 1\<rparr>"

lemma main_runs_any_script_witness:
  "\<exists>t c. main short_world (init_shell (script_text [(None, [[''ls'', ''-l'']], None, T_NL), (None, [[''X=1'']], None, T_SEMI),
         (None, [[''ls'']], Some (False, ''f''), T_NL), (None, [[''cd''], [''wc'']], None, T_NL), (None, [[''ls'']], None, T_NL)] @ ''&'') []) = (Exit 1, t)
     \<and> sh_stdin t = script_text [(None, [[''ls'']], None, T_NL)] @ ''&'' \<and> c \<in> set (sh_kids t) \<and> ch_end c = Exec ''ls'' [''ls''] \<and> ch_fds c 1 = Some (WrFile ''f'' False)"
proof -
  let ?ls = "[(None, [[''ls'', ''-l'']], None, T_NL), (None, [[''X=1'']], None, T_SEMI), (None, [[''ls'']], Some (False, ''f''), T_NL),
     (None, [[''cd''], [''wc'']], None, T_NL), (None, [[''ls'']], None, T_NL)]"
  have "\<forall>x\<in>set ?ls. legal_line x"
    by (simp add: legal_line_def good_args_def good_word_def no_nul_def terminators_def MAXARG_def MAXWORD_def)
  moreover have "6 \<le> w_nofile short_world" "children_end short_world" by (simp_all add: short_world_def easy_world_def children_end_def)
  moreover obtain a where a: "spec_script short_world ignoring ?ls (start_view []) = (a, Some [(None, [[''ls'']], None, T_NL)])"
    "sv_kids a = [stage_child short_world 1 ignoring False (Std 0) (WrFile ''f'' False) [''ls'']]"
    by (simp add: spec_line_def spec_alone_def start_view_def short_world_def easy_world_def runs_program_def is_builtin_def
        line_source_def line_sink_def Let_def)
  ultimately obtain t where t: "main short_world (init_shell (script_text ?ls @ ''&'') []) = (Exit 1, t)"
    "prefix [stage_child short_world 1 ignoring False (Std 0) (WrFile ''f'' False) [''ls'']] (sh_kids t)"
    "sh_stdin t = script_text [(None, [[''ls'']], None, T_NL)] @ ''&''"
    using main_runs_any_script [of short_world ?ls "[]" "''&''"] by fastforce
  then show ?thesis
    by (intro exI [of _ t] exI [of _ "stage_child short_world 1 ignoring False (Std 0) (WrFile ''f'' False) [''ls'']"])
       (auto simp: prefix_def stage_child_def short_world_def easy_world_def cmdname_def)
qed

text \<open>
C13: The shell waits for the rightmost command of every line that does not end in an ampersand before it reads the next line: at the point where it has
run the lines and reads whatever follows them, it has started all their children and none of these commands is among the children
that are still to be waited for.  No pid is given twice, and every child ends at some time.
\<close>

theorem shell_waits_for_foreground:
  assumes "\<forall>k. w_malloc w k" and "\<forall>k. w_fork w k \<noteq> None" and "6 \<le> w_nofile w" and ce: "children_end w"
    and inj: "\<forall>j k. w_fork w j = w_fork w k \<longrightarrow> j = k"
    and "\<forall>x\<in>set ls. good_line x"
  shows "\<exists>tm t. start_shell w (init_shell (script_text ls @ tail) env) = shell_loop w tm t \<and> sh_stdin t = tail
     \<and> sh_kids t = script_children w ignoring 0 0 ls
     \<and> (\<forall>k\<in>set (foreground_forks 0 ls). fork_result w k \<in> ch_pid ` set (sh_kids t) \<and> fork_result w k \<notin> set (sh_unreaped t))"
proof -
  let ?i = "init_shell (script_text ls @ tail) env"
  let ?s = "?i\<lparr>sh_sigs := ignore_sig (sh_sigs ?i)\<rparr>"
  have "inj (fork_result w)"
    using inj assms(2) by (fastforce simp: inj_def fork_result_def split: option.splits)
  moreover have "reap_inv w {} ?s" by (simp add: reap_inv_def init_shell_def)
  moreover have s: "sh_stdin ?s = script_text ls @ tail" "sh_fds ?s = std_fds" "sh_kids ?s = []" "sh_sigs ?s = ignoring" "sh_forks ?s = 0" "sh_pipes ?s = 0"
    by (simp_all add: init_shell_def ignore_sig_def ignoring_def)
  ultimately obtain tm t where t: "shell_loop w T_NL ?s = shell_loop w tm t" "sh_stdin t = tail"
    "sh_kids t = script_children w ignoring 0 0 ls" "reap_inv w (set (foreground_forks 0 ls)) t"
    using shell_loop_waits [OF assms(1-3) _ ce assms(6), of ?s tail "{}" T_NL] by auto
  note foreground_forks_children [OF assms(6), of w 0 ignoring 0]
  with t show ?thesis by (intro exI [of _ tm] exI [of _ t]) (auto simp: start_shell_def reap_inv_def)
qed

lemma shell_waits_for_foreground_witness:
  "\<exists>tm t. start_shell easy_world (init_shell (script_text [easy_line, easy_line] @ ''quit'') []) = shell_loop easy_world tm t \<and> sh_stdin t = ''quit''
     \<and> 102 \<in> ch_pid ` set (sh_kids t) \<and> 102 \<notin> set (sh_unreaped t)"
proof -
  have "\<forall>j k. w_fork easy_world j = w_fork easy_world k \<longrightarrow> j = k" by (simp add: easy_world_def)
  with shell_waits_for_foreground [OF easy_world_ok, of "[easy_line, easy_line]" "''quit''" "[]"] easy_line_ok show ?thesis
    by (fastforce simp: easy_line_def terminators_def easy_world_def fork_result_def)
qed

text \<open>
C8: One command line.  \<open>command\<close> on the text of a pipeline, with an input file for its first
command and an output file for its last, returns the terminator and the pid of the rightmost
command, and the state afterwards is \<open>after_line\<close>: the children of the line, a background line's
pids printed, the standard descriptors only.
\<close>

theorem command_runs_line:
  assumes "\<forall>k. w_malloc w k" and "\<forall>k. w_fork w k \<noteq> None" and "6 \<le> w_nofile w"
    and "cs \<noteq> []" and "\<forall>c\<in>set cs. good_args c \<and> runs_program c"
    and "\<forall>f. i = Some f \<longrightarrow> good_word f" and "\<forall>app f. ofl = Some (app, f) \<longrightarrow> good_word f"
    and "t \<in> terminators" and "sh_stdin s = print_line i cs ofl t @ rest" and "sh_fds s = std_fds"
  shows "command w False init_loc s =
     (Done t (fork_result w (sh_forks s)) (- 1), after_line w i cs ofl t rest s)"
  using assms by (rule command_print_line)

lemma command_runs_line_witness:
  "let s = init_shell (print_line (Some ''in'') [[''sort''], [''/bin/wc'', ''-l'']] (Some (True, ''out'')) T_AMP @ ''ls'') []
   in command easy_world False init_loc s =
     (Done T_AMP 100 (- 1), after_line easy_world (Some ''in'') [[''sort''], [''/bin/wc'', ''-l'']]
        (Some (True, ''out'')) T_AMP ''ls'' s)"
  using command_runs_line [of easy_world "[[''sort''], [''/bin/wc'', ''-l'']]" "Some ''in''"
      "Some (True, ''out'')" T_AMP "init_shell (print_line (Some ''in'') [[''sort''], [''/bin/wc'', ''-l'']] (Some (True, ''out'')) T_AMP @ ''ls'') []" "''ls''"]
    easy_world_ok easy_line_ok
  by (simp add: easy_line_def good_line_def terminators_def init_shell_def Let_def fork_result_def easy_world_def
      del: print_line.simps)

text \<open>
C20: Whatever the input, the commands that \<open>command\<close> read are in order when it starts to run them:
fewer than 50 arguments, so that the null pointer after them fits \<open>argv\<close>, each of them a C string;
a descriptor is -1 exactly when a file was named; only the first command reads a file and only the
last writes one; \<open>append\<close> has been assigned where there is an output file.
\<close>

theorem command_reads_well_formed:
  assumes "parse_line w mp init_loc s = Inr (st, t)"
  shows "wf_stages mp st"
  by (rule parse_line_wf [OF _ assms]) simp

lemma command_reads_well_formed_witness:
  "\<exists>st t. parse_line easy_world False init_loc (init_shell (''ls -l | wc'' @ [NL]) []) = Inr (st, t)
     \<and> length st = 2 \<and> wf_stages False st"
proof -
  have "case parse_line easy_world False init_loc (init_shell (''ls -l | wc'' @ [NL]) []) of
      Inl x \<Rightarrow> False | Inr (st, t) \<Rightarrow> length st = 2"
    by code_simp
  then show ?thesis
    using command_reads_well_formed by (fastforce split: sum.splits)
qed

section \<open>The lexer\<close>

text \<open>
C15: The state machine \<open>gettoken\<close> computes the specification \<open>lex\<close> of tokens: it returns the token, leaves
the rest of the input unread, puts the word and a NUL into the array as far as they fit and
complains once about every character that does not; at the end of the input the result depends on
\<open>ferror\<close>.
\<close>

theorem gettoken_refines_lex:
  "gettoken word ferr inp =
     (case lex inp of
        LWord v r \<Rightarrow> (T_WORD, r, fill word (v @ [NUL]), overflow_msgs (length word) (Suc (length v)))
      | LTok t r \<Rightarrow> (t, r, word, [])
      | LEnd v \<Rightarrow>
          (if \<not> ferr then (T_ERROR, [], fill word v,
                           overflow_msgs (length word) (length v) @ [stdin_error_msg])
           else (T_EOF, [], fill word v, overflow_msgs (length word) (length v))))"
  by (rule gettoken_lex)

text \<open>
A word written in quotes, with its quotes and backslashes escaped, is read back by \<open>gettoken\<close> as
it was, and nothing after it is consumed.
\<close>

theorem gettoken_reads_quoted:
  assumes "no_nul a" and "length a < length word"
  shows "\<exists>word'. gettoken word ferr (quote a @ r) = (T_WORD, r, word', []) \<and> cstr word' = Some a"
  using assms by (simp add: gettoken_lex lex_quoted overflow_msgs_def cstr_fill takeWhile_no_nul)

lemma gettoken_reads_quoted_witness:
  "\<exists>word'. gettoken (uninit 20) False (quote ''a |& b'' @ ''|x'') = (T_WORD, ''|x'', word', [])
     \<and> cstr word' = Some ''a |& b''"
  by (rule gettoken_reads_quoted) (simp_all add: no_nul_def)

section \<open>Safety of the shell\<close>

text \<open>
C12: No undefined behaviour but one.  If every word of the input is shorter than the 500 characters of the arrays, then
whatever the environment answers, neither the shell nor any of its children reads an indeterminate or
unterminated array, runs over its end, or decides by an \<open>append\<close> that was never assigned.  The one that is left, and not counted here, is that
\<open>append\<close> is passed to \<open>invoke\<close> by value although nothing assigned it, for every command without an output file (\<open>main_passes_stray_append\<close>).
\<close>

theorem main_stays_in_arrays:
  assumes "words_fit inp"
  shows "fst (main w (init_shell inp env)) \<noteq> Undefined
    \<and> UndefChild \<notin> ch_end ` set (sh_kids (snd (main w (init_shell inp env))))"
proof -
  let ?s = "(init_shell inp env)\<lparr>sh_sigs := ignore_sig (sh_sigs (init_shell inp env))\<rparr>"
  obtain r t where r: "shell_loop w T_NL ?s = (r, t)" by fastforce
  have "words_fit (sh_stdin ?s)" "kids_defined ?s"
    using assms by (simp_all add: init_shell_def kids_defined_def)
  from shell_loop_defined [OF this r] r
  show ?thesis
    by (auto simp: main_def start_shell_def kids_defined_def split: shell_end.splits)
qed

lemma main_stays_in_arrays_witness:
  "fst (main easy_world (init_shell (''ls > > f'' @ [NL]) [])) \<noteq> Undefined"
proof -
  have "words_fit (''ls > > f'' @ [NL])" by code_simp
  then show ?thesis using main_stays_in_arrays by blast
qed

text \<open>
C34: The indeterminate \<open>append\<close>.  On a script of lines whose commands all start their processes, the shell passes a variable that was never
assigned once for every command that has no output file.  By the letter of the C standard the behaviour is undefined there; only a script in which
every line is a single command with \<open>>\<close> or \<open>>>\<close> avoids it.
\<close>

theorem main_passes_stray_append:
  assumes "\<forall>k. w_malloc w k" and "\<forall>k. w_fork w k \<noteq> None" and "6 \<le> w_nofile w" and ce: "children_end w"
    and inj: "\<forall>j k. w_fork w j = w_fork w k \<longrightarrow> j = k" and "\<forall>x\<in>set ls. good_line x"
  shows "sh_stray (snd (main w (init_shell (script_text ls) env))) = script_strays ls
     \<and> (script_strays ls = 0 \<longleftrightarrow> (\<forall>(i, cs, ofl, t)\<in>set ls. length cs = 1 \<and> ofl \<noteq> None))"
proof
  let ?i = "init_shell (script_text ls) env"
  let ?s = "?i\<lparr>sh_sigs := ignore_sig (sh_sigs ?i)\<rparr>"
  have "inj (fork_result w)"
    using inj assms(2) by (fastforce simp: inj_def fork_result_def split: option.splits)
  moreover have s: "sh_stdin ?s = script_text ls @ []" "sh_fds ?s = std_fds" "reap_inv w {} ?s" "\<not> sh_ferror ?s" "sh_stray ?s = 0"
    by (simp_all add: init_shell_def reap_inv_def)
  ultimately obtain tm t where t: "shell_loop w T_NL ?s = shell_loop w tm t" "sh_stdin t = []" "\<not> sh_ferror t" "sh_stray t = script_strays ls"
    using shell_loop_waits [OF assms(1-3) _ ce assms(6) s(1-3), of T_NL] by auto
  then show "sh_stray (snd (main w ?i)) = script_strays ls"
    unfolding main_def start_shell_def t(1) shell_loop_at_end [OF t(2,3)] by simp
  show "script_strays ls = 0 \<longleftrightarrow> (\<forall>(i, cs, ofl, t)\<in>set ls. length cs = 1 \<and> ofl \<noteq> None)"
    using assms(6)
  proof (induction ls rule: script_strays.induct)
    case (2 i cs ofl t ls)
    then obtain c cs' where "cs = c # cs'" by (cases cs) (auto simp: good_line_def)
    with 2 show ?case by (auto simp: line_strays_def)
  qed simp
qed

lemma main_passes_stray_append_witness:
  "sh_stray (snd (main easy_world (init_shell (script_text [easy_line, (None, [[''ls'']], Some (False, ''f''), T_AMP)]) []))) = 1"
proof -
  let ?ls = "[easy_line, (None, [[''ls'']], Some (False, ''f''), T_AMP)]"
  have "\<forall>x\<in>set ?ls. good_line x"
    using easy_line_ok by (simp add: good_line_def good_args_def good_word_def no_nul_def runs_program_def is_builtin_def terminators_def
        MAXARG_def MAXWORD_def)
  moreover have "\<forall>j k. w_fork easy_world j = w_fork easy_world k \<longrightarrow> j = k" by (simp add: easy_world_def)
  moreover have "script_strays ?ls = 1" by (simp add: easy_line_def line_strays_def)
  ultimately show ?thesis using main_passes_stray_append [OF easy_world_ok, of ?ls "[]"] by simp
qed

text \<open>
C14: Termination.  On every finite input whose words fit the arrays, and in every environment, \<open>main\<close> ends with status 0 or 1, unless it
waits for ever for a child of its own that never ends: it never spins in \<open>wait_and_display\<close>, whose loop has no end once \<open>waitpid\<close> has
nothing left to return.
\<close>

theorem main_never_hangs:
  assumes "words_fit inp"
  shows "case fst (main w (init_shell inp env)) of
      Exit n \<Rightarrow> n \<in> {0, 1}
    | Blocked \<Rightarrow> (\<exists>k. w_reap w k = None)
    | _ \<Rightarrow> False"
proof -
  let ?s = "(init_shell inp env)\<lparr>sh_sigs := ignore_sig (sh_sigs (init_shell inp env))\<rparr>"
  obtain r t where r: "shell_loop w T_NL ?s = (r, t)" by fastforce
  have "words_fit (sh_stdin ?s)" "kids_defined ?s" using assms by (simp_all add: init_shell_def kids_defined_def)
  from shell_loop_defined [OF this r] shell_loop_returns [of w T_NL ?s] r show ?thesis
    by (auto simp: main_def start_shell_def ends_well_def)
qed

lemma main_never_hangs_witness:
  "\<exists>n. fst (main easy_world (init_shell (''ls > > f'' @ [NL]) [])) = Exit n \<and> n \<in> {0, 1}"
proof -
  have "words_fit (''ls > > f'' @ [NL])" by code_simp
  moreover have no: "(\<exists>k. w_reap easy_world k = None) = False" by (simp add: easy_world_def)
  ultimately show ?thesis
    using main_never_hangs [of "''ls > > f'' @ [NL]" easy_world "[]", unfolded no] by (auto split: shell_end.splits)
qed

text \<open>
\<open>wait_and_display\<close> returns exactly when the pid it waits for is that of a child not yet waited for, if every child ends.
\<close>

theorem wait_and_display_returns_iff:
  assumes "children_end w"
  shows "(\<exists>t. wait_and_display w pid s = Got t) \<longleftrightarrow> pid \<in> set (sh_unreaped s)"
  using assms by (rule wait_and_display_returns)

text \<open>
C23: No leak of argument memory: when \<open>command\<close> returns a terminator, the argument strings it (and
its recursive calls) allocated have all been freed, builtins and failed forks included.
\<close>

theorem command_frees_arguments:
  assumes "command w mp init_loc s = (Done tm p d, t)"
  shows "sh_heap t = sh_heap s"
  using assms by (rule command_heap)

lemma command_frees_arguments_witness:
  "\<exists>t. command easy_world False init_loc (init_shell (''cd a b'' @ [NL]) []) = (Done T_NL 0 (- 1), t)
     \<and> sh_heap t = 0"
proof -
  let ?s = "init_shell (''cd a b'' @ [NL]) []"
  have "fst (command easy_world False init_loc ?s) = Done T_NL 0 (- 1)" by code_simp
  then obtain t where t: "command easy_world False init_loc ?s = (Done T_NL 0 (- 1), t)"
    by (cases "command easy_world False init_loc ?s") simp
  from command_frees_arguments [OF t] t show ?thesis by (simp add: init_shell_def)
qed

text \<open>
C22: A line that is not read to its end runs nothing: when \<open>command\<close> does not return a terminator, no
process was forked, no descriptor, signal disposition or variable changed.
\<close>

theorem failed_line_runs_nothing:
  assumes "command w mp init_loc s = (r, t)" and "\<nexists>tm p d. r = Done tm p d"
  shows "sh_kids t = sh_kids s \<and> sh_forks t = sh_forks s \<and> sh_unreaped t = sh_unreaped s
     \<and> sh_fds t = sh_fds s \<and> sh_env t = sh_env s \<and> sh_sigs t = sh_sigs s"
proof (cases rule: command_cases [of w mp s])
  case (failed r t)
  with assms(1) show ?thesis by (simp add: reading_def)
next
  case (ran st u)
  with assms run_stages_Done [of mp st w u] show ?thesis by fastforce
qed

lemma failed_line_runs_nothing_witness:
  "\<exists>t. command easy_world False init_loc (init_shell ''ls | wc'' []) = (DoneError, t) \<and> sh_kids t = []"
proof -
  let ?s = "init_shell ''ls | wc'' []"
  have "fst (command easy_world False init_loc ?s) = DoneError" by code_simp
  then obtain t where t: "command easy_world False init_loc ?s = (DoneError, t)"
    by (cases "command easy_world False init_loc ?s") simp
  from failed_line_runs_nothing [OF t] t show ?thesis by (simp add: init_shell_def)
qed

section \<open>What goes wrong\<close>

text \<open>
C33: A word of 500 characters or more is undefined behaviour: \<open>gettoken\<close> ignores that \<open>store_char\<close> refused
the NUL, and \<open>strlen (word)\<close> runs off the array.
\<close>

theorem long_word_undefined:
  assumes "sh_stdin s = a @ d # rest" and "a \<noteq> []" and "\<forall>c\<in>set a. \<not> word_end c" and "hd a \<noteq> DQUOTE"
    and "word_end d" and "MAXWORD \<le> length a" and "no_nul a"
  shows "fst (command w mp init_loc s) = UndefRes"
  using assms by (rule command_long_word)

lemma long_word_undefined_witness:
  "fst (command easy_world False init_loc (init_shell (replicate 500 (CHR ''x'') @ [NL]) [])) = UndefRes"
  by (rule long_word_undefined [where a = "replicate 500 (CHR ''x'')" and d = NL and rest = "[]"])
     (simp_all add: init_shell_def word_end_def MAXWORD_def no_nul_def hd_replicate)

text \<open>
A pipeline whose first command is empty or a builtin kills the shell: \<open>invoke\<close> returns before it closes
the write end of the pipe, and the next \<open>fd_check\<close> ends the process with status 1, the rest of
the input unread.
\<close>

theorem pipeline_from_builtin_kills_shell:
  assumes "\<forall>k. w_malloc w k" and "6 \<le> w_nofile w" and "children_end w"
    and "good_args c1" and "c1 = [] \<or> is_builtin (hd c1)" and "good_args c2"
  shows "\<exists>t. main w (init_shell (print_line None [c1, c2] None T_NL @ rest) env) = (Exit 1, t)
     \<and> sh_stdin t = rest"
  using assms by (rule main_leak)

lemma pipeline_from_builtin_kills_shell_witness:
  "\<exists>t. main easy_world (init_shell (print_line None [[''set''], [''sort'']] None T_NL @ ''ls'') []) = (Exit 1, t)
     \<and> sh_stdin t = ''ls''"
  by (rule pipeline_from_builtin_kills_shell [OF easy_world_ok(1,3,4)])
     (simp_all add: good_args_def good_word_def no_nul_def runs_program_def is_builtin_def MAXARG_def MAXWORD_def)



text \<open>
A redirection that cannot be opened is ignored: the descriptors of the child are those it would have without
the redirection, and it runs.
\<close>

theorem redirect_ignores_failed_open:
  assumes "cstr srcfile = Some f" and "f \<noteq> []" and "\<not> w_open w k f"
  shows "redirect w k (- 1) srcfile STDOUT_FILENO (zeroed MAXFNAME) app bg std_fds = RedirOk std_fds"
proof -
  let ?t = std_fds and ?srcfd = "- 1 :: fd"
  have n: "?t (- 1) = None" "?t 0 = Some (Std 0)" "?t 1 = Some (Std 1)" "dom ?t = {0, 1, 2}"
    by (auto simp: std_fds_def split: if_splits)
  obtain d t1 where o: "open_named w k srcfile (\<lambda>p. Some (RdFile p)) ?srcfd ?t = Some (d, t1)" "move_fd d 0 t1 = ?t"
    using open_move [OF assms(1,2), of "\<lambda>p. Some (RdFile p)" "RdFile f" ?t 0 w k ?srcfd] assms(3) n(1,2) by auto
  have 1: "redirect_in w k ?srcfd srcfile bg ?t = Some ?t"
    using o assms(3) by (simp add: redirect_in_def)
  have "move_fd 1 1 ?t = ?t" by (simp add: move_fd_def)
  then have 2: "redirect_out w k 1 (zeroed MAXFNAME) app ?t = Some ?t"
    by (simp add: redirect_out_def open_unnamed)
  have "fd_check ?t = (True, [])" by (rule fd_check_clean) (simp add: n)
  with 1 2 show ?thesis by (simp add: redirect_halves)
qed

lemma redirect_ignores_failed_open_witness:
  "redirect (easy_world\<lparr>w_open := \<lambda>k p. False\<rparr>) 0 (- 1) (lit ''in'') STDOUT_FILENO (zeroed MAXFNAME)
     None False std_fds = RedirOk std_fds"
  by (rule redirect_ignores_failed_open [where f = "''in''"])
     (simp_all add: cstr_lit no_nul_def easy_world_def)

section \<open>Builtins and reports\<close>

text \<open>
An assignment \<open>NAME=VALUE\<close>, alone on its line, changes one variable and nothing else: afterwards \<open>getenv\<close> gives
the value for the name, and what it gave for every other.
\<close>

theorem assignment_sets_variable:
  assumes "n \<noteq> []" and "CHR ''='' \<notin> set n" and "v \<noteq> []"
  shows "\<exists>t. builtin w [n @ ''='' @ v] STDIN_FILENO STDOUT_FILENO s = (True, t)
     \<and> (\<forall>m. getenv m t = (if m = n then Some v else getenv m s))
     \<and> sh_trace t = sh_trace s \<and> same_resources s t"
proof -
  have "builtin w [n @ ''='' @ v] 0 1 s = (True, setenv n v s)"
    using asg_parts_assignment [OF assms] by (simp add: builtin_def asg_def)
  then show ?thesis
    by (intro exI [of _ "setenv n v s"]) (simp add: getenv_setenv, simp add: setenv_def same_resources_def)
qed

lemma assignment_sets_variable_witness:
  "\<exists>t. builtin easy_world [''X'' @ ''='' @ ''a=b''] STDIN_FILENO STDOUT_FILENO (init_shell [] [(''Y'', ''1'')]) = (True, t)
     \<and> (\<forall>m. getenv m t = (if m = ''X'' then Some ''a=b'' else getenv m (init_shell [] [(''Y'', ''1'')])))
     \<and> sh_trace t = sh_trace (init_shell [] [(''Y'', ''1'')]) \<and> same_resources (init_shell [] [(''Y'', ''1'')]) t"
  by (rule assignment_sets_variable) simp_all

text \<open>
The report of a child that ended: \<open>display_status\<close> recovers the exit value, or the number of the
signal, from the wait status the kernel encodes it in; and the number printed before the exit
value is the raw status, 256 times the exit value.
\<close>

theorem display_status_reports:
  assumes "sig \<noteq> 0"
  shows "display_status pid (exit_wstatus e) =
     (if pid \<noteq> 0 then ''Process '' @ show_int pid @ '': '' else [])
     @ ''Exit value '' @ show_int (256 * uint e) @ '' '' @ show_int (uint e) @ [NL]
   \<and> display_status pid (kill_wstatus sig core) =
     (if pid \<noteq> 0 then ''Process '' @ show_int pid @ '': '' else [])
     @ ''Killed by signal: '' @ show_int (uint sig) @ [NL]"
  using assms by (simp add: display_status_def sint_exit_wstatus sint_ucast8 sint_ucast7 WIFEXITED_kill)

lemma display_status_reports_witness:
  "display_status 7 (exit_wstatus 2) = ''Process 7: Exit value 512 2'' @ [NL]
   \<and> display_status 7 (kill_wstatus 9 True) = ''Process 7: Killed by signal: 9'' @ [NL]"
proof -
  have "show_int 7 = ''7''" "show_int 512 = ''512''" "show_int 2 = ''2''" "show_int 9 = ''9''"
    by code_simp+
  then show ?thesis using display_status_reports [of 9 7 2 True] by simp
qed

end
