(* ===== verification/PipeNet.thy ===== *)
theory PipeNet
  imports Posix
begin

text \<open>
  Several processes that run at the same time and read and write through their descriptor tables: what POSIX documents of
  \<open>read\<close>, \<open>write\<close>, the pipes between them and the end of a process.  A pipe holds at most \<open>cap\<close> characters, a read waits
  while the pipe is empty and somebody has a write end open and gives the end of the file when nobody has, a write waits while there is no
  room and kills the writer when nobody can read.  The programs that the repository's programs execute are not in it;
  they enter as the state of a process.
\<close>

section \<open>Processes\<close>

text \<open>
  A program as the rest of the world sees it: what it writes as a function of what it reads before the end of its
  input.  How it divides its work is left open: after the characters \<open>c\<close> it may have written any part of its output that
  does not depend on the rest of the input, and may stop to read when nothing depends on it.  A process is
  at work, with the text it still has to write before it reads again; or it writes nothing before it has read everything (as \<open>sort\<close> must) and
  has read \<open>c\<close>; or it does not read any more; or it has exited or was killed by \<open>SIGPIPE\<close>.
\<close>

datatype pstate =
    Works "string \<Rightarrow> string" string
  | Gathers "string \<Rightarrow> string" string
  | Flushes string
  | Done
  | Signalled

record proc =
  pr_fds :: fdtable
  pr_in :: fd       \<comment> \<open>the descriptor it reads\<close>
  pr_out :: fd      \<comment> \<open>the descriptor it writes\<close>
  pr_state :: pstate

definition gone :: "pstate \<Rightarrow> bool" where
  "gone q \<longleftrightarrow> q = Done \<or> q = Signalled"

fun to_write :: "pstate \<Rightarrow> string" where
  "to_write (Works g w) = w"
| "to_write (Flushes w) = w"
| "to_write q = []"

fun has_to_write :: "string \<Rightarrow> pstate \<Rightarrow> pstate" where
  "has_to_write w (Works g v) = Works g w"
| "has_to_write w (Flushes v) = Flushes w"
| "has_to_write w q = q"

text \<open>What may become of a process that reads \<open>c\<close>, the end of its input, or stops to read.\<close>

inductive takes :: "string \<Rightarrow> pstate \<Rightarrow> pstate \<Rightarrow> bool" for c where
  t_works: "\<forall>x. g (c @ x) = w @ g' x \<Longrightarrow> takes c (Works g []) (Works g' w)"
| t_gathers: "takes c (Gathers g a) (Gathers g (a @ c))"

fun at_eof :: "pstate \<Rightarrow> pstate option" where
  "at_eof (Works g []) = Some (Flushes (g []))"
| "at_eof (Gathers g a) = Some (Flushes (g a))"
| "at_eof q = None"

inductive stops :: "pstate \<Rightarrow> pstate \<Rightarrow> bool" where
  "\<forall>x. g x = w \<Longrightarrow> stops (Works g []) (Flushes w)"

section \<open>The network\<close>

text \<open>What is in the pipes, what is left to read of the other open files, and what was written to them.\<close>

record net =
  nt_procs :: "proc list"
  nt_pipes :: "nat \<Rightarrow> string"
  nt_files :: "ofile \<Rightarrow> string"
  nt_sinks :: "ofile \<Rightarrow> string"

definition is_source :: "ofile \<Rightarrow> bool" where
  "is_source f \<longleftrightarrow> (case f of PipeW k \<Rightarrow> False | WrFile p a \<Rightarrow> False | _ \<Rightarrow> True)"

definition is_sink :: "ofile \<Rightarrow> bool" where
  "is_sink f \<longleftrightarrow> (case f of PipeR k \<Rightarrow> False | RdFile p \<Rightarrow> False | _ \<Rightarrow> True)"

definition content :: "net \<Rightarrow> ofile \<Rightarrow> string" where
  "content s f = (case f of PipeR k \<Rightarrow> nt_pipes s k | _ \<Rightarrow> nt_files s f)"

definition set_content :: "ofile \<Rightarrow> string \<Rightarrow> net \<Rightarrow> net" where
  "set_content f r s = (case f of
       PipeR k \<Rightarrow> s\<lparr>nt_pipes := (nt_pipes s)(k := r)\<rparr>
     | _ \<Rightarrow> s\<lparr>nt_files := (nt_files s)(f := r)\<rparr>)"

definition deliver :: "ofile \<Rightarrow> string \<Rightarrow> net \<Rightarrow> net" where
  "deliver f c s = (case f of
       PipeW k \<Rightarrow> s\<lparr>nt_pipes := (nt_pipes s)(k := nt_pipes s k @ c)\<rparr>
     | _ \<Rightarrow> s\<lparr>nt_sinks := (nt_sinks s)(f := nt_sinks s f @ c)\<rparr>)"

text \<open>Whether a process of the network, or another one, has the file open; \<open>others\<close> are the tables of processes that only wait.\<close>

definition is_open :: "fdtable list \<Rightarrow> net \<Rightarrow> ofile \<Rightarrow> bool" where
  "is_open others s f \<longleftrightarrow> (\<exists>t \<in> set (others @ map pr_fds (nt_procs s)). f \<in> ran t)"

definition at_end :: "fdtable list \<Rightarrow> net \<Rightarrow> ofile \<Rightarrow> bool" where
  "at_end others s f \<longleftrightarrow> content s f = [] \<and> (\<forall>k. f = PipeR k \<longrightarrow> \<not> is_open others s (PipeW k))"

text \<open>A pipe takes what fits its capacity, as long as somebody can read it.\<close>

definition accepts :: "nat \<Rightarrow> fdtable list \<Rightarrow> net \<Rightarrow> ofile \<Rightarrow> string \<Rightarrow> bool" where
  "accepts cap others s f c \<longleftrightarrow>
     is_sink f \<and> (\<forall>k. f = PipeW k \<longrightarrow> is_open others s (PipeR k) \<and> length (nt_pipes s k) + length c \<le> cap)"

abbreviation proc_at :: "net \<Rightarrow> nat \<Rightarrow> proc" where
  "proc_at s i \<equiv> nt_procs s ! i"

abbreviation state_at :: "net \<Rightarrow> nat \<Rightarrow> pstate" where
  "state_at s i \<equiv> pr_state (nt_procs s ! i)"

abbreviation reads_from :: "net \<Rightarrow> nat \<Rightarrow> ofile option" where
  "reads_from s i \<equiv> pr_fds (proc_at s i) (pr_in (proc_at s i))"

abbreviation writes_to :: "net \<Rightarrow> nat \<Rightarrow> ofile option" where
  "writes_to s i \<equiv> pr_fds (proc_at s i) (pr_out (proc_at s i))"

definition set_state :: "nat \<Rightarrow> pstate \<Rightarrow> net \<Rightarrow> net" where
  "set_state i q s = s\<lparr>nt_procs := (nt_procs s)[i := (proc_at s i)\<lparr>pr_state := q\<rparr>]\<rparr>"

text \<open>The end of a process closes its descriptors.\<close>

definition retire :: "nat \<Rightarrow> pstate \<Rightarrow> net \<Rightarrow> net" where
  "retire i q s = s\<lparr>nt_procs := (nt_procs s)[i := (proc_at s i)\<lparr>pr_state := q, pr_fds := Map.empty\<rparr>]\<rparr>"

section \<open>What a process may do next\<close>

inductive net_move :: "nat \<Rightarrow> fdtable list \<Rightarrow> nat \<Rightarrow> net \<Rightarrow> net \<Rightarrow> bool" for cap others i s where
  m_read: "i < length (nt_procs s) \<Longrightarrow> reads_from s i = Some f \<Longrightarrow> is_source f \<Longrightarrow> content s f = c @ r \<Longrightarrow> c \<noteq> [] \<Longrightarrow>
     takes c (state_at s i) q \<Longrightarrow>
     net_move cap others i s (set_state i q (set_content f r s))"
| m_end: "i < length (nt_procs s) \<Longrightarrow> reads_from s i = Some f \<Longrightarrow> is_source f \<Longrightarrow> at_end others s f \<Longrightarrow>
     at_eof (state_at s i) = Some q \<Longrightarrow>
     net_move cap others i s (set_state i q s)"
| m_stop: "i < length (nt_procs s) \<Longrightarrow> stops (state_at s i) q \<Longrightarrow>
     net_move cap others i s (set_state i q s)"
| m_write: "i < length (nt_procs s) \<Longrightarrow> to_write (state_at s i) = c @ r \<Longrightarrow> c \<noteq> [] \<Longrightarrow> writes_to s i = Some f \<Longrightarrow>
     accepts cap others s f c \<Longrightarrow>
     net_move cap others i s (set_state i (has_to_write r (state_at s i)) (deliver f c s))"
| m_sigpipe: "i < length (nt_procs s) \<Longrightarrow> to_write (state_at s i) \<noteq> [] \<Longrightarrow> writes_to s i = Some (PipeW k) \<Longrightarrow>
     \<not> is_open others s (PipeR k) \<Longrightarrow>
     net_move cap others i s (retire i Signalled s)"
| m_exit: "i < length (nt_procs s) \<Longrightarrow> state_at s i = Flushes [] \<Longrightarrow>
     net_move cap others i s (retire i Done s)"

inductive_cases takesE: "takes c p q"
inductive_cases stopsE: "stops p q"

definition net_step :: "nat \<Rightarrow> fdtable list \<Rightarrow> net \<Rightarrow> net \<Rightarrow> bool" where
  "net_step cap others s t \<longleftrightarrow> (\<exists>i. net_move cap others i s t)"

lemma net_move_step: "net_move cap others i s t \<Longrightarrow> net_step cap others s t"
  by (auto simp: net_step_def)

section \<open>Selectors after an update\<close>

lemma set_content_fields [simp]:
  "nt_procs (set_content f r s) = nt_procs s" "nt_sinks (set_content f r s) = nt_sinks s"
  by (simp_all add: set_content_def split: ofile.split)

lemma content_set_content [simp]:
  "is_source f \<Longrightarrow> content (set_content f r s) h = (if h = f then r else content s h)"
  by (auto simp: set_content_def content_def is_source_def split: ofile.splits)

lemma deliver_fields [simp]:
  "nt_procs (deliver f c s) = nt_procs s" "nt_files (deliver f c s) = nt_files s"
  by (simp_all add: deliver_def split: ofile.split)

lemma content_deliver:
  "content (deliver f c s) h = (if \<exists>k. f = PipeW k \<and> h = PipeR k then content s h @ c else content s h)"
  by (auto simp: deliver_def content_def split: ofile.split)

lemma sinks_deliver:
  "nt_sinks (deliver f c s) h = (if h = f \<and> (\<nexists>k. f = PipeW k) then nt_sinks s h @ c else nt_sinks s h)"
  by (auto simp: deliver_def split: ofile.split)

lemma set_state_fields [simp]:
  "nt_pipes (set_state i q s) = nt_pipes s" "nt_files (set_state i q s) = nt_files s" "nt_sinks (set_state i q s) = nt_sinks s"
  "content (set_state i q s) = content s" "length (nt_procs (set_state i q s)) = length (nt_procs s)"
  "i < length (nt_procs s) \<Longrightarrow> nt_procs (set_state i q s) ! j = (if j = i then (proc_at s i)\<lparr>pr_state := q\<rparr> else proc_at s j)"
  by (auto simp: set_state_def content_def fun_eq_iff nth_list_update split: ofile.split)

lemma retire_fields [simp]:
  "nt_pipes (retire i q s) = nt_pipes s" "nt_files (retire i q s) = nt_files s" "nt_sinks (retire i q s) = nt_sinks s"
  "content (retire i q s) = content s" "length (nt_procs (retire i q s)) = length (nt_procs s)"
  "i < length (nt_procs s) \<Longrightarrow> nt_procs (retire i q s) ! j = (if j = i then (proc_at s i)\<lparr>pr_state := q, pr_fds := Map.empty\<rparr> else proc_at s j)"
  by (auto simp: retire_def content_def fun_eq_iff nth_list_update split: ofile.split)

lemma gone_simps [simp]: "gone Done" "gone Signalled" "\<not> gone (Works g w)" "\<not> gone (Gathers g w)" "\<not> gone (Flushes w)"
  by (simp_all add: gone_def)

lemma at_eof_cases:
  "at_eof p = Some q \<longleftrightarrow> (\<exists>g. p = Works g [] \<and> q = Flushes (g [])) \<or> (\<exists>g a. p = Gathers g a \<and> q = Flushes (g a))"
  by (cases p rule: at_eof.cases) auto

lemma has_to_write_Signalled [simp]: "has_to_write r p = Signalled \<longleftrightarrow> p = Signalled"
  by (cases p) simp_all

lemma to_write_gone [simp]: "gone q \<Longrightarrow> to_write q = []"
  by (auto simp: gone_def)

lemma is_open_proc: "j < length (nt_procs s) \<Longrightarrow> pr_fds (proc_at s j) d = Some f \<Longrightarrow> is_open others s f"
  unfolding is_open_def by (auto intro!: bexI [of _ "pr_fds (proc_at s j)"] ranI)

end
