(* ===== verification/Runs.thy ===== *)
theory Runs
  imports Main
begin

text \<open>
  Runs of the concurrent programs: what it means that every run ends well, and how the components show it, by an
  invariant and a number that every step lowers.
\<close>

text \<open>Every run from \<open>s\<close> ends, and where it ends \<open>Q\<close> holds.\<close>

definition always_ends :: "('s \<Rightarrow> 's \<Rightarrow> bool) \<Rightarrow> 's \<Rightarrow> ('s \<Rightarrow> bool) \<Rightarrow> bool" where
  "always_ends R s Q \<longleftrightarrow> (\<nexists>run. run 0 = s \<and> (\<forall>i. R (run i) (run (Suc i)))) \<and> (\<forall>t. R\<^sup>*\<^sup>* s t \<longrightarrow> (\<nexists>u. R t u) \<longrightarrow> Q t)"

lemma always_ends_mono: "always_ends R s P \<Longrightarrow> (\<And>t. P t \<Longrightarrow> Q t) \<Longrightarrow> always_ends R s Q"
  unfolding always_ends_def by blast

text \<open>There is a run to an end.\<close>

lemma always_ends_somewhere:
  assumes "always_ends R s Q"
  shows "\<exists>t. R\<^sup>*\<^sup>* s t \<and> (\<nexists>u. R t u) \<and> Q t"
proof (rule ccontr)
  assume none: "\<nexists>t. R\<^sup>*\<^sup>* s t \<and> (\<nexists>u. R t u) \<and> Q t"
  then have go: "R\<^sup>*\<^sup>* s t \<Longrightarrow> \<exists>u. R t u" for t using assms unfolding always_ends_def by blast
  have "\<exists>run. run 0 = s \<and> (\<forall>i. R\<^sup>*\<^sup>* s (run i)) \<and> (\<forall>i. R (run i) (run (Suc i)))"
    using dependent_nat_choice [of "\<lambda>i t. R\<^sup>*\<^sup>* s t \<and> (i = 0 \<longrightarrow> t = s)" "\<lambda>i. R"] go
    by (metis (no_types, lifting) nat.distinct(1) rtranclp.simps)
  then show False using assms unfolding always_ends_def by blast
qed

text \<open>
  The interface: \<open>I\<close> holds in the states that are reached, and every step lowers \<open>m\<close>, a number or, where a step may make work that
  nobody could have counted before, several in their lexicographic order.
\<close>

locale ranked_system =
  fixes R :: "'s \<Rightarrow> 's \<Rightarrow> bool" and I :: "'s \<Rightarrow> bool" and m :: "'s \<Rightarrow> 'r::wellorder"
  assumes keeps: "I s \<Longrightarrow> R s t \<Longrightarrow> I t" and lowers: "I s \<Longrightarrow> R s t \<Longrightarrow> m t < m s"
begin

lemma reached: "R\<^sup>*\<^sup>* s t \<Longrightarrow> I s \<Longrightarrow> I t"
  by (induction rule: rtranclp_induct) (auto intro: keeps)

lemma no_endless_run:
  assumes "I (run 0)"
  shows "\<exists>i. \<not> R (run i) (run (Suc i))"
proof (rule ccontr)
  assume "\<nexists>i. \<not> R (run i) (run (Suc i))"
  then have go: "R (run i) (run (Suc i))" for i by blast
  have "I (run i)" for i by (induction i) (use assms keeps [OF _ go] in auto)
  then have down: "m (run (Suc i)) < m (run i)" for i by (rule lowers [OF _ go])
  have "\<nexists>i. m (run i) = r" for r
    by (induction r rule: less_induct) (use down in blast)
  then show False by blast
qed

lemma ends:
  assumes "I s" and "\<And>t. I t \<Longrightarrow> \<nexists>u. R t u \<Longrightarrow> Q t"
  shows "always_ends R s Q"
  unfolding always_ends_def using no_endless_run reached [OF _ assms(1)] assms by metis

end

end
