(* ===== verification/PipeChain.thy ===== *)
theory PipeChain
  imports PipeNet Runs
begin

text \<open>
  Processes in a row, each writing the pipe that the following one reads.  Every move keeps what the last one will
  have written in the end (\<open>outcome\<close>) and leaves less to do (\<open>row_rank\<close>); while somebody has not ended, somebody can
  move, if nobody else holds an end of the pipes (\<open>tidy\<close>).  So every run ends with the outcome (\<open>row_ends\<close>), which is the composition of
  the programs when the pipes are empty at the start (\<open>started_row_ends\<close>).
\<close>

section \<open>What flows\<close>

text \<open>What a process will still write when \<open>x\<close> is all it is going to read.\<close>

fun flow :: "pstate \<Rightarrow> string \<Rightarrow> string" where
  "flow (Works g w) x = w @ g x"
| "flow (Gathers g a) x = g (a @ x)"
| "flow (Flushes w) x = w"
| "flow Done x = []"
| "flow Signalled x = []"

text \<open>Of reading, writing and exiting, what it still has to do.\<close>

fun phase :: "pstate \<Rightarrow> nat" where
  "phase (Works g w) = 2"
| "phase (Gathers g a) = 2"
| "phase (Flushes w) = 1"
| "phase q = 0"

text \<open>
  Processes in a row: \<open>b j\<close> is what is left of the file that process \<open>j\<close> reads and \<open>q j\<close> its state; \<open>inflow b q j\<close> is all that it is going to find
  there.
\<close>

primrec inflow :: "(nat \<Rightarrow> string) \<Rightarrow> (nat \<Rightarrow> pstate) \<Rightarrow> nat \<Rightarrow> string" where
  "inflow b q 0 = b 0"
| "inflow b q (Suc j) = b (Suc j) @ flow (q j) (inflow b q j)"

lemma inflow_read:
  assumes "b i = c @ r" and "\<forall>x. flow (q i) (c @ x) = flow p x"
  shows "inflow b q j = (if j = i then c else []) @ inflow (b(i := r)) (q(i := p)) j"
proof (induction j)
  case (Suc j)
  then show ?case using assms by (cases "j = i") auto
qed (use assms in auto)

lemma inflow_keep:
  assumes "flow p (inflow b q i) = flow (q i) (inflow b q i)"
  shows "inflow b (q(i := p)) j = inflow b q j"
  by (induction j) (use assms in auto)

lemma inflow_write:
  assumes "\<forall>x. flow (q i) x = c @ flow p x"
  shows "inflow (b(Suc i := b (Suc i) @ c)) (q(i := p)) j = inflow b q j"
  by (induction j) (use assms in auto)

lemma inflow_before: "j \<le> i \<Longrightarrow> inflow b (q(i := p)) j = inflow b q j"
  by (induction j) auto

lemma inflow_kill:
  assumes "gone (q (Suc i))"
  shows "inflow b (q(i := Signalled)) j = (if j = Suc i then b j else inflow b q j)"
proof (induction j)
  case (Suc j)
  then show ?case using assms by (auto simp: gone_def)
qed simp

lemma flow_gone [simp]: "gone p \<Longrightarrow> flow p x = []"
  by (auto simp: gone_def)

lemma flow_takes: "takes c p q \<Longrightarrow> flow q x = flow p (c @ x) \<and> phase q = phase p \<and> \<not> gone p \<and> \<not> gone q"
  by (induction rule: takes.induct) auto

lemma flow_at_eof: "at_eof p = Some q \<Longrightarrow> flow q x = flow p [] \<and> phase q < phase p \<and> \<not> gone p \<and> \<not> gone q"
  by (auto simp: at_eof_cases)

lemma flow_stops: "stops p q \<Longrightarrow> flow q x = flow p x \<and> phase q < phase p \<and> \<not> gone p \<and> \<not> gone q"
  by (induction rule: stops.induct) auto

lemma flow_has_to_write: "to_write p = c @ r \<Longrightarrow> flow p x = c @ flow (has_to_write r p) x"
  by (cases p) auto

section \<open>A row of processes\<close>

text \<open>
  The files: process \<open>i\<close> reads \<open>inp i\<close> and writes \<open>dst i\<close>, and these are the two ends of one pipe for
  neighbours.
\<close>

definition row :: "nat \<Rightarrow> (nat \<Rightarrow> ofile) \<Rightarrow> (nat \<Rightarrow> ofile) \<Rightarrow> bool" where
  "row n inp dst \<longleftrightarrow> 0 < n \<and> inj_on inp {..<n} \<and> (\<forall>i<n. is_source (inp i)) \<and> is_sink (dst (n - 1))
     \<and> (\<forall>k. inp 0 \<noteq> PipeR k) \<and> (\<forall>k. dst (n - 1) \<noteq> PipeW k) \<and> (\<forall>i. Suc i < n \<longrightarrow> (\<exists>k. dst i = PipeW k \<and> inp (Suc i) = PipeR k))"

definition in_row :: "nat \<Rightarrow> (nat \<Rightarrow> ofile) \<Rightarrow> (nat \<Rightarrow> ofile) \<Rightarrow> net \<Rightarrow> bool" where
  "in_row n inp dst s \<longleftrightarrow> length (nt_procs s) = n
     \<and> (\<forall>i<n. \<not> gone (state_at s i) \<longrightarrow> reads_from s i = Some (inp i) \<and> writes_to s i = Some (dst i))
     \<and> (\<forall>i<n. gone (state_at s i) \<longrightarrow> pr_fds (proc_at s i) = Map.empty)"

definition states :: "nat \<Rightarrow> net \<Rightarrow> nat \<Rightarrow> pstate" where
  "states n s i = (if i < n then state_at s i else Done)"

definition left_in :: "nat \<Rightarrow> (nat \<Rightarrow> ofile) \<Rightarrow> net \<Rightarrow> nat \<Rightarrow> string" where
  "left_in n inp s i = (if i < n then content s (inp i) else [])"

abbreviation finds :: "nat \<Rightarrow> (nat \<Rightarrow> ofile) \<Rightarrow> net \<Rightarrow> nat \<Rightarrow> string" where
  "finds n inp s \<equiv> inflow (left_in n inp s) (states n s)"

text \<open>What the last process will have written in the end.\<close>

definition outcome :: "nat \<Rightarrow> (nat \<Rightarrow> ofile) \<Rightarrow> (nat \<Rightarrow> ofile) \<Rightarrow> net \<Rightarrow> string" where
  "outcome n inp dst s = nt_sinks s (dst (n - 1)) @ flow (states n s (n - 1)) (finds n inp s (n - 1))"

text \<open>How much is left to do.\<close>

definition weight :: "nat \<Rightarrow> (nat \<Rightarrow> ofile) \<Rightarrow> net \<Rightarrow> nat \<Rightarrow> nat" where
  "weight n inp s i = length (finds n inp s i) + length (flow (states n s i) (finds n inp s i)) + phase (states n s i)"

definition row_rank :: "nat \<Rightarrow> (nat \<Rightarrow> ofile) \<Rightarrow> net \<Rightarrow> nat" where
  "row_rank n inp s = (\<Sum>i<n. weight n inp s i)"

lemma rank_less:
  assumes "\<And>j. weight n inp t j \<le> weight n inp s j" and "i < n" and "weight n inp t i < weight n inp s i"
  shows "row_rank n inp t < row_rank n inp s"
  unfolding row_rank_def using assms by (intro sum_strict_mono_ex1) auto

lemma states_set_state: "i < n \<Longrightarrow> length (nt_procs s) = n \<Longrightarrow> states n (set_state i p s) = (states n s)(i := p)"
  by (auto simp: states_def)

lemma states_retire: "i < n \<Longrightarrow> length (nt_procs s) = n \<Longrightarrow> states n (retire i p s) = (states n s)(i := p)"
  by (auto simp: states_def)

lemma states_other [simp]: "states n (set_content f r s) = states n s" "states n (deliver f c s) = states n s"
  by (auto simp: states_def)

lemma left_in_state [simp]: "left_in n inp (set_state i p s) = left_in n inp s" "left_in n inp (retire i p s) = left_in n inp s"
  by (auto simp: left_in_def)

lemma left_in_read:
  "row n inp dst \<Longrightarrow> i < n \<Longrightarrow> left_in n inp (set_content (inp i) r s) = (left_in n inp s)(i := r)"
  by (auto simp: left_in_def row_def inj_on_def)

lemma left_in_write:
  assumes "row n inp dst" and "i < n"
  shows "left_in n inp (deliver (dst i) c s) =
    (if Suc i < n then (left_in n inp s)(Suc i := left_in n inp s (Suc i) @ c) else left_in n inp s)"
proof (cases "Suc i < n")
  case True
  then obtain k where k: "dst i = PipeW k" "inp (Suc i) = PipeR k" using assms by (auto simp: row_def)
  have "inp j = PipeR k \<longleftrightarrow> j = Suc i" if "j < n" for j
    using k(2) inj_onD [of inp "{..<n}" j "Suc i"] assms that True by (auto simp: row_def)
  with k True show ?thesis by (auto simp: left_in_def content_deliver)
next
  case False
  then have "i = n - 1" using assms(2) by auto
  with assms False show ?thesis by (auto simp: left_in_def content_deliver row_def fun_eq_iff)
qed

section \<open>One move\<close>

lemma in_row_live:
  assumes "in_row n inp dst s" and "i < n" and "\<not> gone (state_at s i)"
  shows "reads_from s i = Some (inp i)" "writes_to s i = Some (dst i)" "is_open others s (inp i)" "is_open others s (dst i)"
proof -
  show "reads_from s i = Some (inp i)" "writes_to s i = Some (dst i)" using assms by (simp_all add: in_row_def)
  with assms show "is_open others s (inp i)" "is_open others s (dst i)" by (auto intro: is_open_proc simp: in_row_def)
qed

text \<open>The reader of a pipe whose writer is killed is gone.\<close>

lemma killed_reader_gone:
  assumes r: "row n inp dst" and i: "in_row n inp dst s" and "i < n" and w: "dst i = PipeW k"
    and o: "\<not> is_open others s (PipeR k)"
  shows "Suc i < n" and "gone (states n s (Suc i))"
proof -
  have "i \<noteq> n - 1" using w r by (auto simp: row_def)
  then show l: "Suc i < n" using \<open>i < n\<close> by auto
  then have "inp (Suc i) = PipeR k" using r w by (auto simp: row_def)
  then show "gone (states n s (Suc i))"
    using in_row_live(3) [OF i l, of others] o l by (auto simp: states_def)
qed

text \<open>A reader at the end of its file: nothing comes any more.\<close>

lemma end_finds_nothing:
  assumes r: "row n inp dst" and i: "in_row n inp dst s" and "i < n" and e: "at_end others s (inp i)"
  shows "finds n inp s i = []"
proof (cases i)
  case 0
  then show ?thesis using e \<open>i < n\<close> by (simp add: at_end_def left_in_def)
next
  case (Suc m)
  then obtain k where k: "dst m = PipeW k" "inp i = PipeR k" using r \<open>i < n\<close> by (auto simp: row_def)
  have "gone (state_at s m)"
    using in_row_live(4) [OF i, of m others] e k Suc \<open>i < n\<close> by (auto simp: at_end_def)
  then show ?thesis using Suc e \<open>i < n\<close> by (auto simp: at_end_def left_in_def states_def gone_def)
qed

text \<open>A process that comes nearer to its exit and still writes the same.\<close>

lemma still_flows:
  assumes "i < n" and "states n t = (states n s)(i := p)" and "left_in n inp t = left_in n inp s" and "nt_sinks t = nt_sinks s"
    and f: "flow p (finds n inp s i) = flow (states n s i) (finds n inp s i)" and "phase p < phase (states n s i)"
  shows "outcome n inp dst t = outcome n inp dst s" and "\<forall>j. weight n inp t j \<le> weight n inp s j" and "weight n inp t i < weight n inp s i"
proof -
  have fl: "finds n inp t j = finds n inp s j" for j
    unfolding assms(2,3) by (rule inflow_keep [of p "left_in n inp s" "states n s" i, OF f])
  have fs: "flow (states n t j) (finds n inp s j) = flow (states n s j) (finds n inp s j)" for j
    unfolding assms(2) using f by auto
  have ph: "phase (states n t j) \<le> phase (states n s j)" "phase (states n t i) < phase (states n s i)" for j
    unfolding assms(2) using assms(6) by auto
  show "outcome n inp dst t = outcome n inp dst s" unfolding outcome_def fl fs assms(4) ..
  show "\<forall>j. weight n inp t j \<le> weight n inp s j" "weight n inp t i < weight n inp s i"
    unfolding weight_def fl fs using ph by auto
qed

text \<open>A move of process \<open>i\<close> from \<open>s\<close> to \<open>t\<close>: nothing is lost, nobody has more to do, and \<open>i\<close> has less.\<close>

abbreviation forward :: "nat \<Rightarrow> (nat \<Rightarrow> ofile) \<Rightarrow> (nat \<Rightarrow> ofile) \<Rightarrow> nat \<Rightarrow> net \<Rightarrow> net \<Rightarrow> bool" where
  "forward n inp dst i s t \<equiv> in_row n inp dst t \<and> outcome n inp dst t = outcome n inp dst s
     \<and> (\<forall>j. weight n inp t j \<le> weight n inp s j) \<and> weight n inp t i < weight n inp s i"

lemma row_read:
  assumes r: "row n inp dst" and s: "in_row n inp dst s" and i: "i < n"
    and c: "content s (inp i) = c @ rr" "c \<noteq> []" and q: "takes c (state_at s i) q"
  shows "forward n inp dst i s (set_state i q (set_content (inp i) rr s))" (is "forward n inp dst i s ?t")
proof -
  have n: "length (nt_procs s) = n" using s by (simp add: in_row_def)
  have st: "states n ?t = (states n s)(i := q)" "left_in n inp ?t = (left_in n inp s)(i := rr)"
    using i n left_in_read [OF r i] by (simp_all add: states_set_state)
  have qs: "flow (states n s i) (c @ x) = flow q x" "phase q = phase (states n s i)" for x
    using flow_takes [OF q] i by (simp_all add: states_def)
  have fl: "finds n inp s j = (if j = i then c else []) @ finds n inp ?t j" for j
    unfolding st by (rule inflow_read) (use qs c i in \<open>auto simp: left_in_def\<close>)
  have fs: "flow (states n ?t j) (finds n inp ?t j) = flow (states n s j) (finds n inp s j)" for j
    using fl [of j] qs by (auto simp: st(1))
  have ph: "phase (states n ?t j) = phase (states n s j)" for j using qs by (auto simp: st(1))
  have "nt_sinks ?t = nt_sinks s" by simp
  then have "outcome n inp dst ?t = outcome n inp dst s" unfolding outcome_def fs by simp
  moreover have "in_row n inp dst ?t" using s flow_takes [OF q] i n by (auto simp: in_row_def)
  moreover have "\<forall>j. weight n inp ?t j \<le> weight n inp s j" "weight n inp ?t i < weight n inp s i"
    unfolding weight_def fs ph using fl c(2) by auto
  ultimately show ?thesis by blast
qed

lemma row_on:
  assumes s: "in_row n inp dst s" and i: "i < n" and t: "t = set_state i p s \<and> \<not> gone p \<or> t = retire i Done s \<and> p = Done"
    and f: "flow p (finds n inp s i) = flow (state_at s i) (finds n inp s i)" and "phase p < phase (state_at s i)" and "\<not> gone (state_at s i)"
  shows "forward n inp dst i s t"
proof -
  have n: "length (nt_procs s) = n" using s by (simp add: in_row_def)
  have st: "states n t = (states n s)(i := p)" "left_in n inp t = left_in n inp s" "nt_sinks t = nt_sinks s"
    using t i n by (auto simp: states_set_state states_retire)
  have "in_row n inp dst t" using s t i n assms(6) by (auto simp: in_row_def)
  then show ?thesis using still_flows [OF i st] f assms(5) i by (simp add: states_def)
qed

lemma row_write_next:
  assumes r: "row n inp dst" and s: "in_row n inp dst s" and i: "Suc i < n"
    and c: "to_write (state_at s i) = c @ rr" "c \<noteq> []"
  shows "forward n inp dst i s (set_state i (has_to_write rr (state_at s i)) (deliver (dst i) c s))" (is "forward n inp dst i s ?t")
proof -
  let ?p = "has_to_write rr (state_at s i)"
  have n: "length (nt_procs s) = n" using s by (simp add: in_row_def)
  have p: "phase ?p = phase (state_at s i)" "\<not> gone (state_at s i)" "\<not> gone ?p" using c by (cases "state_at s i"; simp)+
  have sti: "states n s i = state_at s i" using i by (simp add: states_def)
  have fw: "flow (states n s i) x = c @ flow ?p x" for x using flow_has_to_write [OF c(1)] sti by simp
  have st: "states n ?t = (states n s)(i := ?p)" using i n by (simp add: states_set_state)
  have lt: "left_in n inp ?t = (left_in n inp s)(Suc i := left_in n inp s (Suc i) @ c)"
    using left_in_write [OF r, of i c s] i by simp
  have fl: "finds n inp ?t j = finds n inp s j" for j
    unfolding st lt by (rule inflow_write) (use fw in simp)
  have "nt_sinks ?t (dst (n - 1)) = nt_sinks s (dst (n - 1))" using i r by (auto simp: sinks_deliver row_def)
  then have "outcome n inp dst ?t = outcome n inp dst s" unfolding outcome_def fl using i less_imp_diff_less by (auto simp: st)
  moreover have "in_row n inp dst ?t" using s i n p by (auto simp: in_row_def)
  moreover have "\<forall>j. weight n inp ?t j \<le> weight n inp s j" "weight n inp ?t i < weight n inp s i"
    unfolding weight_def fl using fw p c(2) sti by (auto simp: st)
  ultimately show ?thesis by blast
qed

lemma row_write_last:
  assumes r: "row n inp dst" and s: "in_row n inp dst s" and l: "Suc i = n"
    and c: "to_write (state_at s i) = c @ rr" "c \<noteq> []"
  shows "forward n inp dst i s (set_state i (has_to_write rr (state_at s i)) (deliver (dst i) c s))" (is "forward n inp dst i s ?t")
proof -
  let ?p = "has_to_write rr (state_at s i)"
  have n: "length (nt_procs s) = n" using s by (simp add: in_row_def)
  have p: "phase ?p = phase (state_at s i)" "\<not> gone (state_at s i)" "\<not> gone ?p" using c by (cases "state_at s i"; simp)+
  have sti: "states n s i = state_at s i" using l by (simp add: states_def)
  have fw: "flow (states n s i) x = c @ flow ?p x" for x using flow_has_to_write [OF c(1)] sti by simp
  have st: "states n ?t = (states n s)(i := ?p)" using l n by (simp add: states_set_state)
  have lt: "left_in n inp ?t = left_in n inp s" using left_in_write [OF r, of i c s] l by simp
  have fl: "finds n inp ?t j = finds n inp s j" if "j < n" for j
    unfolding st lt using l that by (simp add: inflow_before)
  have "nt_sinks ?t (dst (n - 1)) = nt_sinks s (dst (n - 1)) @ c" using r l by (auto simp: sinks_deliver row_def)
  then have "outcome n inp dst ?t = outcome n inp dst s" unfolding outcome_def using fl [of i] fw l by (auto simp: st)
  moreover have "in_row n inp dst ?t" using s l n p by (auto simp: in_row_def)
  moreover have "weight n inp ?t j \<le> weight n inp s j" for j
  proof (cases "j < n")
    case False
    then obtain m where m: "j = Suc m" "i \<le> m" using l by (cases j) auto
    then have z: "left_in n inp u (Suc m) = []" "states n u (Suc m) = Done" for u
      using l by (simp_all add: left_in_def states_def)
    have "length (flow (states n ?t m) (finds n inp ?t m)) \<le> length (flow (states n s m) (finds n inp s m))"
    proof (cases "m = i")
      case True
      then show ?thesis using fl [of i] l fw by (simp add: st)
    next
      case False
      then have "states n u m = Done" for u using m(2) l by (simp add: states_def)
      then show ?thesis by simp
    qed
    then show ?thesis unfolding weight_def m(1) inflow.simps z by simp
  qed (use fl fw p sti in \<open>auto simp: weight_def st\<close>)
  moreover have "weight n inp ?t i < weight n inp s i"
    unfolding weight_def using fl [of i] l fw p c(2) sti by (simp add: st)
  ultimately show ?thesis by blast
qed

lemma row_kill:
  assumes r: "row n inp dst" and s: "in_row n inp dst s" and i: "i < n" and w: "dst i = PipeW k"
    and o: "\<not> is_open others s (PipeR k)" and ng: "\<not> gone (state_at s i)"
  shows "forward n inp dst i s (retire i Signalled s)" (is "forward n inp dst i s ?t")
proof -
  note g = killed_reader_gone [OF r s i w o]
  have n: "length (nt_procs s) = n" using s by (simp add: in_row_def)
  have st: "states n ?t = (states n s)(i := Signalled)" "left_in n inp ?t = left_in n inp s"
    using i n by (simp_all add: states_retire)
  have fl: "finds n inp ?t j = (if j = Suc i then left_in n inp s j else finds n inp s j)" for j
    unfolding st by (rule inflow_kill [of "states n s", OF g(2)])
  have fs: "flow (states n ?t j) (finds n inp ?t j) = (if j = i then [] else flow (states n s j) (finds n inp s j))" for j
    using fl [of j] g(2) by (auto simp: st gone_def)
  have ph: "phase (states n ?t j) = (if j = i then 0 else phase (states n s j))" "0 < phase (states n s i)" for j
    using ng i by (auto simp: st) (cases "state_at s i"; simp add: states_def)
  have "outcome n inp dst ?t = outcome n inp dst s" unfolding outcome_def fs using g(1) by auto
  moreover have "in_row n inp dst ?t" using s i n by (auto simp: in_row_def)
  moreover have "\<forall>j. weight n inp ?t j \<le> weight n inp s j" "weight n inp ?t i < weight n inp s i"
    unfolding weight_def fs ph(1) using fl ph(2) by (auto simp: add_mono)
  ultimately show ?thesis by blast
qed

lemma row_move:
  assumes r: "row n inp dst" and s: "in_row n inp dst s" and m: "net_move cap others i s t"
  shows "in_row n inp dst t" and "outcome n inp dst t = outcome n inp dst s" and "row_rank n inp t < row_rank n inp s"
proof -
  have i: "i < n" using m s by cases (auto simp: in_row_def)
  note live = in_row_live(1,2) [OF s i]
  have fin: "forward n inp dst i s t"
    using m
  proof cases
    case (m_read f c rr q)
    then show ?thesis using row_read [OF r s i _ _ m_read(7)] live flow_takes [OF m_read(7)] by simp
  next
    case (m_end f q)
    note q = flow_at_eof [OF m_end(6)]
    have "finds n inp s i = []" using end_finds_nothing [OF r s i] m_end live q by simp
    then show ?thesis using row_on [OF s i, of t q] m_end(1) q by simp
  next
    case (m_stop q)
    show ?thesis using row_on [OF s i, of t q] m_stop(1) flow_stops [OF m_stop(3)] by simp
  next
    case (m_write c rr f)
    have "\<not> gone (state_at s i)" using m_write(3,4) by (auto simp: gone_def)
    then have "f = dst i" using live m_write(5) by simp
    then show ?thesis
      using row_write_next [OF r s _ m_write(3,4)] row_write_last [OF r s _ m_write(3,4)] m_write(1) i by (cases "Suc i = n") auto
  next
    case (m_sigpipe k)
    have "\<not> gone (state_at s i)" using m_sigpipe(3) by (auto simp: gone_def)
    then show ?thesis using row_kill [OF r s i _ m_sigpipe(5)] live m_sigpipe(1,4) by simp
  next
    case m_exit
    then show ?thesis using row_on [OF s i, of t Done] by simp
  qed
  then show "in_row n inp dst t" "outcome n inp dst t = outcome n inp dst s" by blast+
  from fin rank_less [OF _ i, of inp t s] show "row_rank n inp t < row_rank n inp s" by blast
qed

section \<open>No deadlock\<close>

text \<open>Nobody but the two neighbours holds an end of the pipe between them.\<close>

definition tidy :: "nat \<Rightarrow> (nat \<Rightarrow> ofile) \<Rightarrow> fdtable list \<Rightarrow> net \<Rightarrow> bool" where
  "tidy n dst others s \<longleftrightarrow> (\<forall>i k. Suc i < n \<longrightarrow> dst i = PipeW k \<longrightarrow>
     (\<forall>t\<in>set others. PipeW k \<notin> ran t \<and> PipeR k \<notin> ran t)
     \<and> (\<forall>j<n. (j \<noteq> i \<longrightarrow> PipeW k \<notin> ran (pr_fds (proc_at s j))) \<and> (j \<noteq> Suc i \<longrightarrow> PipeR k \<notin> ran (pr_fds (proc_at s j)))))"

lemma move_tables:
  assumes "net_move cap others i s t"
  shows "length (nt_procs t) = length (nt_procs s)"
    and "pr_fds (proc_at t j) = pr_fds (proc_at s j) \<or> pr_fds (proc_at t j) = Map.empty"
    and "j \<noteq> i \<Longrightarrow> proc_at t j = proc_at s j"
  using assms by (cases, auto)+

lemma move_not_gone: "net_move cap others i s t \<Longrightarrow> \<not> gone (state_at s i)"
  by (induction rule: net_move.induct) (auto dest: flow_takes flow_at_eof flow_stops)

lemma tidy_move:
  assumes "tidy n dst others s" and "net_move cap others i s t"
  shows "tidy n dst others t"
proof -
  have "f \<in> ran (pr_fds (proc_at t j)) \<Longrightarrow> f \<in> ran (pr_fds (proc_at s j))" for f j
    using move_tables(2) [OF assms(2), of j] by auto
  then show ?thesis using assms(1) unfolding tidy_def by blast
qed

lemma link_closed:
  assumes "tidy n dst others s" and "in_row n inp dst s" and "Suc i < n" and "dst i = PipeW k"
  shows "gone (state_at s i) \<Longrightarrow> \<not> is_open others s (PipeW k)" "gone (state_at s (Suc i)) \<Longrightarrow> \<not> is_open others s (PipeR k)"
proof -
  have n: "length (nt_procs s) = n" using assms(2) by (simp add: in_row_def)
  have e: "j < n \<Longrightarrow> gone (state_at s j) \<Longrightarrow> pr_fds (proc_at s j) = Map.empty" for j using assms(2) by (simp add: in_row_def)
  have t: "\<forall>t\<in>set others. PipeW k \<notin> ran t \<and> PipeR k \<notin> ran t"
    "j < n \<Longrightarrow> (j \<noteq> i \<longrightarrow> PipeW k \<notin> ran (pr_fds (proc_at s j))) \<and> (j \<noteq> Suc i \<longrightarrow> PipeR k \<notin> ran (pr_fds (proc_at s j)))" for j
    using assms(1,3,4) unfolding tidy_def by blast+
  have "\<exists>j<n. t = pr_fds (proc_at s j)" if "t \<in> set (map pr_fds (nt_procs s))" for t
    using that n by (auto simp: in_set_conv_nth)
  then have *: "is_open others s f \<Longrightarrow> (\<exists>t\<in>set others. f \<in> ran t) \<or> (\<exists>j<n. f \<in> ran (pr_fds (proc_at s j)))" for f
    unfolding is_open_def set_append by blast
  show "gone (state_at s i) \<Longrightarrow> \<not> is_open others s (PipeW k)"
    using * [of "PipeW k"] t e [of i] assms(3) by (metis Suc_lessD empty_iff ran_empty)
  show "gone (state_at s (Suc i)) \<Longrightarrow> \<not> is_open others s (PipeR k)"
    using * [of "PipeR k"] t e [of "Suc i"] assms(3) by (metis empty_iff ran_empty)
qed

text \<open>A process that is not gone and can write what it has to write, or whose input is not empty, moves; so does one at the end of its input.\<close>

lemma can_write:
  assumes "i < length (nt_procs s)" and "to_write (state_at s i) \<noteq> []" and "writes_to s i = Some f" and "accepts cap others s f [hd (to_write (state_at s i))]"
  shows "\<exists>t. net_move cap others i s t"
  using m_write [of i s "[hd (to_write (state_at s i))]" "tl (to_write (state_at s i))" f cap others] assms
  by (auto simp del: not_Cons_self2 intro: exI)

lemma can_read:
  assumes "i < length (nt_procs s)" and "at_eof (state_at s i) \<noteq> None" and "reads_from s i = Some f" and "is_source f"
    and "content s f \<noteq> [] \<or> at_end others s f"
  shows "\<exists>t. net_move cap others i s t"
proof (cases "content s f = []")
  case True
  with assms show ?thesis using m_end [of i s f others] by blast
next
  case False
  have "takes (content s f) (Works g []) (Works (\<lambda>x. g (content s f @ x)) [])" for g by (rule t_works) simp
  then have "\<exists>q. takes (content s f) (state_at s i) q" using assms(2) t_gathers unfolding not_None_eq at_eof_cases by metis
  with False show ?thesis using m_read [of i s f "content s f" "[]"] assms by auto
qed

lemma not_gone_cases:
  "\<not> gone p \<Longrightarrow> (to_write p \<noteq> [] \<Longrightarrow> R) \<Longrightarrow> (at_eof p \<noteq> None \<Longrightarrow> R) \<Longrightarrow> (p = Flushes [] \<Longrightarrow> R) \<Longrightarrow> R"
  by (cases p rule: at_eof.cases) auto

lemma row_can_write:
  assumes r: "row n inp dst" and s: "in_row n inp dst s" and td: "tidy n dst others s" and cap: "1 \<le> cap"
    and i: "i < n" "\<not> gone (state_at s i)" and w: "to_write (state_at s i) \<noteq> []"
    and room: "\<forall>k. Suc i < n \<longrightarrow> dst i = PipeW k \<longrightarrow> gone (state_at s (Suc i)) \<or> length (nt_pipes s k) < cap"
  shows "\<exists>t. net_move cap others i s t"
proof -
  have n: "i < length (nt_procs s)" using s i(1) by (simp add: in_row_def)
  note live = in_row_live(2) [OF s i]
  show ?thesis
  proof (cases "Suc i < n")
    case True
    then obtain k where k: "dst i = PipeW k" "inp (Suc i) = PipeR k" using r by (auto simp: row_def)
    show ?thesis
    proof (cases "gone (state_at s (Suc i))")
      case g: True
      from link_closed(2) [OF td s True k(1) g] show ?thesis using m_sigpipe [OF n w] live k(1) by metis
    next
      case False
      have "accepts cap others s (dst i) [hd (to_write (state_at s i))]"
        using in_row_live(3) [OF s True False, of others] room True False k by (auto simp: accepts_def is_sink_def)
      then show ?thesis by (rule can_write [OF n w live])
    qed
  next
    case False
    then have "i = n - 1" using i(1) by simp
    then have "accepts cap others s (dst i) [hd (to_write (state_at s i))]" using r by (auto simp: accepts_def row_def)
    then show ?thesis by (rule can_write [OF n w live])
  qed
qed

lemma row_waits_to_read:
  assumes r: "row n inp dst" and s: "in_row n inp dst s" and td: "tidy n dst others s"
    and i: "i < n" "\<not> gone (state_at s i)" and w: "at_eof (state_at s i) \<noteq> None" and stuck: "\<nexists>t. net_move cap others i s t"
  shows "0 < i \<and> \<not> gone (state_at s (i - 1)) \<and> content s (inp i) = []"
proof -
  have n: "i < length (nt_procs s)" using s i(1) by (simp add: in_row_def)
  have "is_source (inp i)" using r i(1) by (simp add: row_def)
  then have c: "content s (inp i) = []" "\<not> at_end others s (inp i)"
    using can_read [OF n w in_row_live(1) [OF s i]] stuck by blast+
  show ?thesis
  proof (cases i)
    case 0
    then show ?thesis using r c by (auto simp: at_end_def row_def)
  next
    case (Suc m)
    then obtain k where k: "dst m = PipeW k" "inp i = PipeR k" using r i(1) by (auto simp: row_def)
    then show ?thesis using link_closed(1) [OF td s _ k(1)] c Suc i(1) by (auto simp: at_end_def)
  qed
qed

lemma row_acts:
  assumes r: "row n inp dst" and s: "in_row n inp dst s" and td: "tidy n dst others s" and cap: "1 \<le> cap"
    and i: "i < n" "\<not> gone (state_at s i)"
    and room: "\<forall>k. Suc i < n \<longrightarrow> dst i = PipeW k \<longrightarrow> gone (state_at s (Suc i)) \<or> length (nt_pipes s k) < cap"
    and stuck: "\<nexists>t. net_move cap others i s t"
  shows "0 < i \<and> \<not> gone (state_at s (i - 1)) \<and> content s (inp i) = []"
  using i(2)
proof (rule not_gone_cases)
  assume "to_write (state_at s i) \<noteq> []"
  then show ?thesis using row_can_write [OF r s td cap i _ room] stuck by blast
next
  assume "at_eof (state_at s i) \<noteq> None"
  then show ?thesis using row_waits_to_read [OF r s td i _ stuck] by blast
next
  assume "state_at s i = Flushes []"
  then show ?thesis using m_exit [of i s cap others] s i(1) stuck by (auto simp: in_row_def)
qed

lemma row_progress:
  assumes r: "row n inp dst" and s: "in_row n inp dst s" and td: "tidy n dst others s" and cap: "1 \<le> cap"
  shows "i < n \<Longrightarrow> \<not> gone (state_at s i)
    \<Longrightarrow> \<forall>k. Suc i < n \<longrightarrow> dst i = PipeW k \<longrightarrow> gone (state_at s (Suc i)) \<or> length (nt_pipes s k) < cap
    \<Longrightarrow> \<exists>j t. net_move cap others j s t"
proof (induction i)
  case (Suc m)
  then obtain k where k: "dst m = PipeW k" "inp (Suc m) = PipeR k" using r by (auto simp: row_def)
  show ?case
  proof (rule ccontr)
    assume none: "\<nexists>j t. net_move cap others j s t"
    with row_acts [OF r s td cap Suc.prems] have "\<not> gone (state_at s m)" "nt_pipes s k = []" using k by (auto simp: content_def)
    with Suc.IH Suc.prems(1) cap k none show False by auto
  qed
qed (use row_acts [OF r s td cap, of 0] in blast)

text \<open>As long as somebody is not gone, somebody moves: the last one who is not gone, or somebody he waits for.\<close>

lemma row_no_deadlock:
  assumes "row n inp dst" and "in_row n inp dst s" and "tidy n dst others s" and "1 \<le> cap" and "j < n" and "\<not> gone (state_at s j)"
  shows "\<exists>t. net_step cap others s t"
proof -
  let ?P = "\<lambda>i. i < n \<and> \<not> gone (state_at s i)"
  have P: "?P (Greatest ?P)" "\<And>i. ?P i \<Longrightarrow> i \<le> Greatest ?P"
    using GreatestI_nat [of ?P j n] Greatest_le_nat [of ?P _ n] assms(5,6) by auto
  have "\<exists>i t. net_move cap others i s t"
    by (rule row_progress [OF assms(1-4), of "Greatest ?P"]) (use P(1) P(2) [of "Suc (Greatest ?P)"] in auto)
  then show ?thesis by (auto simp: net_step_def)
qed

section \<open>Runs\<close>

text \<open>A row of processes ends, whatever the capacity of its pipes, and its last process has written its outcome.\<close>

definition all_gone :: "net \<Rightarrow> bool" where
  "all_gone s \<longleftrightarrow> (\<forall>p\<in>set (nt_procs s). gone (pr_state p))"

interpretation rows: ranked_system "net_step cap others"
  "\<lambda>t. row n inp dst \<and> in_row n inp dst t \<and> tidy n dst others t \<and> outcome n inp dst t = x" "row_rank n inp"
  for n inp dst cap others x
proof unfold_locales
  fix t u
  assume t: "row n inp dst \<and> in_row n inp dst t \<and> tidy n dst others t \<and> outcome n inp dst t = x" and "net_step cap others t u"
  then obtain i where m: "net_move cap others i t u" by (auto simp: net_step_def)
  show "row n inp dst \<and> in_row n inp dst u \<and> tidy n dst others u \<and> outcome n inp dst u = x"
    using row_move(1,2) [OF _ _ m] tidy_move [OF _ m] t by metis
  show "row_rank n inp u < row_rank n inp t" using row_move(3) [OF _ _ m] t by blast
qed

lemma row_ends:
  assumes "row n inp dst" and "in_row n inp dst s" and "tidy n dst others s" and "1 \<le> cap"
  shows "always_ends (net_step cap others) s (\<lambda>t. all_gone t \<and> nt_sinks t (dst (n - 1)) = outcome n inp dst s)"
proof (rule rows.ends [where n = n and inp = inp and dst = dst and x = "outcome n inp dst s"])
  fix t
  assume t: "row n inp dst \<and> in_row n inp dst t \<and> tidy n dst others t \<and> outcome n inp dst t = outcome n inp dst s"
  assume "\<nexists>u. net_step cap others t u"
  then have g: "\<forall>j<n. gone (state_at t j)" using row_no_deadlock [OF assms(1)] t assms(4) by blast
  then have "flow (states n t (n - 1)) x = []" for x
    using assms(1) by (simp add: states_def row_def)
  with g t show "all_gone t \<and> nt_sinks t (dst (n - 1)) = outcome n inp dst s"
    by (auto simp: outcome_def all_gone_def in_row_def in_set_conv_nth)
qed (use assms in simp)

section \<open>Starting a row\<close>

definition start_net :: "proc list \<Rightarrow> (ofile \<Rightarrow> string) \<Rightarrow> net" where
  "start_net ps files = \<lparr>nt_procs = ps, nt_pipes = (\<lambda>k. []), nt_files = files, nt_sinks = (\<lambda>f. [])\<rparr>"

lemma start_net_simps [simp]:
  "nt_procs (start_net ps files) = ps" "nt_sinks (start_net ps files) f = []"
  "content (start_net ps files) f = (case f of PipeR k \<Rightarrow> [] | _ \<Rightarrow> files f)"
  by (simp_all add: start_net_def content_def split: ofile.split)

text \<open>With the pipes empty, the outcome is what the programs make of the first one's file, one after the other.\<close>

definition composed :: "proc list \<Rightarrow> string \<Rightarrow> string" where
  "composed ps x = fold (\<lambda>p. flow (pr_state p)) ps x"

lemma start_finds:
  assumes "row n inp dst" and "length ps = n"
  shows "j < n \<Longrightarrow> finds n inp (start_net ps files) j = composed (take j ps) (files (inp 0))"
proof (induction j)
  case 0
  have "\<forall>k. inp 0 \<noteq> PipeR k" using assms(1) by (simp add: row_def)
  then show ?case using 0 by (simp add: left_in_def composed_def split: ofile.split)
next
  case (Suc j)
  then obtain k where "inp (Suc j) = PipeR k" using assms(1) by (auto simp: row_def)
  with Suc assms(2) show ?case by (simp add: left_in_def composed_def states_def take_Suc_conv_app_nth)
qed

lemma start_outcome:
  assumes "row n inp dst" and "length ps = n"
  shows "outcome n inp dst (start_net ps files) = composed ps (files (inp 0))"
proof -
  have n: "n - 1 < n" "0 < n" using assms(1) by (auto simp: row_def)
  have "ps = take (n - 1) ps @ [ps ! (n - 1)]"
    using n assms(2) take_Suc_conv_app_nth [of "n - 1" ps] by simp
  then have "composed ps x = composed (take (n - 1) ps @ [ps ! (n - 1)]) x" for x by simp
  then have "composed ps x = flow (pr_state (ps ! (n - 1))) (composed (take (n - 1) ps) x)" for x
    by (simp add: composed_def)
  then show ?thesis
    using start_finds [OF assms n(1)] n assms(2) by (simp add: outcome_def states_def)
qed

lemma started_row_ends:
  assumes "row n inp dst" and "in_row n inp dst (start_net ps files)" and "tidy n dst others (start_net ps files)" and "1 \<le> cap"
  shows "always_ends (net_step cap others) (start_net ps files)
     (\<lambda>t. all_gone t \<and> nt_sinks t (dst (n - 1)) = composed ps (files (inp 0)))"
  using row_ends [OF assms] start_outcome [OF assms(1), of ps files] assms(2) by (simp add: in_row_def)

text \<open>As soon as the last process is gone the outcome is there, whatever the others still do.\<close>

lemma started_row_last:
  assumes "row n inp dst" and "in_row n inp dst (start_net ps files)" and "tidy n dst others (start_net ps files)"
    and "(net_step cap others)\<^sup>*\<^sup>* (start_net ps files) t" and "gone (state_at t (n - 1))"
  shows "nt_sinks t (dst (n - 1)) = composed ps (files (inp 0))"
proof -
  let ?x = "composed ps (files (inp 0))"
  have n: "n - 1 < n" "length ps = n" using assms(1,2) by (simp_all add: row_def in_row_def)
  have "row n inp dst \<and> in_row n inp dst t \<and> tidy n dst others t \<and> outcome n inp dst t = ?x"
    by (rule rows.reached [OF assms(4)]) (use assms(1-3) start_outcome [OF assms(1) n(2)] in simp)
  then show ?thesis using assms(5) n(1) by (simp add: outcome_def states_def)
qed

end
