(* ===== verification/ShellNet.thy ===== *)
theory ShellNet
  imports PipeChain ShellTheorems
begin

text \<open>
  The children that \<open>command\<close> starts for a line, as processes that run at the same time beside the shell and the
  children of earlier lines: a row in the sense of \<open>PipeChain\<close>, from the last child that was started to the first.
\<close>

section \<open>The processes of a line\<close>

text \<open>
  A child that executes its program runs it with its arguments, reading descriptor 0 and writing descriptor 1; one whose \<open>execvp\<close> failed has
  written its message to descriptor 2 and is about to exit.
\<close>

definition child_state :: "(string \<Rightarrow> string list \<Rightarrow> pstate) \<Rightarrow> child \<Rightarrow> pstate" where
  "child_state prog c = (case ch_end c of Exec path args \<Rightarrow> prog path args | _ \<Rightarrow> Flushes [])"

definition child_proc :: "(string \<Rightarrow> string list \<Rightarrow> pstate) \<Rightarrow> child \<Rightarrow> proc" where
  "child_proc prog c = \<lparr>pr_fds = ch_fds c, pr_in = STDIN_FILENO, pr_out = STDOUT_FILENO, pr_state = child_state prog c\<rparr>"

text \<open>The network of a line: the children from left to right.\<close>

definition line_procs :: "(string \<Rightarrow> string list \<Rightarrow> pstate) \<Rightarrow> child list \<Rightarrow> proc list" where
  "line_procs prog kids = map (child_proc prog) (rev kids)"

text \<open>No child of an earlier line has a pipe that a later line may get.\<close>

definition old_pipes :: "shell \<Rightarrow> bool" where
  "old_pipes s \<longleftrightarrow> (\<forall>c\<in>set (sh_kids s). \<forall>k. PipeR k \<in> ran (ch_fds c) \<or> PipeW k \<in> ran (ch_fds c) \<longrightarrow> k < sh_pipes s)"

definition line_inp :: "world \<Rightarrow> nat \<Rightarrow> nat \<Rightarrow> bool \<Rightarrow> string option \<Rightarrow> nat \<Rightarrow> nat \<Rightarrow> ofile" where
  "line_inp w k p bg i n j = (if j = 0 then line_source w (k + n - 1) bg i else PipeR (p + n - 1 - j))"

definition line_dst :: "world \<Rightarrow> nat \<Rightarrow> nat \<Rightarrow> (bool \<times> string) option \<Rightarrow> nat \<Rightarrow> nat \<Rightarrow> ofile" where
  "line_dst w k p ofl n j = (if Suc j = n then line_sink w k ofl else PipeW (p + n - 2 - j))"

lemma length_line_children [simp]: "length (line_children w bg sigs k p i b cs ofl) = length cs"
  by (induction cs arbitrary: i b) simp_all

lemma line_children_nth:
  "j < length cs \<Longrightarrow> rev (line_children w bg sigs k p i b cs ofl) ! j =
     stage_child w (k + (length cs - 1 - j)) sigs bg
       (if j = 0 \<and> \<not> b then line_source w (k + length cs - 1) bg i else PipeR (p + length cs - 1 - j))
       (line_dst w k p ofl (length cs) j) (cs ! j)"
proof (induction cs arbitrary: i b j)
  case (Cons c cs)
  show ?case
  proof (cases j)
    case 0
    then show ?thesis by (auto simp: line_dst_def)
  next
    case (Suc m)
    then have m: "m < length cs" using Cons.prems by simp
    then show ?thesis using Cons.IH [OF m, of None True] Suc by (auto simp: line_dst_def)
  qed
qed simp

lemma line_source_cases: "line_source w k bg i \<noteq> PipeR q" "line_source w k bg i \<noteq> PipeW q" "is_source (line_source w k bg i)"
  by (auto simp: line_source_def is_source_def split: option.splits)

lemma line_sink_cases: "line_sink w k ofl \<noteq> PipeR q" "line_sink w k ofl \<noteq> PipeW q" "is_sink (line_sink w k ofl)"
  by (auto simp: line_sink_def is_sink_def split: option.splits)

lemma line_row:
  assumes "0 < n"
  shows "row n (line_inp w k p bg i n) (line_dst w k p ofl n)"
proof -
  have "inj_on (line_inp w k p bg i n) {..<n}"
    using line_source_cases(1) line_source_cases(1) [symmetric] by (auto simp: inj_on_def line_inp_def)
  moreover have "is_source (line_inp w k p bg i n j)" for j
    using line_source_cases(3) by (simp add: line_inp_def is_source_def)
  ultimately show ?thesis
    using assms line_source_cases line_sink_cases by (auto simp: row_def line_inp_def line_dst_def)
qed

lemma line_proc_nth:
  assumes "j < length cs"
  shows "line_procs prog (line_children w bg sigs k p i False cs ofl) ! j = child_proc prog
     (stage_child w (k + (length cs - 1 - j)) sigs bg (line_inp w k p bg i (length cs) j) (line_dst w k p ofl (length cs) j) (cs ! j))"
  using assms line_children_nth [OF assms, of w bg sigs k p i False ofl] by (simp add: line_procs_def line_inp_def)

lemma line_fds:
  assumes "j < length cs"
  shows "pr_fds (line_procs prog (line_children w bg sigs k p i False cs ofl) ! j) =
     [0 \<mapsto> line_inp w k p bg i (length cs) j, 1 \<mapsto> line_dst w k p ofl (length cs) j, 2 \<mapsto> Std 2]"
  unfolding line_proc_nth [OF assms] by (simp add: child_proc_def stage_child_def)

lemma length_line_procs [simp]: "length (line_procs prog kids) = length kids"
  by (simp add: line_procs_def)

lemma line_in_row:
  assumes "\<forall>path args. \<not> gone (prog path args)" and n: "n = length cs"
  shows "in_row n (line_inp w k p bg i n) (line_dst w k p ofl n)
     (start_net (line_procs prog (line_children w bg sigs k p i False cs ofl)) files)"
proof -
  have "\<not> gone (pr_state (line_procs prog (line_children w bg sigs k p i False cs ofl) ! j))"
    "pr_in (line_procs prog (line_children w bg sigs k p i False cs ofl) ! j) = 0"
    "pr_out (line_procs prog (line_children w bg sigs k p i False cs ofl) ! j) = 1" if "j < length cs" for j
    unfolding line_proc_nth [OF that] using assms(1) by (simp_all add: child_proc_def child_state_def stage_child_def)
  then show ?thesis by (simp add: in_row_def n line_fds)
qed

lemma ran_child: "f \<in> ran [0 :: fd \<mapsto> a, 1 \<mapsto> b, 2 \<mapsto> Std 2] \<longleftrightarrow> f = a \<or> f = b \<or> f = Std 2"
  by (simp add: ran_map_upd) blast

lemma line_tidy:
  assumes n: "n = length cs" and "\<forall>t\<in>set others. \<forall>q. PipeR q \<in> ran t \<or> PipeW q \<in> ran t \<longrightarrow> q < p"
  shows "tidy n (line_dst w k p ofl n) others
     (start_net (line_procs prog (line_children w bg sigs k p i False cs ofl)) files)"
proof -
  have "\<forall>t\<in>set others. PipeW q \<notin> ran t \<and> PipeR q \<notin> ran t" if "p \<le> q" for q
    using assms(2) that by fastforce
  moreover have "PipeW q \<in> ran (pr_fds (line_procs prog (line_children w bg sigs k p i False cs ofl) ! j)) \<longleftrightarrow> Suc j < n \<and> q = p + n - 2 - j"
    "PipeR q \<in> ran (pr_fds (line_procs prog (line_children w bg sigs k p i False cs ofl) ! j)) \<longleftrightarrow> 0 < j \<and> q = p + n - 1 - j"
    if "j < n" for j q
    using that line_source_cases(1,2) [symmetric] line_sink_cases(1,2) [symmetric] unfolding n line_fds [OF that [unfolded n]] ran_child
    by (auto simp: line_inp_def line_dst_def)
  ultimately show ?thesis
    using line_sink_cases(2) by (auto simp: tidy_def line_dst_def split: if_splits)
qed

text \<open>What the commands of a line make of a text; \<open>can\<close> tells which programs can be executed.\<close>

definition line_result :: "(string \<Rightarrow> bool) \<Rightarrow> (string \<Rightarrow> string list \<Rightarrow> pstate) \<Rightarrow> string list list \<Rightarrow> string \<Rightarrow> string" where
  "line_result can prog cs =
     fold (\<lambda>c. flow (if can (hd c) then prog (hd c) (cmdname (hd c) # tl c) else Flushes [])) cs"

lemma line_composed:
  assumes "\<forall>k f. w_exec w k f = can f"
  shows "composed (line_procs prog (line_children w bg sigs k p i b cs ofl)) = line_result can prog cs"
  unfolding line_result_def
  by (induction cs arbitrary: i b)
     (use assms in \<open>auto simp: composed_def line_procs_def child_proc_def child_state_def stage_child_def fun_eq_iff\<close>)

lemma line_runs:
  fixes sigs :: sigtab and files :: "ofile \<Rightarrow> string" and bg :: bool and i :: "string option" and ofl :: "(bool \<times> string) option" and k :: nat
  assumes cs: "cs \<noteq> []" and old: "\<forall>c\<in>set kids0. \<forall>q. PipeR q \<in> ran (ch_fds c) \<or> PipeW q \<in> ran (ch_fds c) \<longrightarrow> q < p"
    and can: "\<forall>k f. w_exec w k f = can f" and prog: "\<forall>path args. \<not> gone (prog path args)" and cap: "1 \<le> cap"
  defines "step \<equiv> net_step cap (std_fds # map ch_fds kids0)"
    and "s0 \<equiv> start_net (line_procs prog (line_children w bg sigs k p i False cs ofl)) files"
    and "x \<equiv> line_result can prog cs (files (line_source w (k + length cs - 1) bg i))"
  shows "always_ends step s0 (\<lambda>u. all_gone u \<and> nt_sinks u (line_sink w k ofl) = x)"
    and "step\<^sup>*\<^sup>* s0 u \<Longrightarrow> gone (state_at u (length cs - 1)) \<Longrightarrow> nt_sinks u (line_sink w k ofl) = x"
proof -
  have "\<forall>t\<in>set (std_fds # map ch_fds kids0). \<forall>q. PipeR q \<in> ran t \<or> PipeW q \<in> ran t \<longrightarrow> q < p"
    using old by (auto simp: std_fds_def ran_child simp del: ran_map_upd)
  note td = line_tidy [OF refl this]
  let ?inp = "line_inp w k p bg i (length cs)"
  have r: "row (length cs) ?inp (line_dst w k p ofl (length cs))" by (rule line_row) (use cs in simp)
  have dst: "line_dst w k p ofl (length cs) (length cs - 1) = line_sink w k ofl" using cs by (simp add: line_dst_def)
  have inp: "?inp 0 = line_source w (k + length cs - 1) bg i" by (simp add: line_inp_def)
  show "always_ends step s0 (\<lambda>u. all_gone u \<and> nt_sinks u (line_sink w k ofl) = x)"
    unfolding step_def s0_def x_def
    by (rule started_row_ends [OF r line_in_row [OF prog refl] td cap, unfolded line_composed [OF can] dst inp])
  show "step\<^sup>*\<^sup>* s0 u \<Longrightarrow> gone (state_at u (length cs - 1)) \<Longrightarrow> nt_sinks u (line_sink w k ofl) = x"
    unfolding step_def s0_def x_def
    by (rule started_row_last [OF r line_in_row [OF prog refl] td, unfolded line_composed [OF can] dst inp])
qed

lemma after_line_kids:
  "sh_kids (after_line w i cs ofl tm rest s) = sh_kids s @ line_children w (tm = T_AMP) (sh_sigs s) (sh_forks s) (sh_pipes s) i False cs ofl"
  "sh_pipes (after_line w i cs ofl tm rest s) = sh_pipes s + (length cs - 1)"
  by (simp_all add: after_line_def Let_def)

lemma line_pipes:
  assumes c: "c \<in> set (line_children w bg sigs k p i False cs ofl)" and q: "PipeR q \<in> ran (ch_fds c) \<or> PipeW q \<in> ran (ch_fds c)"
  shows "q < p + (length cs - 1)"
proof -
  let ?kids = "line_children w bg sigs k p i False cs ofl"
  from c have "c \<in> set (rev ?kids)" by simp
  then obtain j where j: "j < length cs" "c = rev ?kids ! j" by (auto simp: in_set_conv_nth simp del: set_rev)
  have "ch_fds c = [0 \<mapsto> line_inp w k p bg i (length cs) j, 1 \<mapsto> line_dst w k p ofl (length cs) j, 2 \<mapsto> Std 2]"
    using line_fds [OF j(1), of undefined w bg sigs k p i ofl] j by (simp add: line_procs_def child_proc_def)
  with q j(1) show ?thesis
    using line_source_cases(1,2) [symmetric] line_sink_cases(1,2) [symmetric] unfolding ran_child
    by (cases cs; auto simp: ran_child line_inp_def line_dst_def split: if_splits)
qed

lemma after_line_old_pipes: "old_pipes s \<Longrightarrow> old_pipes (after_line w i cs ofl tm rest s)"
  unfolding old_pipes_def after_line_kids by (fastforce dest: line_pipes)

text \<open>
C3: A pipeline computes the composition of its programs.  When the allocations and forks succeed, \<open>command\<close> reads the text of a
well-formed line and starts children that then run at the same time, beside the shell and whatever is left of earlier lines: whatever
their programs are and however little a pipe holds, no run deadlocks and every run ends, and the file or standard output at the end of
the line has received what the programs, from left to right, make of the file or standard input at its
beginning; a program that cannot be executed is one that writes nothing.  All of it is there as soon as the last program of the line,
the only one the shell waits for, has ended.  The next line finds the same conditions (\<open>old_pipes\<close>).
\<close>

theorem pipeline_computes:
  assumes "\<forall>k. w_malloc w k" and "\<forall>k. w_fork w k \<noteq> None" and "6 \<le> w_nofile w"
    and "cs \<noteq> []" and "\<forall>c\<in>set cs. good_args c \<and> runs_program c"
    and "\<forall>f. i = Some f \<longrightarrow> good_word f" and "\<forall>app f. ofl = Some (app, f) \<longrightarrow> good_word f \<and> i \<noteq> Some f"
    and "tm \<in> terminators" and "sh_stdin s = print_line i cs ofl tm @ rest" and "sh_fds s = std_fds"
    and old: "old_pipes s" and can: "\<forall>k f. w_exec w k f = can f" and prog: "\<forall>path args. \<not> gone (prog path args)" and cap: "1 \<le> cap"
  shows "\<exists>t. command w False init_loc s = (Done tm (fork_result w (sh_forks s)) (- 1), t) \<and> old_pipes t
     \<and> (let step = net_step cap (sh_fds t # map ch_fds (sh_kids s));
            start = start_net (line_procs prog (drop (length (sh_kids s)) (sh_kids t))) files;
            complete = (\<lambda>u. nt_sinks u (line_sink w (sh_forks s) ofl) =
              line_result can prog cs (files (line_source w (sh_forks s + length cs - 1) (tm = T_AMP) i)))
        in always_ends step start (\<lambda>u. all_gone u \<and> complete u)
           \<and> (\<forall>u. step\<^sup>*\<^sup>* start u \<longrightarrow> gone (state_at u (length cs - 1)) \<longrightarrow> complete u))"
proof -
  let ?t = "after_line w i cs ofl tm rest s" and ?n = "length cs"
  let ?kids = "line_children w (tm = T_AMP) (sh_sigs s) (sh_forks s) (sh_pipes s) i False cs ofl"
  have c: "command w False init_loc s = (Done tm (fork_result w (sh_forks s)) (- 1), ?t)"
    by (rule command_print_line [OF assms(1-6) _ assms(8-10)]) (use assms(7) in blast)
  have "\<forall>c\<in>set (sh_kids s). \<forall>q. PipeR q \<in> ran (ch_fds c) \<or> PipeW q \<in> ran (ch_fds c) \<longrightarrow> q < sh_pipes s"
    using old by (simp add: old_pipes_def)
  note R = line_runs [OF assms(4) this can prog cap]
  have kids: "drop (length (sh_kids s)) (sh_kids ?t) = ?kids" "sh_fds ?t = std_fds"
    using assms(10) by (simp_all add: after_line_def Let_def)
  show ?thesis
    by (rule exI [of _ ?t], unfold Let_def kids) (use c after_line_old_pipes [OF old] R in blast)
qed

lemma pipeline_computes_witness:
  "\<exists>t. command easy_world False init_loc (init_shell (print_line (Some ''in'') [[''sort''], [''/bin/wc'', ''-l'']] (Some (True, ''out'')) T_NL) []) =
       (Done T_NL 100 (- 1), t) \<and> old_pipes t
     \<and> always_ends (net_step 1 [sh_fds t])
         (start_net (line_procs (\<lambda>path args. Works (\<lambda>x. x @ path) []) (sh_kids t)) (\<lambda>f. if f = RdFile ''in'' then ''abc'' else []))
         (\<lambda>u. all_gone u \<and> nt_sinks u (WrFile ''out'' True) = ''abcsort/bin/wc'')"
proof -
  let ?cs = "[[''sort''], [''/bin/wc'', ''-l'']]" and ?prog = "\<lambda>path args. Works (\<lambda>x. x @ path) []"
    and ?files = "\<lambda>f. if f = RdFile ''in'' then ''abc'' else []"
  let ?s = "init_shell (print_line (Some ''in'') [[''sort''], [''/bin/wc'', ''-l'']] (Some (True, ''out'')) T_NL) []"
  have "sh_kids ?s = []" "sh_forks ?s = 0" "old_pipes ?s" "sh_fds ?s = std_fds" "sh_stdin ?s = print_line (Some ''in'') [[''sort''], [''/bin/wc'', ''-l'']] (Some (True, ''out'')) T_NL @ []"
    by (simp_all add: init_shell_def old_pipes_def)
  moreover have "line_sink easy_world 0 (Some (True, ''out'')) = WrFile ''out'' True" "line_source easy_world 1 False (Some ''in'') = RdFile ''in''"
    "fork_result easy_world 0 = 100"
    by (simp_all add: line_sink_def line_source_def easy_world_def fork_result_def)
  moreover have "w_exec easy_world k f = True" for k f by (simp add: easy_world_def)
  ultimately show ?thesis
    using pipeline_computes [of easy_world ?cs "Some ''in''" "Some (True, ''out'')" T_NL ?s "[]" "\<lambda>f. True" ?prog 1 ?files]
      easy_world_ok easy_line_ok
    by (simp add: easy_line_def good_line_def terminators_def Let_def line_result_def del: print_line.simps) blast
qed

end
