(* ===== verification/PipeJobs.thy ===== *)
theory PipeJobs
  imports PipeChain "HOL-Library.Product_Lexorder"
begin

text \<open>
  Rows of processes that one process starts one after the other and that then run at the same time and write files: jobs, in the
  foreground or in the background.  The store is at every moment what the jobs make of it one after the other, but for what they
  still have to write (\<open>jobs_inv\<close>); who may still write to the same file as a job, or to the file it reads, has
  already written everything.  A step lowers the number of jobs not yet started or the work of those that were (\<open>jobs_rank\<close>, in lexicographic
  order).  So all jobs end, with the result they have one after the other (\<open>jobs_end\<close>).  A job finds in its file what is there when
  it starts; the lines that \<open>plan\<close> admits do not change it as long as this matters.
\<close>

section \<open>Files\<close>

abbreviation DEV_NULL :: string where
  "DEV_NULL \<equiv> ''/dev/null''"

record store =
  st_files :: "string \<Rightarrow> string"    \<comment> \<open>contents by path\<close>
  st_term :: string                 \<comment> \<open>what was written to the inherited descriptors\<close>

text \<open>\<open>inp\<close> is what a line finds on the standard input.\<close>

definition read_store :: "string \<Rightarrow> store \<Rightarrow> ofile \<Rightarrow> string" where
  "read_store inp st f = (case f of RdFile p \<Rightarrow> if p = DEV_NULL then [] else st_files st p | _ \<Rightarrow> inp)"

text \<open>\<open>O_TRUNC\<close> empties the file, \<open>O_APPEND\<close> keeps what was in it; what is written comes at the end.\<close>

definition open_store :: "ofile \<Rightarrow> store \<Rightarrow> store" where
  "open_store f st = (case f of
       WrFile p app \<Rightarrow> if app \<or> p = DEV_NULL then st else st\<lparr>st_files := (st_files st)(p := [])\<rparr>
     | _ \<Rightarrow> st)"

definition extend_store :: "ofile \<Rightarrow> string \<Rightarrow> store \<Rightarrow> store" where
  "extend_store f x st = (case f of
       WrFile p app \<Rightarrow> if p = DEV_NULL then st else st\<lparr>st_files := (st_files st)(p := st_files st p @ x)\<rparr>
     | _ \<Rightarrow> st\<lparr>st_term := st_term st @ x\<rparr>)"

definition write_store :: "ofile \<Rightarrow> string \<Rightarrow> store \<Rightarrow> store" where
  "write_store f x st = extend_store f x (open_store f st)"

text \<open>Two sinks that are one file, and a sink that is the file somebody reads; the null device is never the same.\<close>

definition target :: "ofile \<Rightarrow> string option" where
  "target f = (case f of WrFile p app \<Rightarrow> Some p | _ \<Rightarrow> None)"

definition same_sink :: "ofile \<Rightarrow> ofile \<Rightarrow> bool" where
  "same_sink f g \<longleftrightarrow> target f = target g \<and> target f \<noteq> Some DEV_NULL"

definition writes_into :: "ofile \<Rightarrow> ofile \<Rightarrow> bool" where
  "writes_into f src = (case src of RdFile p \<Rightarrow> p \<noteq> DEV_NULL \<and> target f = Some p | _ \<Rightarrow> False)"

lemma extend_nothing [simp]: "extend_store f [] st = st"
  by (auto simp: extend_store_def split: ofile.split)

lemma extend_twice: "extend_store f y (extend_store f x st) = extend_store f (x @ y) st"
  by (auto simp: extend_store_def split: ofile.split)

lemma extend_swap: "\<not> same_sink f g \<Longrightarrow> extend_store g y (extend_store f x st) = extend_store f x (extend_store g y st)"
  by (auto simp: extend_store_def same_sink_def target_def fun_upd_twist split: ofile.splits)

lemma open_swap: "\<not> same_sink f g \<Longrightarrow> extend_store g y (open_store f st) = open_store f (extend_store g y st)"
  by (auto simp: extend_store_def open_store_def same_sink_def target_def fun_upd_twist split: ofile.splits)

lemma read_extend: "\<not> writes_into f src \<Longrightarrow> read_store inp (extend_store f x st) src = read_store inp st src"
  by (auto simp: extend_store_def read_store_def writes_into_def target_def split: ofile.splits)

text \<open>What several writers will still write, one after the other; those of other files can be passed.\<close>

abbreviation extend_all :: "(ofile \<times> string) list \<Rightarrow> store \<Rightarrow> store" where
  "extend_all ps \<equiv> fold (\<lambda>(f, x). extend_store f x) ps"

lemma extend_all_nothing: "\<forall>p\<in>set ps. snd p = [] \<Longrightarrow> extend_all ps st = st"
  by (induction ps arbitrary: st) auto

lemma extend_all_swap:
  "\<forall>(g, y)\<in>set ps. y = [] \<or> \<not> same_sink f g \<Longrightarrow> extend_all ps (extend_store f x st) = extend_store f x (extend_all ps st)"
  by (induction ps arbitrary: st) (auto simp: extend_swap [of f])

lemma open_all_swap:
  "\<forall>(g, y)\<in>set ps. y = [] \<or> \<not> same_sink f g \<Longrightarrow> extend_all ps (open_store f st) = open_store f (extend_all ps st)"
  by (induction ps arbitrary: st) (auto simp: open_swap [of f])

lemma read_extend_all:
  "\<forall>(g, y)\<in>set ps. y = [] \<or> \<not> writes_into g src \<Longrightarrow> read_store inp (extend_all ps st) src = read_store inp st src"
  by (induction ps arbitrary: st) (auto simp: read_extend)

section \<open>Jobs\<close>

text \<open>
  The processes of a line before they start, and a line that was started.  The first process reads \<open>la_inp l 0\<close>, the last one writes \<open>la_out l\<close>.
\<close>

record launch =
  la_procs :: "proc list"
  la_bg :: bool              \<comment> \<open>nobody waited for it before the next one was started\<close>

definition la_inp :: "launch \<Rightarrow> nat \<Rightarrow> ofile" where
  "la_inp l j = the (pr_fds (la_procs l ! j) (pr_in (la_procs l ! j)))"

definition la_dst :: "launch \<Rightarrow> nat \<Rightarrow> ofile" where
  "la_dst l j = the (pr_fds (la_procs l ! j) (pr_out (la_procs l ! j)))"

abbreviation la_size :: "launch \<Rightarrow> nat" where
  "la_size l \<equiv> length (la_procs l)"

definition la_out :: "launch \<Rightarrow> ofile" where
  "la_out l = la_dst l (la_size l - 1)"

record job =
  jb_net :: net
  jb_out :: ofile
  jb_bg :: bool

record jobs =
  js_jobs :: "job list"      \<comment> \<open>those that were started, also when they have ended\<close>
  js_store :: store
  js_left :: "launch list"

text \<open>The tables of all other processes; \<open>shell\<close> is the table of the process that starts the jobs.\<close>

definition tables :: "job \<Rightarrow> fdtable list" where
  "tables j = map pr_fds (nt_procs (jb_net j))"

definition beside :: "fdtable \<Rightarrow> job list \<Rightarrow> nat \<Rightarrow> fdtable list" where
  "beside shell js i = shell # concat (map tables (take i js @ drop (Suc i) js))"

definition last_gone :: "net \<Rightarrow> bool" where
  "last_gone s \<longleftrightarrow> gone (state_at s (length (nt_procs s) - 1))"

text \<open>The next line starts at any time if the one that starts them did not wait for the last one, and when its rightmost process has ended otherwise.\<close>

definition may_start :: "job list \<Rightarrow> bool" where
  "may_start js \<longleftrightarrow> js = [] \<or> jb_bg (last js) \<or> last_gone (jb_net (last js))"

definition started :: "string \<Rightarrow> store \<Rightarrow> launch \<Rightarrow> job" where
  "started inp st l = \<lparr>jb_net = start_net (la_procs l) (read_store inp st), jb_out = la_out l, jb_bg = la_bg l\<rparr>"

text \<open>What a job wrote between two of its states.\<close>

definition written :: "ofile \<Rightarrow> net \<Rightarrow> net \<Rightarrow> string" where
  "written f s t = drop (length (nt_sinks s f)) (nt_sinks t f)"

text \<open>A process of one of the jobs moves, or the next job is started.\<close>

inductive jobs_step :: "nat \<Rightarrow> fdtable \<Rightarrow> (nat \<Rightarrow> string) \<Rightarrow> jobs \<Rightarrow> jobs \<Rightarrow> bool" for cap shell inp s where
  j_move: "i < length (js_jobs s) \<Longrightarrow> j = js_jobs s ! i \<Longrightarrow> net_step cap (beside shell (js_jobs s) i) (jb_net j) t \<Longrightarrow>
     jobs_step cap shell inp s
       (s\<lparr>js_jobs := (js_jobs s)[i := j\<lparr>jb_net := t\<rparr>],
          js_store := extend_store (jb_out j) (written (jb_out j) (jb_net j) t) (js_store s)\<rparr>)"
| j_start: "js_left s = l # ls \<Longrightarrow> may_start (js_jobs s) \<Longrightarrow>
     jobs_step cap shell inp s
       (s\<lparr>js_jobs := js_jobs s @ [started (inp (length (js_jobs s))) (js_store s) l],
          js_store := open_store (la_out l) (js_store s), js_left := ls\<rparr>)"

section \<open>What the jobs mean\<close>

definition launch_result :: "string \<Rightarrow> launch \<Rightarrow> store \<Rightarrow> store" where
  "launch_result inp l st = write_store (la_out l) (composed (la_procs l) (read_store inp st (la_inp l 0))) st"

primrec jobs_result :: "(nat \<Rightarrow> string) \<Rightarrow> nat \<Rightarrow> launch list \<Rightarrow> store \<Rightarrow> store" where
  "jobs_result inp n [] st = st"
| "jobs_result inp n (l # ls) st = jobs_result inp (Suc n) ls (launch_result (inp n) l st)"

lemma jobs_result_snoc:
  "jobs_result inp n (ls @ [l]) st = launch_result (inp (n + length ls)) l (jobs_result inp n ls st)"
  by (induction ls arbitrary: n st) simp_all

text \<open>
  A plan: every line is a row whose pipes nobody else has, it does not write the file it reads, and what is started after a job in the
  background does not use the file this one writes, nor writes the one it reads.
\<close>

definition pipe_ends :: "proc list \<Rightarrow> nat set" where
  "pipe_ends ps = {k. \<exists>p\<in>set ps. PipeR k \<in> ran (pr_fds p) \<or> PipeW k \<in> ran (pr_fds p)}"

definition proper :: "launch \<Rightarrow> bool" where
  "proper l \<longleftrightarrow> row (la_size l) (la_inp l) (la_dst l) \<and> in_row (la_size l) (la_inp l) (la_dst l) (start_net (la_procs l) (\<lambda>f. []))
     \<and> tidy (la_size l) (la_dst l) [] (start_net (la_procs l) (\<lambda>f. [])) \<and> (\<forall>p\<in>set (la_procs l). \<not> gone (pr_state p))
     \<and> \<not> writes_into (la_out l) (la_inp l 0)"

definition apart :: "bool \<times> ofile \<times> ofile \<Rightarrow> bool \<times> ofile \<times> ofile \<Rightarrow> bool" where
  "apart = (\<lambda>(bg, src, snk) (bg', src', snk'). bg \<longrightarrow> \<not> same_sink snk snk' \<and> \<not> writes_into snk src' \<and> \<not> writes_into snk' src)"

definition la_use :: "launch \<Rightarrow> bool \<times> ofile \<times> ofile" where
  "la_use l = (la_bg l, la_inp l 0, la_out l)"

definition plan :: "fdtable \<Rightarrow> launch list \<Rightarrow> bool" where
  "plan shell ls \<longleftrightarrow> (\<forall>l\<in>set ls. proper l \<and> (\<forall>k\<in>pipe_ends (la_procs l). PipeR k \<notin> ran shell \<and> PipeW k \<notin> ran shell))
     \<and> sorted_wrt (\<lambda>l l'. pipe_ends (la_procs l) \<inter> pipe_ends (la_procs l') = {}) ls \<and> sorted_wrt apart (map la_use ls)"

section \<open>The invariant\<close>

text \<open>A job on its way: it is still a row, and it has no other pipes than at its start.\<close>

definition job_ok :: "launch \<Rightarrow> job \<Rightarrow> bool" where
  "job_ok l j \<longleftrightarrow> jb_out j = la_out l \<and> jb_bg j = la_bg l \<and> in_row (la_size l) (la_inp l) (la_dst l) (jb_net j)
     \<and> tidy (la_size l) (la_dst l) [] (jb_net j) \<and> pipe_ends (nt_procs (jb_net j)) \<subseteq> pipe_ends (la_procs l)"

text \<open>What the job will still write.\<close>

definition to_come :: "launch \<Rightarrow> net \<Rightarrow> string" where
  "to_come l s = flow (states (la_size l) s (la_size l - 1)) (finds (la_size l) (la_inp l) s (la_size l - 1))"

lemma outcome_to_come: "outcome (la_size l) (la_inp l) (la_dst l) s = nt_sinks s (la_out l) @ to_come l s"
  by (simp add: outcome_def to_come_def la_out_def)

lemma to_come_last_gone: "proper l \<Longrightarrow> job_ok l j \<Longrightarrow> last_gone (jb_net j) \<Longrightarrow> to_come l (jb_net j) = []"
  by (simp add: to_come_def last_gone_def proper_def job_ok_def in_row_def states_def row_def)

abbreviation pending :: "launch list \<Rightarrow> job list \<Rightarrow> (ofile \<times> string) list" where
  "pending ls js \<equiv> map2 (\<lambda>l j. (la_out l, to_come l (jb_net j))) ls js"

text \<open>
  The store is what it is going to be but for what the jobs still write; all but the last of the jobs that are not in the background have written
  everything.
\<close>

definition jobs_inv :: "fdtable \<Rightarrow> (nat \<Rightarrow> string) \<Rightarrow> launch list \<Rightarrow> store \<Rightarrow> jobs \<Rightarrow> bool" where
  "jobs_inv shell inp ls st0 s \<longleftrightarrow> (let m = length (js_jobs s) in
     plan shell ls \<and> m \<le> length ls \<and> js_left s = drop m ls \<and> (\<forall>i<m. job_ok (ls ! i) (js_jobs s ! i))
     \<and> (\<forall>i. Suc i < m \<longrightarrow> la_bg (ls ! i) \<or> last_gone (jb_net (js_jobs s ! i)))
     \<and> extend_all (pending ls (js_jobs s)) (js_store s) = jobs_result inp 0 (take m ls) st0)"

definition jobs_rank :: "launch list \<Rightarrow> jobs \<Rightarrow> nat \<times> nat" where
  "jobs_rank ls s = (length (js_left s), \<Sum>i<length (js_jobs s). row_rank (la_size (ls ! i)) (la_inp (ls ! i)) (jb_net (js_jobs s ! i)))"

section \<open>A move of a job\<close>

text \<open>Other tables without an end of its pipes do not disturb a row.\<close>

lemma tidy_beside: "tidy n dst [] s \<Longrightarrow> (\<forall>i k. Suc i < n \<longrightarrow> dst i = PipeW k \<longrightarrow> (\<forall>t\<in>set others. PipeW k \<notin> ran t \<and> PipeR k \<notin> ran t))
  \<Longrightarrow> tidy n dst others s"
  unfolding tidy_def by blast

lemma move_sinks: "net_step cap others s t \<Longrightarrow> nt_sinks t f = nt_sinks s f @ written f s t"
  by (auto simp: net_step_def written_def sinks_deliver elim!: net_move.cases)

lemma move_ends: "net_step cap others s t \<Longrightarrow> pipe_ends (nt_procs t) \<subseteq> pipe_ends (nt_procs s)"
proof -
  assume "net_step cap others s t"
  then obtain i where m: "net_move cap others i s t" by (auto simp: net_step_def)
  have "f \<in> ran (pr_fds (proc_at t j)) \<Longrightarrow> f \<in> ran (pr_fds (proc_at s j))" for f j
    using move_tables(2) [OF m, of j] by auto
  then show ?thesis using move_tables(1) [OF m] unfolding pipe_ends_def by (fastforce simp: in_set_conv_nth)
qed

lemma move_gone: "net_step cap others s t \<Longrightarrow> last_gone s \<Longrightarrow> last_gone t"
  unfolding net_step_def last_gone_def by (metis move_not_gone move_tables(1,3))

lemma in_take_drop: "x \<in> set (take i js @ drop (Suc i) js) \<longleftrightarrow> (\<exists>j<length js. j \<noteq> i \<and> x = js ! j)"
proof
  assume "x \<in> set (take i js @ drop (Suc i) js)"
  then consider j where "j < length (take i js)" "x = take i js ! j" | k where "k < length js - Suc i" "x = drop (Suc i) js ! k"
    by (auto simp: in_set_conv_nth simp del: length_take)
  then show "\<exists>j<length js. j \<noteq> i \<and> x = js ! j"
  proof cases
    case (2 k)
    then show ?thesis by (intro exI [of _ "Suc (i + k)"]) simp
  qed auto
next
  assume "\<exists>j<length js. j \<noteq> i \<and> x = js ! j"
  then obtain j where j: "j < length js" "j \<noteq> i" "x = js ! j" by blast
  show "x \<in> set (take i js @ drop (Suc i) js)"
  proof (cases "j < i")
    case True
    with j have "take i js ! j = x" "j < length (take i js)" by auto
    then show ?thesis using nth_mem [of j "take i js"] by auto
  next
    case False
    with j have "drop (Suc i) js ! (j - Suc i) = x" "j - Suc i < length (drop (Suc i) js)" by auto
    then show ?thesis using nth_mem [of "j - Suc i" "drop (Suc i) js"] by auto
  qed
qed

lemma proper_dst_ends:
  assumes "proper l" and "Suc i < la_size l" and "la_dst l i = PipeW k"
  shows "k \<in> pipe_ends (la_procs l)"
proof -
  have "la_procs l ! i \<in> set (la_procs l)" "\<not> gone (pr_state (la_procs l ! i))" using assms(1,2) by (auto simp: proper_def)
  moreover from this(2) have "pr_fds (la_procs l ! i) (pr_out (la_procs l ! i)) = Some (PipeW k)"
    using assms by (simp add: proper_def in_row_def)
  ultimately show ?thesis unfolding pipe_ends_def by (blast intro: ranI)
qed


text \<open>A job that moves: what it wrote comes from what it still had to write.\<close>

lemma job_move:
  assumes l: "proper l" and j: "job_ok l j" and m: "net_step cap others (jb_net j) t"
  shows "job_ok l (j\<lparr>jb_net := t\<rparr>)" and "to_come l (jb_net j) = written (la_out l) (jb_net j) t @ to_come l t"
    and "row_rank (la_size l) (la_inp l) t < row_rank (la_size l) (la_inp l) (jb_net j)"
proof -
  let ?n = "la_size l"
  from m obtain i where mv: "net_move cap others i (jb_net j) t" by (auto simp: net_step_def)
  have r: "row ?n (la_inp l) (la_dst l)" "in_row ?n (la_inp l) (la_dst l) (jb_net j)" using l j by (simp_all add: proper_def job_ok_def)
  note row = row_move [OF r mv]
  have "tidy ?n (la_dst l) [] t"
    using j move_tables(2) [OF mv] unfolding job_ok_def tidy_def by (metis empty_iff ran_empty)
  then show "job_ok l (j\<lparr>jb_net := t\<rparr>)" using j row(1) move_ends [OF m] by (auto simp: job_ok_def)
  show "to_come l (jb_net j) = written (la_out l) (jb_net j) t @ to_come l t"
    using row(2) unfolding outcome_to_come move_sinks [OF m, of "la_out l"] by simp
  show "row_rank ?n (la_inp l) t < row_rank ?n (la_inp l) (jb_net j)" by (rule row(3))
qed

text \<open>What an earlier job still writes does not go where a later one writes, or comes from.\<close>

lemma earlier_apart:
  assumes inv: "jobs_inv shell inp ls st0 s" and "i < length ls" and ij: "j < length (js_jobs s)" and "j < i"
    and fin: "Suc j < length (js_jobs s) \<or> la_bg (ls ! j) \<or> last_gone (jb_net (js_jobs s ! j))"
  shows "to_come (ls ! j) (jb_net (js_jobs s ! j)) = []
    \<or> \<not> same_sink (la_out (ls ! i)) (la_out (ls ! j)) \<and> \<not> writes_into (la_out (ls ! j)) (la_inp (ls ! i) 0)"
proof (cases "la_bg (ls ! j)")
  case True
  have "sorted_wrt apart (map la_use ls)" using inv by (simp add: jobs_inv_def plan_def Let_def)
  then have "apart (la_use (ls ! j)) (la_use (ls ! i))"
    using assms(2,4) by (simp add: sorted_wrt_iff_nth_less)
  then show ?thesis using True by (auto simp: apart_def la_use_def same_sink_def)
next
  case False
  then have "last_gone (jb_net (js_jobs s ! j))" using inv fin by (auto simp: jobs_inv_def Let_def)
  moreover have "proper (ls ! j)" "job_ok (ls ! j) (js_jobs s ! j)" using inv ij assms(2,4) by (simp_all add: jobs_inv_def plan_def Let_def)
  ultimately show ?thesis using to_come_last_gone by blast
qed


lemma pending_nth:
  "length js \<le> length ls \<Longrightarrow> i < length js \<Longrightarrow> pending ls js ! i = (la_out (ls ! i), to_come (ls ! i) (jb_net (js ! i)))"
  by simp

lemma extend_pending_step:
  assumes "i < length js" and "length js \<le> length ls" and c: "to_come (ls ! i) (jb_net (js ! i)) = c @ to_come (ls ! i) t"
    and ap: "\<forall>j<i. to_come (ls ! j) (jb_net (js ! j)) = [] \<or> \<not> same_sink (la_out (ls ! i)) (la_out (ls ! j))"
  shows "extend_all (pending ls (js[i := (js ! i)\<lparr>jb_net := t\<rparr>])) (extend_store (la_out (ls ! i)) c st) = extend_all (pending ls js) st"
proof -
  let ?x = "\<lambda>u. (la_out (ls ! i), to_come (ls ! i) u)" and ?a = "take i (pending ls js)" and ?b = "drop (Suc i) (pending ls js)"
  have i: "i < length (pending ls js)" using assms(1,2) by simp
  have "pending ls js = ?a @ ?x (jb_net (js ! i)) # ?b"
    using id_take_nth_drop [OF i] assms(1,2) by simp
  from arg_cong [OF this, of "\<lambda>ps. extend_all ps st"]
  have "extend_all (pending ls js) st = extend_all ?b (extend_store (la_out (ls ! i)) (c @ to_come (ls ! i) t) (extend_all ?a st))"
    by (simp add: c)
  moreover have "pending ls (js[i := (js ! i)\<lparr>jb_net := t\<rparr>]) = (pending ls js)[i := ?x t]"
    using assms(1,2) by (intro nth_equalityI) (simp_all add: nth_list_update)
  then have "pending ls (js[i := (js ! i)\<lparr>jb_net := t\<rparr>]) = ?a @ ?x t # ?b"
    using i by (simp add: upd_conv_take_nth_drop)
  moreover have "\<forall>(g, y)\<in>set ?a. y = [] \<or> \<not> same_sink (la_out (ls ! i)) g"
    using ap assms(1,2) by (fastforce simp: in_set_conv_nth)
  note extend_all_swap [OF this, of c st]
  ultimately show ?thesis by (simp add: extend_twice)
qed

lemma jobs_inv_move:
  assumes inv: "jobs_inv shell inp ls st0 s" and i: "i < length (js_jobs s)"
    and m: "net_step cap (beside shell (js_jobs s) i) (jb_net (js_jobs s ! i)) t"
  shows "jobs_inv shell inp ls st0 (s\<lparr>js_jobs := (js_jobs s)[i := (js_jobs s ! i)\<lparr>jb_net := t\<rparr>],
      js_store := extend_store (jb_out (js_jobs s ! i)) (written (jb_out (js_jobs s ! i)) (jb_net (js_jobs s ! i)) t) (js_store s)\<rparr>)"
    and "row_rank (la_size (ls ! i)) (la_inp (ls ! i)) t < row_rank (la_size (ls ! i)) (la_inp (ls ! i)) (jb_net (js_jobs s ! i))"
proof -
  let ?j = "js_jobs s ! i" and ?l = "ls ! i"
  have ls: "length (js_jobs s) \<le> length ls" "plan shell ls" using inv by (simp_all add: jobs_inv_def Let_def)
  then have l: "proper ?l" using i by (simp add: plan_def)
  have j: "job_ok ?l ?j" using inv i by (simp add: jobs_inv_def Let_def)
  then have out: "jb_out ?j = la_out ?l" by (simp add: job_ok_def)
  note mv = job_move [OF l j m]
  show "row_rank (la_size ?l) (la_inp ?l) t < row_rank (la_size ?l) (la_inp ?l) (jb_net ?j)" by (rule mv(3))
  have "to_come (ls ! k) (jb_net (js_jobs s ! k)) = [] \<or> \<not> same_sink (la_out ?l) (la_out (ls ! k))" if "k < i" for k
    using earlier_apart [OF inv _ _ that] that i ls(1) by auto
  then have ext: "extend_all (pending ls ((js_jobs s)[i := ?j\<lparr>jb_net := t\<rparr>])) (extend_store (la_out ?l) (written (la_out ?l) (jb_net ?j) t) (js_store s))
      = extend_all (pending ls (js_jobs s)) (js_store s)"
    using extend_pending_step [OF i ls(1) mv(2)] by blast
  have ok: "job_ok (ls ! k) ((js_jobs s)[i := ?j\<lparr>jb_net := t\<rparr>] ! k)" if "k < length (js_jobs s)" for k
    using inv that mv(1) i by (cases "k = i") (simp_all add: jobs_inv_def Let_def)
  have gone: "la_bg (ls ! k) \<or> last_gone (jb_net ((js_jobs s)[i := ?j\<lparr>jb_net := t\<rparr>] ! k))" if "Suc k < length (js_jobs s)" for k
    using inv that move_gone [OF m] i by (auto simp: jobs_inv_def Let_def nth_list_update)
  show "jobs_inv shell inp ls st0 (s\<lparr>js_jobs := (js_jobs s)[i := ?j\<lparr>jb_net := t\<rparr>],
      js_store := extend_store (jb_out ?j) (written (jb_out ?j) (jb_net ?j) t) (js_store s)\<rparr>)"
    using inv ok gone ext ls unfolding jobs_inv_def Let_def out by simp
qed


section \<open>The start of a job\<close>

lemma proper_start:
  assumes "proper l"
  shows "job_ok l (started inp st l)" and "to_come l (jb_net (started inp st l)) = composed (la_procs l) (read_store inp st (la_inp l 0))"
proof -
  let ?s = "start_net (la_procs l) (read_store inp st)"
  have r: "row (la_size l) (la_inp l) (la_dst l)" using assms by (simp add: proper_def)
  show "job_ok l (started inp st l)"
    using assms by (simp add: proper_def job_ok_def started_def in_row_def tidy_def)
  show "to_come l (jb_net (started inp st l)) = composed (la_procs l) (read_store inp st (la_inp l 0))"
    using start_outcome [OF r refl, of "read_store inp st"] unfolding outcome_to_come by (simp add: started_def)
qed

lemma jobs_inv_start:
  assumes inv: "jobs_inv shell inp ls st0 s" and l: "js_left s = l # rest" and may: "may_start (js_jobs s)"
  shows "jobs_inv shell inp ls st0 (s\<lparr>js_jobs := js_jobs s @ [started (inp (length (js_jobs s))) (js_store s) l],
      js_store := open_store (la_out l) (js_store s), js_left := rest\<rparr>)"
proof -
  let ?m = "length (js_jobs s)" and ?st = "js_store s" and ?ps = "pending ls (js_jobs s)"
  have ls: "plan shell ls" "drop ?m ls = l # rest" using inv l by (auto simp: jobs_inv_def Let_def)
  then have "?m < length ls" by (metis drop_eq_Nil list.distinct(1) not_le)
  with ls have ls: "plan shell ls" "?m < length ls" "drop ?m ls = l # rest" by simp_all
  then have m: "ls ! ?m = l" "rest = drop (Suc ?m) ls" "take (Suc ?m) ls = take ?m ls @ [l]"
    using Cons_nth_drop_Suc [of ?m ls] by (simp_all add: take_Suc_conv_app_nth)
  then have p: "proper l" using ls(1,2) nth_mem by (fastforce simp: plan_def)
  have fin: "Suc j < ?m \<or> la_bg (ls ! j) \<or> last_gone (jb_net (js_jobs s ! j))" if "j < ?m" for j
  proof (cases "Suc j = ?m")
    case True
    then have "js_jobs s \<noteq> []" "?m - 1 = j" by auto
    then have "last (js_jobs s) = js_jobs s ! j" by (simp add: last_conv_nth)
    moreover have "jb_bg (js_jobs s ! j) = la_bg (ls ! j)" using inv that by (simp add: jobs_inv_def Let_def job_ok_def)
    ultimately show ?thesis using may that by (auto simp: may_start_def)
  qed (use that in auto)
  have gone: "la_bg (ls ! j) \<or> last_gone (jb_net (js_jobs s ! j))" if "j < ?m" for j
    using fin [OF that] inv by (auto simp: jobs_inv_def Let_def)
  have ap: "to_come (ls ! j) (jb_net (js_jobs s ! j)) = [] \<or> \<not> same_sink (la_out l) (la_out (ls ! j)) \<and> \<not> writes_into (la_out (ls ! j)) (la_inp l 0)"
    if "j < ?m" for j using earlier_apart [OF inv ls(2) that that fin [OF that]] m(1) by simp
  have ps: "\<forall>(g, y)\<in>set ?ps. y = [] \<or> \<not> same_sink (la_out l) g" "\<forall>(g, y)\<in>set ?ps. y = [] \<or> \<not> writes_into g (la_inp l 0)"
    using ap ls(2) by (fastforce simp: in_set_conv_nth)+
  have S: "extend_all ?ps ?st = jobs_result inp 0 (take ?m ls) st0" using inv by (simp add: jobs_inv_def Let_def)
  have "pending ls (js_jobs s @ [j]) = ?ps @ [(la_out l, to_come l (jb_net j))]" for j
    using ls(3) zip_append2 [of ls "js_jobs s" "[]"] by (simp add: zip_append2)
  then have "extend_all (pending ls (js_jobs s @ [started (inp ?m) ?st l])) (open_store (la_out l) ?st) = jobs_result inp 0 (take (Suc ?m) ls) st0"
    using ls(2) proper_start(2) [OF p] read_extend_all [OF ps(2), of "inp ?m" ?st]
    by (simp add: m(3) jobs_result_snoc launch_result_def write_store_def open_all_swap [OF ps(1)] S [symmetric])
  moreover have "job_ok (ls ! i) ((js_jobs s @ [started (inp ?m) ?st l]) ! i)" if "i < Suc ?m" for i
    using that inv proper_start(1) [OF p] m(1) by (auto simp: nth_append less_Suc_eq jobs_inv_def Let_def)
  moreover have "la_bg (ls ! i) \<or> last_gone (jb_net ((js_jobs s @ [started (inp ?m) ?st l]) ! i))" if "Suc i < Suc ?m" for i
    using that gone by (simp add: nth_append)
  ultimately show ?thesis using ls(1,2) m(2) unfolding jobs_inv_def Let_def by (simp del: take_Suc)
qed


section \<open>Runs\<close>

lemma beside_others:
  assumes inv: "jobs_inv shell inp ls st0 s" and i: "i < length (js_jobs s)" and t: "t \<in> set (beside shell (js_jobs s) i)"
    and k: "k \<in> pipe_ends (la_procs (ls ! i))"
  shows "PipeW k \<notin> ran t \<and> PipeR k \<notin> ran t"
proof (cases "t = shell")
  case True
  then show ?thesis using inv i k by (auto simp: jobs_inv_def Let_def plan_def)
next
  case False
  then have "t \<in> (\<Union>j\<in>set (take i (js_jobs s) @ drop (Suc i) (js_jobs s)). set (tables j))" using t by (auto simp: beside_def)
  then obtain j where j: "j < length (js_jobs s)" "j \<noteq> i" "t \<in> set (tables (js_jobs s ! j))" unfolding UN_iff Bex_def in_take_drop by blast
  have d: "sorted_wrt (\<lambda>l l'. pipe_ends (la_procs l) \<inter> pipe_ends (la_procs l') = {}) ls" and n: "length (js_jobs s) \<le> length ls"
    and sub: "pipe_ends (nt_procs (jb_net (js_jobs s ! j))) \<subseteq> pipe_ends (la_procs (ls ! j))"
    using inv j(1) by (simp_all add: jobs_inv_def Let_def plan_def job_ok_def)
  have "pipe_ends (la_procs (ls ! i)) \<inter> pipe_ends (la_procs (ls ! j)) = {}"
    using sorted_wrt_nth_less [OF d, of i j] sorted_wrt_nth_less [OF d, of j i] n i j(1,2) by (cases "i < j") auto
  then have "k \<notin> pipe_ends (nt_procs (jb_net (js_jobs s ! j)))" using k sub by blast
  then show ?thesis using j(3) by (auto simp: tables_def pipe_ends_def)
qed

lemma jobs_move_or_gone:
  assumes inv: "jobs_inv shell inp ls st0 s" and cap: "1 \<le> cap" and i: "i < length (js_jobs s)"
    and stuck: "\<nexists>t. jobs_step cap shell inp s t"
  shows "all_gone (jb_net (js_jobs s ! i))"
proof -
  let ?l = "ls ! i" and ?s = "jb_net (js_jobs s ! i)" and ?o = "beside shell (js_jobs s) i"
  have l: "proper ?l" and j: "job_ok ?l (js_jobs s ! i)" using inv i by (simp_all add: jobs_inv_def Let_def plan_def)
  then have r: "row (la_size ?l) (la_inp ?l) (la_dst ?l)" "in_row (la_size ?l) (la_inp ?l) (la_dst ?l) ?s"
    "tidy (la_size ?l) (la_dst ?l) [] ?s" by (simp_all add: proper_def job_ok_def)
  have "tidy (la_size ?l) (la_dst ?l) ?o ?s"
    by (rule tidy_beside [OF r(3)]) (use beside_others [OF inv i _ proper_dst_ends [OF l]] in blast)
  note row = row_no_deadlock [OF r(1,2) this cap]
  have "\<nexists>t. net_step cap ?o ?s t" using stuck j_move [OF i refl] by blast
  with row have "\<forall>k<la_size ?l. gone (state_at ?s k)" by blast
  then show ?thesis using r(2) by (auto simp: all_gone_def in_row_def in_set_conv_nth)
qed

lemma jobs_done:
  assumes inv: "jobs_inv shell inp ls st0 s" and cap: "1 \<le> cap" and stuck: "\<nexists>t. jobs_step cap shell inp s t"
  shows "js_left s = [] \<and> (\<forall>j\<in>set (js_jobs s). all_gone (jb_net j)) \<and> js_store s = jobs_result inp 0 ls st0"
proof -
  let ?m = "length (js_jobs s)"
  have g: "\<forall>j\<in>set (js_jobs s). all_gone (jb_net j)"
    using jobs_move_or_gone [OF inv cap _ stuck] by (auto simp: in_set_conv_nth)
  have n: "last_gone (jb_net (js_jobs s ! i))" if "i < ?m" for i
  proof -
    have "proper (ls ! i)" "job_ok (ls ! i) (js_jobs s ! i)" using inv that by (simp_all add: jobs_inv_def Let_def plan_def)
    then have "length (nt_procs (jb_net (js_jobs s ! i))) - 1 < length (nt_procs (jb_net (js_jobs s ! i)))"
      by (simp add: proper_def job_ok_def in_row_def row_def)
    then show ?thesis using g nth_mem [OF that] nth_mem by (fastforce simp: all_gone_def last_gone_def)
  qed
  then have "may_start (js_jobs s)" by (cases "js_jobs s = []") (simp_all add: may_start_def last_conv_nth)
  then have l: "js_left s = []" using j_start [of s] stuck by (cases "js_left s") blast+
  have "to_come (ls ! i) (jb_net (js_jobs s ! i)) = []" if "i < ?m" for i
    using n [OF that] inv that to_come_last_gone by (simp add: jobs_inv_def Let_def plan_def)
  then have "\<forall>p\<in>set (pending ls (js_jobs s)). snd p = []"
    by (auto simp: in_set_conv_nth)
  then have "extend_all (pending ls (js_jobs s)) st = st" for st by (rule extend_all_nothing)
  with l g inv show ?thesis by (auto simp: jobs_inv_def Let_def)
qed

interpretation lines: ranked_system "jobs_step cap shell inp" "jobs_inv shell inp ls st0" "jobs_rank ls"
  for cap shell inp ls st0
proof unfold_locales
  fix s t
  assume inv: "jobs_inv shell inp ls st0 s" and "jobs_step cap shell inp s t"
  from this(2) show "jobs_inv shell inp ls st0 t" "jobs_rank ls t < jobs_rank ls s"
  proof (atomize (full), cases)
    case (j_move i j t')
    have "(\<Sum>k<length (js_jobs s). row_rank (la_size (ls ! k)) (la_inp (ls ! k)) (jb_net ((js_jobs s)[i := j\<lparr>jb_net := t'\<rparr>] ! k)))
        < (\<Sum>k<length (js_jobs s). row_rank (la_size (ls ! k)) (la_inp (ls ! k)) (jb_net (js_jobs s ! k)))"
    proof (rule sum_strict_mono_ex1)
      have "row_rank (la_size (ls ! i)) (la_inp (ls ! i)) t' < row_rank (la_size (ls ! i)) (la_inp (ls ! i)) (jb_net (js_jobs s ! i))"
        using jobs_inv_move(2) [OF inv] j_move by blast
      then show "\<forall>k\<in>{..<length (js_jobs s)}. row_rank (la_size (ls ! k)) (la_inp (ls ! k)) (jb_net ((js_jobs s)[i := j\<lparr>jb_net := t'\<rparr>] ! k))
          \<le> row_rank (la_size (ls ! k)) (la_inp (ls ! k)) (jb_net (js_jobs s ! k))"
        "\<exists>k\<in>{..<length (js_jobs s)}. row_rank (la_size (ls ! k)) (la_inp (ls ! k)) (jb_net ((js_jobs s)[i := j\<lparr>jb_net := t'\<rparr>] ! k))
          < row_rank (la_size (ls ! k)) (la_inp (ls ! k)) (jb_net (js_jobs s ! k))"
        using j_move(2) by (auto simp: nth_list_update intro: bexI [of _ i])
    qed simp
    then show "jobs_inv shell inp ls st0 t \<and> jobs_rank ls t < jobs_rank ls s"
      using jobs_inv_move(1) [OF inv] j_move by (simp add: jobs_rank_def)
  next
    case (j_start l rest)
    then show "jobs_inv shell inp ls st0 t \<and> jobs_rank ls t < jobs_rank ls s"
      using jobs_inv_start [OF inv] by (simp add: jobs_rank_def)
  qed
qed

text \<open>The jobs always end, and then the files are what the lines make of them one after the other.\<close>

theorem jobs_end:
  assumes "plan shell ls" and "1 \<le> cap"
  shows "always_ends (jobs_step cap shell inp) \<lparr>js_jobs = [], js_store = st, js_left = ls\<rparr>
     (\<lambda>s. js_left s = [] \<and> (\<forall>j\<in>set (js_jobs s). all_gone (jb_net j)) \<and> js_store s = jobs_result inp 0 ls st)"
proof (rule lines.ends [where shell = shell and inp = inp and ls = ls and ?st0.0 = st])
  show "jobs_inv shell inp ls st \<lparr>js_jobs = [], js_store = st, js_left = ls\<rparr>" using assms(1) by (simp add: jobs_inv_def)
qed (use jobs_done assms(2) in blast)

end
