(* ===== verification/ShellSession.thy ===== *)
theory ShellSession
  imports ShellNet PipeJobs ShellWaits
begin

text \<open>
  What a script means for the files it reads and writes (\<open>script_result\<close>), its children line by line, and what a run of the shell shows
  of its waiting: which of the lines it went on from without having waited for them (\<open>goes_on\<close>).
\<close>

section \<open>What a script means\<close>

text \<open>\<open>n\<close> lines and \<open>k\<close> calls of \<open>fork\<close> came before; which files can be opened depends on the latter in \<open>world\<close>.\<close>

fun script_result ::
  "world \<Rightarrow> (string \<Rightarrow> bool) \<Rightarrow> (string \<Rightarrow> string list \<Rightarrow> pstate) \<Rightarrow> (nat \<Rightarrow> string) \<Rightarrow> nat \<Rightarrow> nat \<Rightarrow> line list \<Rightarrow> store \<Rightarrow> store" where
  "script_result w can prog inp n k [] st = st"
| "script_result w can prog inp n k ((i, cs, ofl, t) # ls) st =
     script_result w can prog inp (Suc n) (k + length cs) ls
       (write_store (line_sink w k ofl)
          (line_result can prog cs (read_store (inp n) st (line_source w (k + length cs - 1) (t = T_AMP) i))) st)"

text \<open>The children of a script, line by line.\<close>

fun script_groups :: "world \<Rightarrow> sigtab \<Rightarrow> nat \<Rightarrow> nat \<Rightarrow> line list \<Rightarrow> child list list" where
  "script_groups w sigs k p [] = []"
| "script_groups w sigs k p ((i, cs, ofl, t) # ls) =
     line_children w (t = T_AMP) sigs k p i False cs ofl # script_groups w sigs (k + length cs) (p + (length cs - 1)) ls"

lemma concat_script_groups: "concat (script_groups w sigs k p ls) = script_children w sigs k p ls"
  by (induction w sigs k p ls rule: script_groups.induct) simp_all

lemma length_script_groups: "map length (script_groups w sigs k p ls) = map (\<lambda>(i, cs, ofl, t). length cs) ls"
  by (induction w sigs k p ls rule: script_groups.induct) simp_all

section \<open>What the shell waits for\<close>

text \<open>
  Whether one of the calls of \<open>waitpid\<close> in the run that led to \<open>t\<close> gave the process \<open>p\<close> before \<open>fork\<close> was called for the \<open>k\<close>-th time.
\<close>

definition waited_for :: "shell \<Rightarrow> nat \<Rightarrow> pid \<Rightarrow> bool" where
  "waited_for t k p \<longleftrightarrow> list_ex (\<lambda>(n, q). n \<le> k \<and> q = p) (sh_reaped t)"

text \<open>
  For every line, given by the children started for it: whether the shell started the next one without having waited for
  the rightmost command, which is started first.  The first \<open>fork\<close> is the \<open>k\<close>-th.
\<close>

fun goes_on :: "shell \<Rightarrow> nat \<Rightarrow> child list list \<Rightarrow> bool list" where
  "goes_on t k [] = []"
| "goes_on t k (kids # groups) = (\<not> waited_for t (k + length kids) (ch_pid (hd kids))) # goes_on t (k + length kids) groups"

definition in_background :: "line \<Rightarrow> bool" where
  "in_background = (\<lambda>(i, cs, ofl, t). t = T_AMP)"

lemma line_first_pid:
  assumes "cs \<noteq> []"
  shows "ch_pid (hd (line_children w bg sigs k p i b cs ofl)) = fork_result w k"
  using assms
proof (induction cs arbitrary: i b)
  case (Cons c cs)
  show ?case
  proof (cases "cs = []")
    case False
    let ?l = "line_children w bg sigs k p None True cs ofl"
    have "?l \<noteq> []" using False by (cases cs) simp_all
    then have "hd (?l @ ys) = hd ?l" for ys by simp
    with Cons.IH [OF False, of None True] show ?thesis by (simp only: line_children.simps)
  qed (simp add: stage_child_def)
qed simp

text \<open>It does so only after a line in the background.\<close>

lemma goes_on_background:
  assumes "\<forall>x\<in>set ls. good_line x" and "map_prod id (fork_result w) ` set (foreground_reaps k ls) \<subseteq> set (sh_reaped t)"
  shows "list_all2 (\<longrightarrow>) (goes_on t k (script_groups w sigs k p ls)) (map in_background ls)"
  using assms
proof (induction ls arbitrary: k p)
  case (Cons x ls)
  obtain i cs ofl t' where x: "x = (i, cs, ofl, t')" by (metis prod.exhaust)
  with Cons.prems(1) have "cs \<noteq> []" by (simp add: good_line_def)
  moreover have "t' \<noteq> T_AMP \<Longrightarrow> (k + length cs, fork_result w k) \<in> set (sh_reaped t)"
    using Cons.prems(2) by (simp add: x)
  then have "t' \<noteq> T_AMP \<Longrightarrow> waited_for t (k + length cs) (fork_result w k)"
    by (fastforce simp: waited_for_def list_ex_iff)
  moreover have "list_all2 (\<longrightarrow>) (goes_on t (k + length cs) (script_groups w sigs (k + length cs) (p + (length cs - 1)) ls)) (map in_background ls)"
    using Cons.IH [of "k + length cs"] Cons.prems by (simp add: x image_Un)
  ultimately show ?case by (auto simp: x in_background_def line_first_pid)
qed simp

text \<open>A script of lines in which every command starts its process: its children, and how the shell waited.\<close>

lemma main_waits:
  assumes "\<forall>k. w_malloc w k" and "\<forall>k. w_fork w k \<noteq> None" and "6 \<le> w_nofile w" and "inj (fork_result w)" and "children_end w"
    and "\<forall>x\<in>set ls. good_line x"
  shows "\<exists>t. main w (init_shell (script_text ls) env) = (Exit 0, t) \<and> sh_kids t = script_children w ignoring 0 0 ls
     \<and> list_all2 (\<longrightarrow>) (goes_on t 0 (script_groups w ignoring 0 0 ls)) (map in_background ls)"
proof -
  let ?i = "init_shell (script_text ls) env"
  let ?s = "?i\<lparr>sh_sigs := ignore_sig (sh_sigs ?i)\<rparr>"
  have s: "sh_stdin ?s = script_text ls @ []" "sh_fds ?s = std_fds" "reap_inv w {} ?s" "sh_kids ?s = []" "sh_sigs ?s = ignoring" "sh_forks ?s = 0"
    "sh_pipes ?s = 0" "\<not> sh_ferror ?s"
    by (simp_all add: init_shell_def ignore_sig_def ignoring_def reap_inv_def)
  from shell_loop_waits [OF assms s(1-3), of T_NL] obtain tm t where t: "shell_loop w T_NL ?s = shell_loop w tm t" "sh_stdin t = []"
    "sh_kids t = script_children w ignoring 0 0 ls" "map_prod id (fork_result w) ` set (foreground_reaps 0 ls) \<subseteq> set (sh_reaped t)" "\<not> sh_ferror t"
    unfolding s(4-7) using s(8) by auto
  let ?t = "errs [stdin_error_msg, ''Bad command'' @ [NL]] (if tm = T_NL then out [PROMPT] t else t)"
  have "main w ?i = (Exit 0, ?t)"
    unfolding main_def start_shell_def t(1) shell_loop_at_end [OF t(2,5)] by simp
  moreover have "sh_kids ?t = script_children w ignoring 0 0 ls" "map_prod id (fork_result w) ` set (foreground_reaps 0 ls) \<subseteq> set (sh_reaped ?t)"
    using t(3,4) by simp_all
  ultimately show ?thesis using goes_on_background [OF assms(6)] by blast
qed

end
