(* ===== verification/ShellJobs.thy ===== *)
theory ShellJobs
  imports ShellSession
begin

text \<open>
  Scripts, also with lines in the background: the children that a run of the shell starts for the lines are jobs of \<open>PipeJobs\<close>, which run
  at the same time as the shell and each other.  Whether the shell waits for a job before it starts the next one is taken from the same run.
\<close>

section \<open>Lines as jobs\<close>

text \<open>\<open>bgs\<close> says for every line whether the shell went on without having waited for it.\<close>

definition launches :: "(string \<Rightarrow> string list \<Rightarrow> pstate) \<Rightarrow> bool list \<Rightarrow> child list list \<Rightarrow> launch list" where
  "launches prog = map2 (\<lambda>bg kids. \<lparr>la_procs = line_procs prog kids, la_bg = bg\<rparr>)"

text \<open>A line that does not write the file it reads.\<close>

definition job_line :: "line \<Rightarrow> bool" where
  "job_line = (\<lambda>(i, cs, ofl, t). good_line (i, cs, ofl, t) \<and> (\<forall>app f. ofl = Some (app, f) \<longrightarrow> i \<noteq> Some f))"

text \<open>Which files the lines read and write.\<close>

fun line_uses :: "world \<Rightarrow> nat \<Rightarrow> line list \<Rightarrow> (bool \<times> ofile \<times> ofile) list" where
  "line_uses w k [] = []"
| "line_uses w k ((i, cs, ofl, t) # ls) =
     (t = T_AMP, line_source w (k + length cs - 1) (t = T_AMP) i, line_sink w k ofl) # line_uses w (k + length cs) ls"

text \<open>No line uses the file that a line in the background before it writes, or writes the one it reads.\<close>

definition independent :: "world \<Rightarrow> line list \<Rightarrow> bool" where
  "independent w ls \<longleftrightarrow> sorted_wrt apart (line_uses w 0 ls)"

lemma line_uses_foreground: "\<forall>x\<in>set ls. \<not> in_background x \<Longrightarrow> u \<in> set (line_uses w k ls) \<Longrightarrow> \<not> fst u"
  by (induction w k ls rule: line_uses.induct) (auto simp: in_background_def)

text \<open>In particular, lines in the foreground are independent.\<close>

lemma foreground_independent:
  assumes "\<forall>x\<in>set ls. \<not> in_background x"
  shows "independent w ls"
proof -
  have "sorted_wrt (\<lambda>u v. True) us" for us :: "(bool \<times> ofile \<times> ofile) list" by (induction us) auto
  then show ?thesis unfolding independent_def
    by (rule sorted_wrt_mono_rel [rotated]) (use line_uses_foreground [OF assms] in \<open>fastforce simp: apart_def\<close>)
qed

section \<open>A line is a proper job\<close>

lemma row_cong:
  assumes "\<And>j. j < n \<Longrightarrow> inp j = inp' j" and "\<And>j. j < n \<Longrightarrow> dst j = dst' j"
  shows "row n inp dst \<longleftrightarrow> row n inp' dst'" "in_row n inp dst s \<longleftrightarrow> in_row n inp' dst' s" "tidy n dst others s \<longleftrightarrow> tidy n dst' others s"
proof -
  have "inj_on inp {..<n} \<longleftrightarrow> inj_on inp' {..<n}" by (rule inj_on_cong) (use assms(1) in simp)
  then show "row n inp dst \<longleftrightarrow> row n inp' dst'" using assms unfolding row_def by (metis Suc_lessD diff_less zero_less_one)
  show "in_row n inp dst s \<longleftrightarrow> in_row n inp' dst' s" using assms unfolding in_row_def by auto
  show "tidy n dst others s \<longleftrightarrow> tidy n dst' others s" 
    unfolding tidy_def by (intro arg_cong [of _ _ All] ext) (use assms(2) in auto)
qed

lemma line_launch:
  fixes sigs :: sigtab and p k :: nat and bg :: bool
  assumes x: "job_line (i, cs, ofl, t)" and can: "\<forall>k f. w_exec w k f = can f" and prog: "\<forall>path args. \<not> gone (prog path args)"
  defines "l \<equiv> \<lparr>la_procs = line_procs prog (line_children w (t = T_AMP) sigs k p i False cs ofl), la_bg = bg\<rparr>"
  shows "proper l" and "pipe_ends (la_procs l) \<subseteq> {p..<p + (length cs - 1)}"
    and "la_use l = (bg, line_source w (k + length cs - 1) (t = T_AMP) i, line_sink w k ofl)"
    and "composed (la_procs l) = line_result can prog cs"
proof -
  let ?n = "length cs" and ?kids = "line_children w (t = T_AMP) sigs k p i False cs ofl"
  let ?inp = "line_inp w k p (t = T_AMP) i ?n" and ?dst = "line_dst w k p ofl ?n"
  have n: "0 < ?n" "la_size l = ?n" using x by (auto simp: job_line_def good_line_def l_def)
  have fds: "pr_fds (la_procs l ! j) = [0 \<mapsto> ?inp j, 1 \<mapsto> ?dst j, 2 \<mapsto> Std 2]" if "j < ?n" for j
    unfolding l_def using line_fds [OF that] by simp
  have io: "pr_in (la_procs l ! j) = 0" "pr_out (la_procs l ! j) = 1" "\<not> gone (pr_state (la_procs l ! j))" if "j < ?n" for j
    unfolding l_def launch.simps line_proc_nth [OF that] using prog by (simp_all add: child_proc_def child_state_def stage_child_def)
  have f: "la_inp l j = ?inp j" "la_dst l j = ?dst j" if "j < ?n" for j
    using fds [OF that] io [OF that] by (simp_all add: la_inp_def la_dst_def)
  note C = row_cong [of ?n "la_inp l" ?inp "la_dst l" ?dst, OF f(1) f(2)]
  have src: "la_inp l 0 = line_source w (k + ?n - 1) (t = T_AMP) i" using f(1) n(1) by (simp add: line_inp_def)
  have snk: "la_out l = line_sink w k ofl" using f(2) [of "?n - 1"] n by (simp add: la_out_def line_dst_def)
  have "\<not> writes_into (la_out l) (la_inp l 0)"
    using x unfolding src snk
    by (auto simp: job_line_def writes_into_def target_def line_source_def line_sink_def split: option.splits if_splits)
  moreover have "\<forall>q\<in>set (la_procs l). \<not> gone (pr_state q)" using io(3) n by (auto simp: in_set_conv_nth)
  moreover have "row ?n ?inp ?dst" by (rule line_row) (use n in simp)
  moreover have "in_row ?n ?inp ?dst (start_net (la_procs l) (\<lambda>f. []))"
    unfolding l_def launch.simps by (rule line_in_row [OF prog refl])
  moreover have "tidy ?n ?dst [] (start_net (la_procs l) (\<lambda>f. []))"
    unfolding l_def launch.simps by (rule line_tidy [OF refl]) simp
  ultimately show "proper l" unfolding proper_def n(2) using C by blast
  show "la_use l = (bg, line_source w (k + ?n - 1) (t = T_AMP) i, line_sink w k ofl)"
    using src snk by (simp add: la_use_def) (simp add: l_def)
  show "composed (la_procs l) = line_result can prog cs" unfolding l_def using line_composed [OF can] by simp
  show "pipe_ends (la_procs l) \<subseteq> {p..<p + (?n - 1)}"
  proof
    fix q
    assume "q \<in> pipe_ends (la_procs l)"
    then obtain j where "j < ?n" "PipeR q \<in> ran (pr_fds (la_procs l ! j)) \<or> PipeW q \<in> ran (pr_fds (la_procs l ! j))"
      using n(2) by (auto simp: pipe_ends_def in_set_conv_nth)
    moreover obtain m where "?n = Suc m" using n(1) gr0_conv_Suc by blast
    ultimately show "q \<in> {p..<p + (?n - 1)}"
      using fds [of j] line_source_cases(1,2) [symmetric] line_sink_cases(1,2) [symmetric]
      by (auto simp: ran_child line_inp_def line_dst_def simp del: ran_map_upd split: if_splits)
  qed
qed

section \<open>A script is a plan\<close>

lemma launches_Cons [simp]:
  "launches prog (bg # bgs) (kids # groups) = \<lparr>la_procs = line_procs prog kids, la_bg = bg\<rparr> # launches prog bgs groups"
  by (simp add: launches_def)

lemma launches_Nil [simp]: "launches prog [] groups = []"
  by (simp add: launches_def)

text \<open>The uses of the lines when those in the background may also have been waited for.\<close>

lemma apart_weaker:
  assumes "list_all2 (\<lambda>u v. (fst u \<longrightarrow> fst v) \<and> snd u = snd v) us vs" and "sorted_wrt apart vs"
  shows "sorted_wrt apart us"
  using assms by (fastforce simp: sorted_wrt_iff_nth_less list_all2_conv_all_nth apart_def split_beta)

lemma script_plan:
  fixes sigs :: sigtab
  assumes "\<forall>x\<in>set ls. job_line x" and can: "\<forall>k f. w_exec w k f = can f" and prog: "\<forall>path args. \<not> gone (prog path args)"
    and "list_all2 (\<longrightarrow>) bgs (map in_background ls)"
  defines "plan_of \<equiv> \<lambda>k p bgs ls. launches prog bgs (script_groups w sigs k p ls)"
  shows "\<forall>l\<in>set (plan_of k p bgs ls). proper l \<and> pipe_ends (la_procs l) \<subseteq> {p..}"
    and "sorted_wrt (\<lambda>l l'. pipe_ends (la_procs l) \<inter> pipe_ends (la_procs l') = {}) (plan_of k p bgs ls)"
    and "list_all2 (\<lambda>u v. (fst u \<longrightarrow> fst v) \<and> snd u = snd v) (map la_use (plan_of k p bgs ls)) (line_uses w k ls)"
    and "jobs_result inp n (plan_of k p bgs ls) st = script_result w can prog inp n k ls st"
  using assms(1,4)
proof (atomize (full), induction ls arbitrary: k p n st bgs)
  case Nil
  then show ?case by (simp add: plan_of_def)
next
  case (Cons x ls)
  obtain i cs ofl t where x: "x = (i, cs, ofl, t)" by (metis prod.exhaust)
  with Cons.prems have j: "job_line (i, cs, ofl, t)" by simp
  from Cons.prems obtain bg bgs' where bgs: "bgs = bg # bgs'" "bg \<longrightarrow> t = T_AMP" "list_all2 (\<longrightarrow>) bgs' (map in_background ls)"
    by (auto simp: x in_background_def list_all2_Cons2)
  let ?l = "\<lparr>la_procs = line_procs prog (line_children w (t = T_AMP) sigs k p i False cs ofl), la_bg = bg\<rparr>"
  let ?rest = "plan_of (k + length cs) (p + (length cs - 1)) bgs' ls"
  note L = line_launch [OF j can prog, of sigs k p bg]
  have pl: "plan_of k p bgs (x # ls) = ?l # ?rest" by (simp add: plan_of_def x bgs)
  have IH: "\<forall>l\<in>set ?rest. proper l \<and> pipe_ends (la_procs l) \<subseteq> {p + (length cs - 1)..}"
    "sorted_wrt (\<lambda>l l'. pipe_ends (la_procs l) \<inter> pipe_ends (la_procs l') = {}) ?rest"
    "list_all2 (\<lambda>u v. (fst u \<longrightarrow> fst v) \<and> snd u = snd v) (map la_use ?rest) (line_uses w (k + length cs) ls)"
    "jobs_result inp n ?rest st = script_result w can prog inp n (k + length cs) ls st" for n st
    using Cons.IH [OF _ bgs(3), of "k + length cs" "p + (length cs - 1)"] Cons.prems(1) by simp_all
  have "pipe_ends (la_procs ?l) \<inter> pipe_ends (la_procs l) = {}" if "l \<in> set ?rest" for l
    using IH(1) L(2) that by fastforce
  moreover have "proper l \<and> pipe_ends (la_procs l) \<subseteq> {p..}" if "l \<in> set ?rest" for l
    using IH(1) that by fastforce
  moreover have "la_inp ?l 0 = line_source w (k + length cs - 1) (t = T_AMP) i" "la_out ?l = line_sink w k ofl"
    using L(3) by (simp_all add: la_use_def)
  ultimately show ?case
    unfolding pl using IH(2-4) L bgs(2) by (auto simp: x launch_result_def)
qed

section \<open>The property\<close>

text \<open>
C1: A script means what it says, also with lines in the background.  When the allocations and forks succeed, no pid is given twice and every
child ends, \<open>main\<close> reads the text of the lines and starts the children of one after the other.  The processes of all lines run at the
same time, in any interleaving, over pipes of any capacity; a line starts when the rightmost command of the one before has ended if the
run of \<open>main\<close> shows that \<open>waitpid\<close> gave that process before the line's first \<open>fork\<close> (\<open>goes_on\<close>), and at any time otherwise.  If no line
uses the file that a background line before it writes, or writes the one it reads, no run deadlocks, every run ends, and
then the files and the terminal are what the lines make of them as functions, in their order, each composing its
commands, with \<open><\<close>, \<open>>\<close> and \<open>>>\<close> read, replaced and extended.  Lines in the foreground are always independent.
\<close>

theorem script_jobs_compute:
  assumes "\<forall>k. w_malloc w k" and "\<forall>k. w_fork w k \<noteq> None" and "6 \<le> w_nofile w" and ce: "children_end w"
    and inj: "\<forall>j k. w_fork w j = w_fork w k \<longrightarrow> j = k" and can: "\<forall>k f. w_exec w k f = can f"
    and ls: "\<forall>x\<in>set ls. job_line x" and ind: "independent w ls" and prog: "\<forall>path args. \<not> gone (prog path args)" and cap: "1 \<le> cap"
  shows "\<exists>t groups. main w (init_shell (script_text ls) env) = (Exit 0, t) \<and> sh_kids t = concat groups
     \<and> map length groups = map (\<lambda>(i, cs, ofl, t). length cs) ls
     \<and> (\<forall>st. always_ends (jobs_step cap std_fds inp) \<lparr>js_jobs = [], js_store = st, js_left = launches prog (goes_on t 0 groups) groups\<rparr>
          (\<lambda>s. js_left s = [] \<and> (\<forall>j\<in>set (js_jobs s). all_gone (jb_net j)) \<and> js_store s = script_result w can prog inp 0 0 ls st))"
proof -
  let ?groups = "script_groups w ignoring 0 0 ls"
  have good: "\<forall>x\<in>set ls. good_line x" using ls by (auto simp: job_line_def)
  have "inj (fork_result w)"
    using inj assms(2) by (fastforce simp: inj_def fork_result_def split: option.splits)
  from main_waits [OF assms(1-3) this ce good, of env] obtain t where
    t: "main w (init_shell (script_text ls) env) = (Exit 0, t)" "sh_kids t = script_children w ignoring 0 0 ls"
    and bgs: "list_all2 (\<longrightarrow>) (goes_on t 0 ?groups) (map in_background ls)" by blast
  note P = script_plan [OF ls can prog bgs, where sigs = ignoring and k = 0 and p = 0]
  have "PipeR k \<notin> ran std_fds \<and> PipeW k \<notin> ran std_fds" for k by (auto simp: std_fds_def ran_child simp del: ran_map_upd)
  then have "plan std_fds (launches prog (goes_on t 0 ?groups) ?groups)"
    using P(1,2) apart_weaker [OF P(3)] ind by (simp add: plan_def independent_def)
  note runs = jobs_end [OF this cap, unfolded P(4)]
  show ?thesis
    by (intro exI [of _ t] exI [of _ ?groups]) (use t runs in \<open>simp add: concat_script_groups length_script_groups\<close>)
qed

lemma script_jobs_compute_witness:
  "\<exists>t groups. main easy_world (init_shell (script_text [(Some ''in'', [[''sort''], [''uniq'']], Some (False, ''tmp''), T_AMP),
        (Some ''in'', [[''wc'']], Some (True, ''out''), T_AMP), (Some ''x'', [[''cat'']], None, T_NL)]) []) = (Exit 0, t) \<and> sh_kids t = concat groups
     \<and> always_ends (jobs_step 1 std_fds (\<lambda>n. []))
         \<lparr>js_jobs = [], js_store = \<lparr>st_files = (\<lambda>p. ''0''), st_term = []\<rparr>,
          js_left = launches (\<lambda>path args. Works (\<lambda>x. x @ path) []) (goes_on t 0 groups) groups\<rparr>
         (\<lambda>s. js_store s = \<lparr>st_files = (\<lambda>p. ''0'')(''tmp'' := ''0sortuniq'', ''out'' := ''00wc''), st_term = ''0cat''\<rparr>)"
proof -
  let ?ls = "[(Some ''in'', [[''sort''], [''uniq'']], Some (False, ''tmp''), T_AMP), (Some ''in'', [[''wc'']], Some (True, ''out''), T_AMP),
      (Some ''x'', [[''cat'']], None, T_NL)]"
    and ?prog = "\<lambda>path args. Works (\<lambda>x. x @ path) []" and ?st = "\<lparr>st_files = (\<lambda>p. ''0''), st_term = []\<rparr>"
  have ls: "\<forall>x\<in>set ?ls. job_line x"
    by (simp add: job_line_def good_line_def good_args_def good_word_def no_nul_def runs_program_def is_builtin_def terminators_def
        MAXARG_def MAXWORD_def)
  have ind: "independent easy_world ?ls"
    by (simp add: independent_def apart_def line_source_def line_sink_def same_sink_def writes_into_def target_def easy_world_def)
  have can: "\<forall>k f. w_exec easy_world k f = True" and inj: "\<forall>j k. w_fork easy_world j = w_fork easy_world k \<longrightarrow> j = k"
    by (simp_all add: easy_world_def)
  have prog: "\<forall>path args. \<not> gone (?prog path args)" by simp
  have res: "script_result easy_world (\<lambda>f. True) ?prog (\<lambda>n. []) 0 0 ?ls ?st
      = \<lparr>st_files = (\<lambda>p. ''0'')(''tmp'' := ''0sortuniq'', ''out'' := ''00wc''), st_term = ''0cat''\<rparr>"
    by (simp add: line_sink_def line_source_def line_result_def read_store_def write_store_def open_store_def extend_store_def easy_world_def)
  from script_jobs_compute [OF easy_world_ok inj can ls ind prog order.refl, of "[]" "\<lambda>n. []"] obtain t groups where
    m: "main easy_world (init_shell (script_text ?ls) []) = (Exit 0, t)" "sh_kids t = concat groups"
    and runs: "\<And>st. always_ends (jobs_step 1 std_fds (\<lambda>n. [])) \<lparr>js_jobs = [], js_store = st, js_left = launches ?prog (goes_on t 0 groups) groups\<rparr>
          (\<lambda>s. js_left s = [] \<and> (\<forall>j\<in>set (js_jobs s). all_gone (jb_net j)) \<and> js_store s = script_result easy_world (\<lambda>f. True) ?prog (\<lambda>n. []) 0 0 ?ls st)"
    by blast
  from runs [of ?st, unfolded res] have "always_ends (jobs_step 1 std_fds (\<lambda>n. []))
      \<lparr>js_jobs = [], js_store = ?st, js_left = launches ?prog (goes_on t 0 groups) groups\<rparr>
      (\<lambda>s. js_store s = \<lparr>st_files = (\<lambda>p. ''0'')(''tmp'' := ''0sortuniq'', ''out'' := ''00wc''), st_term = ''0cat''\<rparr>)"
    by (rule always_ends_mono) blast
  with m show ?thesis by blast
qed

end
