(* ===== verification/Cl.thy ===== *)
theory Cl
  imports ShellExec
begin

text \<open>
  The command-line program \<open>process/cl.c\<close>: \<open>getargs\<close> with its \<open>fgets\<close> and \<open>strtok\<close>, \<open>execute\<close>,
  \<open>execute2\<close>, \<open>execute3\<close>, \<open>print_user\<close> and \<open>main\<close>.  Its \<open>set\<close> and \<open>asg\<close> are those of
  \<open>communication/shell.c\<close>, and its state is the record \<open>shell\<close>, of which it uses the input, the
  trace, the environment and the children.  A child that could not be replaced by \<open>execvp\<close> returns
  from \<open>execute3\<close> into the loop of \<open>main\<close>; the model runs that loop for it, with the parent's state
  at the \<open>fork\<close>, before the parent's \<open>waitpid\<close> returns.
\<close>

section \<open>Reading a line\<close>

definition CL_MAXLINE :: nat where "CL_MAXLINE = 200"
definition CL_MAXARG :: nat where "CL_MAXARG = 20"

text \<open>\<open>getchar\<close>, with \<open>None\<close> for \<open>EOF\<close>, which it gives again at every further call.\<close>

definition getchar :: "string \<Rightarrow> char option \<times> string" where
  "getchar s = (case s of [] \<Rightarrow> (None, []) | c # r \<Rightarrow> (Some c, r))"

text \<open>The loop that eats the rest of a long line.  \<open>EOF\<close> falls into \<open>continue\<close>, like any character but the newline; the messages of
  \<open>error\<close> in a loop that does not end are left out.\<close>

partial_function (option) eat_line :: "string \<Rightarrow> string option" where
  "eat_line s = (case getchar s of (c, r) \<Rightarrow> if c = Some NL then Some r else eat_line r)"

lemma eat_line_suffix: "eat_line s = Some r \<Longrightarrow> \<exists>p. s = p @ NL # r"
proof (induction rule: eat_line.raw_induct [rotated 1, consumes 1, case_names step])
  case (step eat s r)
  show ?case
  proof (cases s)
    case (Cons c s')
    show ?thesis
    proof (cases "c = NL")
      case True
      with step Cons show ?thesis by (intro exI [of _ "[]"]) (simp add: getchar_def)
    next
      case False
      with step Cons obtain p where "s' = p @ NL # r" by (auto simp: getchar_def)
      with Cons show ?thesis by (intro exI [of _ "c # p"]) simp
    qed
  next
    case Nil
    with step(2) have "eat [] = Some r" by (simp add: getchar_def)
    from step(1) [OF this] show ?thesis by simp
  qed
qed

text \<open>At the end of the file it never ends.\<close>

lemma eat_line_at_end [simp]: "eat_line [] = None"
  using eat_line_suffix [of "[]"] by (cases "eat_line []") auto

lemma eat_line_Cons [simp]: "eat_line (c # s) = (if c = NL then Some s else eat_line s)"
  by (simp add: eat_line.simps [of "c # s"] getchar_def)

section \<open>\<open>getargs\<close>\<close>

definition blanks :: string where "blanks = [SPC, TAB, NL]"

text \<open>The loop over \<open>strtok\<close>: the arguments, or \<open>None\<close> when the array has no room for the final null
  pointer.\<close>

fun args_loop :: "nat \<Rightarrow> string \<Rightarrow> string list option" where
  "args_loop 0 s = None"
| "args_loop (Suc k) s =
     (case strtok s blanks of
        None \<Rightarrow> Some []
      | Some (a, r) \<Rightarrow> map_option ((#) a) (args_loop k r))"

datatype getres = Args "string list" | Ignored | AtEof

definition cl_error :: "shell \<Rightarrow> shell" where
  "cl_error s = err ''Error reading commands'' s"

definition getargs :: "shell \<Rightarrow> (getres \<times> shell) option" where
  "getargs s =
     (case fgets CL_MAXLINE (sh_ferror s) (sh_stdin s) of
        (None, r) \<Rightarrow>
          (let s1 = s\<lparr>sh_stdin := r\<rparr>
           in Some (AtEof, if sh_ferror s then cl_error s1 else s1))
      | (Some l, r) \<Rightarrow>
          (let cmd = takeWhile (\<lambda>c. c \<noteq> NUL) l in
           if strchr cmd NL = None then
             (case eat_line r of
                None \<Rightarrow> None
              | Some r' \<Rightarrow>
                  Some (Ignored, out (''Line too long -- command ignored'' @ [NL]) (s\<lparr>sh_stdin := r'\<rparr>)))
           else (case args_loop CL_MAXARG cmd of
                None \<Rightarrow>
                  Some (Ignored, out (''Too many args -- command ignored'' @ [NL]) (s\<lparr>sh_stdin := r\<rparr>))
              | Some argv \<Rightarrow> Some (Args argv, s\<lparr>sh_stdin := r\<rparr>))))"

section \<open>Running a program\<close>

text \<open>
  Besides the answers the shell needs: the ids of the process, the user and group databases, and
  whether parent and child read the same stream or each the copy of the input that was buffered at
  the \<open>fork\<close>.
\<close>

record cl_world =
  cw_world :: world
  cw_uid :: int
  cw_euid :: int
  cw_gid :: int
  cw_egid :: int
  cw_pwuid :: "int \<Rightarrow> string option"
  cw_grgid :: "int \<Rightarrow> string option"
  cw_shared :: bool

text \<open>\<open>execute\<close> replaces the process (\<open>None\<close>) or complains.\<close>

definition execute :: "cl_world \<Rightarrow> string list \<Rightarrow> shell \<Rightarrow> shell option" where
  "execute w argv s =
     (if w_exec (cw_world w) (sh_forks s) (hd argv) then None
      else Some (out (''Can'' @ [CHR 0x27] @ ''t execute'' @ [NL]) s))"

text \<open>
  \<open>execute3\<close> up to what a child does that could not be replaced: \<open>Back\<close> is the return in the parent;
  \<open>InChild\<close> the return in the child, with the state it has and the state of the parent that waits
  for it; \<open>Waits\<close> the parent in \<open>waitpid\<close>, for ever, when the program never ends.
\<close>

datatype exec_result = Back shell | InChild pid shell shell | Waits shell

definition reaped :: "cl_world \<Rightarrow> shell \<Rightarrow> wstatus option" where
  "reaped w s = map_option snd (w_reap (cw_world w) (sh_waits s))"

definition program_child :: "pid \<Rightarrow> string list \<Rightarrow> shell \<Rightarrow> child" where
  "program_child pid argv s =
     \<lparr>ch_pid = pid, ch_sigs = sh_sigs s, ch_fds = sh_fds s, ch_trace = [], ch_end = Exec (hd argv) argv\<rparr>"

definition fork_exec :: "cl_world \<Rightarrow> (pid \<Rightarrow> wstatus \<Rightarrow> shell \<Rightarrow> shell) \<Rightarrow> string list \<Rightarrow> shell \<Rightarrow> exec_result" where
  "fork_exec w report argv s =
     (let k = sh_forks s; pid = fork_result (cw_world w) k; s1 = s\<lparr>sh_forks := Suc k\<rparr> in
      if pid = - 1 then Back (out ''Parent error'' s1)
      else if w_exec (cw_world w) k (hd argv) then
        (let s2 = s1\<lparr>sh_kids := sh_kids s1 @ [program_child pid argv s1], sh_waits := Suc (sh_waits s1)\<rparr> in
         case reaped w s1 of None \<Rightarrow> Waits s2 | Some status \<Rightarrow> Back (report pid status s2))
      else InChild pid (out ''Should not reach here'' s1) s1)"

definition report3 :: "pid \<Rightarrow> wstatus \<Rightarrow> shell \<Rightarrow> shell" where
  "report3 pid status s = out (display_status pid status) s"

definition execute2 :: "cl_world \<Rightarrow> string list \<Rightarrow> shell \<Rightarrow> exec_result" where
  "execute2 w argv s = fork_exec w (\<lambda>pid status s. s) argv s"

definition execute3 :: "cl_world \<Rightarrow> string list \<Rightarrow> shell \<Rightarrow> exec_result" where
  "execute3 w argv s = fork_exec w report3 argv s"

text \<open>The parent after such a child has ended with exit value \<open>n\<close>: what both share is as the child left
  it, the rest is the parent's.\<close>

definition after_child :: "cl_world \<Rightarrow> pid \<Rightarrow> int \<Rightarrow> shell \<Rightarrow> shell \<Rightarrow> shell" where
  "after_child w pid n parent c =
     report3 pid (exit_wstatus (word_of_int n))
       (parent\<lparr>sh_trace := sh_trace c, sh_kids := sh_kids c, sh_forks := sh_forks c, sh_waits := sh_waits c,
               sh_stdin := (if cw_shared w then sh_stdin c else sh_stdin parent)\<rparr>)"

section \<open>\<open>print_user\<close> and \<open>main\<close>\<close>

definition print_user :: "cl_world \<Rightarrow> shell \<Rightarrow> shell option" where
  "print_user w s =
     (case (cw_pwuid w (cw_uid w), cw_pwuid w (cw_euid w), cw_grgid w (cw_gid w), cw_grgid w (cw_egid w)) of
        (Some u, Some eu, Some g, Some eg) \<Rightarrow>
          Some (out (''Group '' @ show_int (cw_gid w) @ ''('' @ g @ '') as '' @ show_int (cw_egid w) @ ''('' @ eg @ '')'' @ [NL])
            (out (show_int (cw_uid w) @ ''('' @ u @ '') as '' @ show_int (cw_euid w) @ ''('' @ eu @ '')'' @ [NL]) s))
      | _ \<Rightarrow> None)"

definition cl_set :: "string list \<Rightarrow> shell \<Rightarrow> shell" where
  "cl_set argv s = set_cmd argv s"

definition cl_asg :: "string list \<Rightarrow> shell \<Rightarrow> shell" where
  "cl_asg argv s = asg argv s"

datatype cl_end =
    ClExit int      \<comment> \<open>\<open>exit (EXIT_SUCCESS)\<close>\<close>
  | ClHangs         \<comment> \<open>\<open>getargs\<close> never returns, here or in a child that is waited for\<close>
  | ClBlocked       \<comment> \<open>\<open>waitpid\<close> never returns, because a program never ends\<close>
  | ClUndefined     \<comment> \<open>a null pointer from the user or group database\<close>

text \<open>What \<open>main\<close> does with one line.\<close>

definition cl_line :: "cl_world \<Rightarrow> string list \<Rightarrow> shell \<Rightarrow> exec_result" where
  "cl_line w argv s =
     (if argv = [] then Back s
      else if strchr (hd argv) (CHR ''='') \<noteq> None then Back (cl_asg argv s)
      else if hd argv = ''set'' then Back (cl_set argv s)
      else execute3 w argv s)"
section \<open>Every line consumes input\<close>

lemma eat_line_shorter: "eat_line s = Some r \<Longrightarrow> length r < length s"
  by (auto dest: eat_line_suffix)

lemma getargs_shorter:
  "getargs s = Some (x, t) \<Longrightarrow> x \<noteq> AtEof \<Longrightarrow> length (sh_stdin t) < length (sh_stdin s)"
  using eat_line_shorter fgets_Some_shorter [of CL_MAXLINE "sh_ferror s" "sh_stdin s"]
  by (fastforce simp: getargs_def CL_MAXLINE_def Let_def cl_error_def split: prod.splits option.splits if_splits)

lemma report3_stdin [simp]: "sh_stdin (report3 pid st s) = sh_stdin s"
  by (simp add: report3_def)

lemma fork_exec_stdin:
  assumes "\<And>p st u. sh_stdin (report p st u) = sh_stdin u"
  shows "fork_exec w report argv s = Back t \<Longrightarrow> sh_stdin t = sh_stdin s"
    and "fork_exec w report argv s = InChild pid c t \<Longrightarrow> sh_stdin c = sh_stdin s \<and> sh_stdin t = sh_stdin s"
    and "fork_exec w report argv s = Waits t \<Longrightarrow> sh_stdin t = sh_stdin s \<and> (\<exists>k. w_reap (cw_world w) k = None)"
  using assms by (auto simp: fork_exec_def reaped_def Let_def split: if_splits option.splits)

lemma cl_builtin_stdin [simp]:
  "sh_stdin (cl_asg argv s) = sh_stdin s" "sh_stdin (cl_set argv s) = sh_stdin s"
  using same_resources_asg [of s argv] same_resources_set [of s argv]
  by (simp_all add: cl_asg_def cl_set_def same_resources_def)

lemma cl_line_cases:
  "cl_line w argv s = Back t \<Longrightarrow>
     t = s \<or> t = cl_asg argv s \<or> t = cl_set argv s \<or> fork_exec w report3 argv s = Back t"
  "cl_line w argv s = InChild pid c t \<Longrightarrow> fork_exec w report3 argv s = InChild pid c t"
  "cl_line w argv s = Waits t \<Longrightarrow> fork_exec w report3 argv s = Waits t"
  by (simp_all add: cl_line_def execute3_def split: if_split_asm)

lemma cl_line_stdin:
  "cl_line w argv s = Back t \<Longrightarrow> sh_stdin t = sh_stdin s"
  "cl_line w argv s = InChild pid c t \<Longrightarrow> sh_stdin c = sh_stdin s \<and> sh_stdin t = sh_stdin s"
  "cl_line w argv s = Waits t \<Longrightarrow> sh_stdin t = sh_stdin s \<and> (\<exists>k. w_reap (cw_world w) k = None)"
proof -
  note f = fork_exec_stdin [where report = report3 and w = w and argv = argv and s = s, OF report3_stdin]
  show "cl_line w argv s = Back t \<Longrightarrow> sh_stdin t = sh_stdin s" using f(1) by (auto dest!: cl_line_cases(1))
  show "cl_line w argv s = InChild pid c t \<Longrightarrow> sh_stdin c = sh_stdin s \<and> sh_stdin t = sh_stdin s" using f(2) cl_line_cases(2) by blast
  show "cl_line w argv s = Waits t \<Longrightarrow> sh_stdin t = sh_stdin s \<and> (\<exists>k. w_reap (cw_world w) k = None)" using f(3) cl_line_cases(3) by blast
qed

section \<open>The loop of \<open>main\<close>\<close>

function cl_loop :: "cl_world \<Rightarrow> shell \<Rightarrow> cl_end \<times> shell" where
  "cl_loop w s =
     (case print_user w s of
        None \<Rightarrow> (ClUndefined, s)
      | Some s1 \<Rightarrow>
          (case getargs (out ''@ '' s1) of
             None \<Rightarrow> (ClHangs, out ''@ '' s1)
           | Some (AtEof, s2) \<Rightarrow> (ClExit 0, s2)
           | Some (Ignored, s2) \<Rightarrow> cl_loop w s2
           | Some (Args argv, s2) \<Rightarrow>
               (case cl_line w argv s2 of
                  Back s3 \<Rightarrow> cl_loop w s3
                | Waits s3 \<Rightarrow> (ClBlocked, s3)
                | InChild pid c s3 \<Rightarrow>
                    (case cl_loop w c of
                       (ClExit n, c') \<Rightarrow> cl_loop w (after_child w pid n s3 c')
                     | r \<Rightarrow> r))))"
  by pat_completeness auto

lemma print_user_stdin: "print_user w s = Some t \<Longrightarrow> sh_stdin t = sh_stdin s"
  by (auto simp: print_user_def split: option.splits)

lemma after_child_stdin:
  "sh_stdin (after_child w pid n s c) = (if cw_shared w then sh_stdin c else sh_stdin s)"
  by (simp add: after_child_def)

lemma getargs_not_longer: "getargs s = Some (AtEof, t) \<Longrightarrow> length (sh_stdin t) \<le> length (sh_stdin s)"
  using eat_line_shorter
  by (fastforce simp: getargs_def Let_def cl_error_def fgets_def split: prod.splits option.splits if_splits dest: take_line_append)

lemma cl_loop_consumes:
  "cl_loop_dom (w, s) \<Longrightarrow> cl_loop w s = (r, t) \<Longrightarrow> length (sh_stdin t) \<le> length (sh_stdin s)"
proof (induction w s arbitrary: r t rule: cl_loop.pinduct)
  case (1 w s)
  note eq = cl_loop.psimps [OF 1(1)]
  show ?case
  proof (cases "print_user w s")
    case None
    with 1 eq show ?thesis by simp
  next
    case (Some s1)
    note u = print_user_stdin [OF Some]
    show ?thesis
    proof (cases "getargs (out ''@ '' s1)")
      case None
      with Some "1.prems" eq u show ?thesis by auto
    next
      case g: (Some x)
      obtain gr s2 where x: "x = (gr, s2)" by fastforce
      note g = g [unfolded x]
      show ?thesis
      proof (cases gr)
        case AtEof
        with getargs_not_longer [of "out ''@ '' s1" s2] g Some 1 eq u show ?thesis by simp
      next
        case Ignored
        with getargs_shorter [OF g] "1.IH"(4) [OF Some g refl Ignored] "1.prems" eq Some g u
        show ?thesis by fastforce
      next
        case (Args argv)
        have less: "length (sh_stdin s2) < length (sh_stdin s)"
          using getargs_shorter [OF g] Args u by simp
        note IH = "1.IH"(1-3) [OF Some g refl Args]
        show ?thesis
        proof (cases "cl_line w argv s2")
          case (Back s3)
          with IH(1) [OF Back] "1.prems" eq Some g Args less cl_line_stdin(1) [OF Back] show ?thesis by fastforce
        next
          case (InChild pid c s3)
          obtain r1 c' where c: "cl_loop w c = (r1, c')" by fastforce
          note st = IH(2) [OF InChild c] cl_line_stdin(2) [OF InChild] less
          show ?thesis
            using "1.prems" eq Some g Args InChild c st IH(3) [OF InChild c [symmetric]]
            by (cases r1) (fastforce simp: after_child_stdin split: if_splits)+
        next
          case (Waits s3)
          with "1.prems" eq Some g Args less cl_line_stdin(3) [OF Waits] show ?thesis by simp
        qed
      qed
    qed
  qed
qed

termination cl_loop
proof (relation "measure (\<lambda>(w, s). length (sh_stdin s))", goal_cases)
  case (2 w s s1 x gr s2 argv s3)
  then show ?case
    using getargs_shorter [of "out ''@ '' s1" "Args argv" s2] print_user_stdin [of w s s1] cl_line_stdin(1) by fastforce
next
  case (3 w s s1 x gr s2 argv pid c s3)
  then show ?case
    using getargs_shorter [of "out ''@ '' s1" "Args argv" s2] print_user_stdin [of w s s1] cl_line_stdin(2) by fastforce
next
  case (4 w s s1 x gr s2 argv pid c s3 r c' n)
  then show ?case
    using getargs_shorter [of "out ''@ '' s1" "Args argv" s2] print_user_stdin [of w s s1] cl_line_stdin(2)
      cl_loop_consumes [of w c r c'] by (fastforce simp: after_child_stdin)
next
  case (5 w s s1 x gr s2)
  then show ?case using getargs_shorter [of "out ''@ '' s1" Ignored s2] print_user_stdin [of w s s1] by auto
qed simp

declare cl_loop.simps [simp del]

definition cl_main :: "cl_world \<Rightarrow> shell \<Rightarrow> cl_end \<times> shell" where
  "cl_main w s = cl_loop w s"

section \<open>What \<open>getargs\<close> reads\<close>

definition plain_word :: "string \<Rightarrow> bool" where
  "plain_word a \<longleftrightarrow> a \<noteq> [] \<and> set a \<inter> insert NUL (set blanks) = {}"

definition join_args :: "string list \<Rightarrow> string" where
  "join_args as = concat (map (\<lambda>a. SPC # a) as)"

lemma join_args_Cons [simp]: "join_args (a # as) = SPC # a @ join_args as"
  by (simp add: join_args_def)

lemma join_args_chars: "\<forall>a\<in>set as. plain_word a \<Longrightarrow> c \<in> set (join_args as) \<Longrightarrow> c \<noteq> NL \<and> c \<noteq> NUL"
  by (induction as) (auto simp: plain_word_def blanks_def, auto simp: join_args_def)

lemma args_loop_join:
  assumes "\<forall>a\<in>set as. plain_word a" and "length as < k"
  shows "args_loop k (join_args as @ [NL]) = Some as"
  using assms
proof (induction as arbitrary: k)
  case Nil
  then have "strtok [NL] blanks = None" by (simp add: strtok_None blanks_def)
  with Nil show ?case by (cases k) (simp_all add: join_args_def)
next
  case (Cons a as)
  obtain k' where k: "k = Suc k'" "length as < k'" using Cons.prems(2) by (cases k) auto
  have a: "a \<noteq> []" "set a \<inter> set blanks = {}" using Cons.prems(1) by (auto simp: plain_word_def)
  have skip: "strtok (SPC # s) blanks = strtok s blanks" for s
    by (rule strtok_skip) (simp add: blanks_def)
  have skip_loop: "args_loop k' (SPC # s) = args_loop k' s" for s
    using k by (cases k') (simp_all add: skip)
  obtain c r where cr: "join_args as @ [NL] = c # r" "c \<in> set blanks"
    by (cases as) (auto simp: join_args_def blanks_def)
  have "strtok (a @ c # r) blanks = Some (a, r)" by (rule strtok_first [OF a cr(2)])
  moreover have "args_loop k' r = Some as"
  proof (cases as)
    case Nil
    with cr have "r = []" by (simp add: join_args_def)
    with k Nil show ?thesis by (cases k') (simp_all add: strtok_def)
  next
    case (Cons b bs)
    have "args_loop k' (join_args as @ [NL]) = Some as" by (rule Cons.IH) (use Cons.prems(1) k(2) in auto)
    then have "args_loop k' (c # r) = Some as" unfolding cr(1) .
    with Cons cr(1) skip_loop show ?thesis by auto
  qed
  ultimately show ?case using k cr by (simp add: skip)
qed

lemma getargs_join:
  assumes "sh_stdin s = join_args as @ NL # rest" and "\<forall>a\<in>set as. plain_word a"
    and "length as < CL_MAXARG" and "length (join_args as) < CL_MAXLINE - 1"
  shows "getargs s = Some (Args as, s\<lparr>sh_stdin := rest\<rparr>)"
proof -
  have j: "c \<in> set (join_args as) \<Longrightarrow> c \<noteq> NL \<and> c \<noteq> NUL" for c
    using join_args_chars [OF assms(2)] by blast
  then have "fgets CL_MAXLINE (sh_ferror s) (sh_stdin s) = (Some (join_args as @ [NL]), rest)"
    using assms(1,4) by (auto intro!: fgets_line)
  moreover have "takeWhile (\<lambda>c. c \<noteq> NUL) (join_args as @ [NL]) = join_args as @ [NL]"
    using j by (auto simp: takeWhile_eq_all_conv)
  ultimately show ?thesis
    using args_loop_join [OF assms(2,3)] by (simp add: getargs_def)
qed

section \<open>An input that does not end with a newline\<close>

lemma eat_line_None: "eat_line s = None \<longleftrightarrow> NL \<notin> set s"
  by (induction s) auto

lemma take_line_no_newline: "NL \<notin> set s \<Longrightarrow> take_line k s = (take k s, drop k s)"
  by (induction k s rule: take_line.induct) auto

lemma getargs_no_newline:
  assumes "sh_stdin s \<noteq> []" and "NL \<notin> set (sh_stdin s)" and "\<not> sh_ferror s"
  shows "getargs s = None"
proof -
  let ?inp = "sh_stdin s"
  have "fgets CL_MAXLINE (sh_ferror s) ?inp = (Some (take 199 ?inp), drop 199 ?inp)"
    using assms by (simp add: fgets_def take_line_no_newline CL_MAXLINE_def)
  moreover have "NL \<notin> set (takeWhile (\<lambda>c. c \<noteq> NUL) (take 199 ?inp))"
    using assms(2) by (auto dest: set_takeWhileD in_set_takeD)
  moreover have "eat_line (drop 199 ?inp) = None"
    using assms(2) by (auto simp: eat_line_None dest: in_set_dropD)
  ultimately show ?thesis by (simp add: getargs_def)
qed

definition users_known :: "cl_world \<Rightarrow> bool" where
  "users_known w \<longleftrightarrow> cw_pwuid w (cw_uid w) \<noteq> None \<and> cw_pwuid w (cw_euid w) \<noteq> None
     \<and> cw_grgid w (cw_gid w) \<noteq> None \<and> cw_grgid w (cw_egid w) \<noteq> None"

text \<open>What \<open>print_user\<close> and the prompt add to the trace.\<close>

lemma print_user_out:
  assumes "users_known w"
  obtains a b where "print_user w s = Some (out b (out a s))"
  using assms that by (auto simp: users_known_def print_user_def)

lemma cl_loop_no_newline:
  assumes "users_known w" and "sh_stdin s \<noteq> []" and "NL \<notin> set (sh_stdin s)" and "\<not> sh_ferror s"
  shows "fst (cl_loop w s) = ClHangs"
proof -
  obtain a b where u: "print_user w s = Some (out b (out a s))" by (rule print_user_out [OF assms(1), where s = s]) blast
  have "getargs (out ''@ '' (out b (out a s))) = None"
    by (rule getargs_no_newline) (use assms in auto)
  with u show ?thesis by (simp add: cl_loop.simps [of w s])
qed

section \<open>An input of complete lines\<close>

definition whole_lines :: "string \<Rightarrow> bool" where
  "whole_lines inp \<longleftrightarrow> NUL \<notin> set inp \<and> (inp = [] \<or> last inp = NL)"

lemma whole_lines_suffix: "whole_lines (p @ q) \<Longrightarrow> whole_lines q"
  by (cases "q = []") (auto simp: whole_lines_def)

lemma eat_line_whole: "eat_line r = Some r' \<Longrightarrow> whole_lines r \<Longrightarrow> whole_lines r'"
  using eat_line_suffix [of r r'] whole_lines_suffix [of "_ @ [NL]" r'] by auto

lemma take_line_cases:
  "take_line k s = (l, r) \<Longrightarrow> (l \<noteq> [] \<and> last l = NL) \<or> length l = k \<or> r = []"
  by (induction k s arbitrary: l r rule: take_line.induct) (fastforce split: if_splits prod.splits)+

lemma getargs_whole_lines:
  assumes "whole_lines (sh_stdin s)"
  shows "\<exists>x t. getargs s = Some (x, t) \<and> whole_lines (sh_stdin t)"
proof (cases "fgets CL_MAXLINE (sh_ferror s) (sh_stdin s)")
  case (Pair lo r)
  obtain l where tl: "take_line (CL_MAXLINE - 1) (sh_stdin s) = (l, r)" and lo: "lo = None \<or> lo = Some l"
    using Pair by (auto simp: fgets_def Let_def split: prod.splits if_splits)
  have app: "sh_stdin s = l @ r" by (rule take_line_append [OF tl])
  with assms have r: "whole_lines r" using whole_lines_suffix by simp
  have nn: "takeWhile (\<lambda>c. c \<noteq> NUL) l = l"
    using assms app by (auto simp: whole_lines_def takeWhile_eq_all_conv)
  show ?thesis
  proof (cases "lo = None")
    case True
    with Pair r show ?thesis by (simp add: getargs_def cl_error_def Let_def)
  next
    case False
    with lo have l: "lo = Some l" by simp
    have "eat_line r \<noteq> None \<or> NL \<in> set l"
    proof (cases "r = []")
      case True
      then have "l \<noteq> []" using Pair l tl by (auto simp: fgets_def CL_MAXLINE_def split: if_splits)
      with True app assms have "last l = NL" by (simp add: whole_lines_def)
      with \<open>l \<noteq> []\<close> show ?thesis by (metis last_in_set)
    next
      case False
      with app assms have "last r = NL" by (simp add: whole_lines_def)
      with False show ?thesis by (metis eat_line_None last_in_set)
    qed
    then show ?thesis
    proof (cases "strchr l NL = None")
      case True
      with \<open>eat_line r \<noteq> None \<or> NL \<in> set l\<close> obtain r' where r': "eat_line r = Some r'" by auto
      with eat_line_whole [OF r' r] Pair l True show ?thesis by (simp add: getargs_def nn Let_def)
    next
      case False
      with Pair l r show ?thesis
        by (cases "args_loop CL_MAXARG l") (simp_all add: getargs_def nn Let_def)
    qed
  qed
qed

text \<open>What \<open>main\<close> comes to on such an input.\<close>

definition exits_or_waits :: "cl_world \<Rightarrow> cl_end \<Rightarrow> bool" where
  "exits_or_waits w r \<longleftrightarrow> r = ClExit 0 \<or> r = ClBlocked \<and> (\<exists>k. w_reap (cw_world w) k = None)"

lemma cl_loop_exits:
  assumes "users_known w" and "whole_lines (sh_stdin s)"
  shows "exits_or_waits w (fst (cl_loop w s)) \<and> (fst (cl_loop w s) = ClExit 0 \<longrightarrow> whole_lines (sh_stdin (snd (cl_loop w s))))"
  using assms
proof (induction w s rule: cl_loop.induct)
  case (1 w s)
  obtain a b where u: "print_user w s = Some (out b (out a s))"
    by (rule print_user_out [OF "1.prems"(1), where s = s]) blast
  let ?s1 = "out b (out a s)"
  obtain x s2 where g: "getargs (out ''@ '' ?s1) = Some (x, s2)" "whole_lines (sh_stdin s2)"
    using getargs_whole_lines [of "out ''@ '' ?s1"] "1.prems"(2) by auto
  show ?case
  proof (cases x)
    case AtEof
    with u g show ?thesis by (simp add: cl_loop.simps [of w s] exits_or_waits_def)
  next
    case Ignored
    with "1.IH"(4) [OF u g(1) refl Ignored "1.prems"(1) g(2)] u g show ?thesis by (simp add: cl_loop.simps [of w s])
  next
    case (Args argv)
    show ?thesis
    proof (cases "cl_line w argv s2")
      case (Back s3)
      have "whole_lines (sh_stdin s3)" using cl_line_stdin(1) [OF Back] g(2) by simp
      with "1.IH"(1) [OF u g(1) refl Args Back "1.prems"(1)] u g Args Back show ?thesis
        by (simp add: cl_loop.simps [of w s])
    next
      case (Waits s3)
      with u g Args cl_line_stdin(3) [OF Waits] show ?thesis by (simp add: cl_loop.simps [of w s] exits_or_waits_def)
    next
      case (InChild pid c s3)
      note st = cl_line_stdin(2) [OF InChild]
      obtain r c' where c: "cl_loop w c = (r, c')" by fastforce
      have IH: "exits_or_waits w r" "r = ClExit 0 \<longrightarrow> whole_lines (sh_stdin c')"
        using "1.IH"(2) [OF u g(1) refl Args InChild "1.prems"(1)] st g(2) c by auto
      show ?thesis
      proof (cases "r = ClExit 0")
        case True
        have "whole_lines (sh_stdin (after_child w pid 0 s3 c'))"
          using IH(2) True st g(2) by (simp add: after_child_stdin)
        with "1.IH"(3) [OF u g(1) refl Args InChild c [symmetric] True "1.prems"(1)] c u g Args InChild True
        show ?thesis by (simp add: cl_loop.simps [of w s])
      next
        case False
        with IH(1) c u g Args InChild show ?thesis by (auto simp: cl_loop.simps [of w s] exits_or_waits_def)
      qed
    qed
  qed
qed

section \<open>A program that cannot be executed\<close>

text \<open>A one-word line that names a program.\<close>

definition program_line :: "string \<Rightarrow> bool" where
  "program_line a \<longleftrightarrow> plain_word a \<and> length a < 198 \<and> CHR ''='' \<notin> set a \<and> a \<noteq> ''set''"

lemma cl_loop_program_line:
  assumes "users_known w" and "program_line a" and "sh_stdin s = join_args [a] @ NL # rest"
  obtains s2 where "sh_stdin s2 = rest" "sh_kids s2 = sh_kids s" "sh_ferror s2 = sh_ferror s"
    "cl_loop w s =
       (case execute3 w [a] s2 of
          Back s3 \<Rightarrow> cl_loop w s3
        | Waits s3 \<Rightarrow> (ClBlocked, s3)
        | InChild pid c s3 \<Rightarrow>
            (case cl_loop w c of
               (ClExit n, c') \<Rightarrow> cl_loop w (after_child w pid n s3 c')
             | r \<Rightarrow> r))"
proof -
  obtain u v where u: "print_user w s = Some (out v (out u s))"
    by (rule print_user_out [OF assms(1), where s = s]) blast
  let ?s = "out ''@ '' (out v (out u s))"
  have g: "getargs ?s = Some (Args [a], ?s\<lparr>sh_stdin := rest\<rparr>)"
    by (rule getargs_join) (use assms(2,3) in \<open>auto simp: program_line_def CL_MAXARG_def CL_MAXLINE_def join_args_def\<close>)
  have "cl_line w [a] t = execute3 w [a] t" for t
    using assms(2) by (simp add: cl_line_def program_line_def)
  with u g show ?thesis
    by (intro that [of "?s\<lparr>sh_stdin := rest\<rparr>"]) (simp_all add: cl_loop.simps [of w s])
qed

definition programs_run :: "shell \<Rightarrow> nat" where
  "programs_run s = length (filter (\<lambda>c. case ch_end c of Exec p argv \<Rightarrow> True | _ \<Rightarrow> False) (sh_kids s))"

lemma cl_loop_last_line:
  assumes "users_known w" and ce: "children_end (cw_world w)" and "\<forall>k. w_fork (cw_world w) k \<noteq> None" and "program_line b" and "\<forall>k. w_exec (cw_world w) k b"
    and "sh_stdin s = join_args [b] @ NL # []" and "\<not> sh_ferror s"
  shows "\<exists>t. cl_loop w s = (ClExit 0, t) \<and> programs_run t = Suc (programs_run s) \<and> sh_ferror t = sh_ferror s"
proof -
  obtain s2 where s2: "sh_stdin s2 = []" "sh_kids s2 = sh_kids s" "sh_ferror s2 = sh_ferror s"
    "cl_loop w s = (case execute3 w [b] s2 of
          Back s3 \<Rightarrow> cl_loop w s3
        | Waits s3 \<Rightarrow> (ClBlocked, s3)
        | InChild pid c s3 \<Rightarrow> (case cl_loop w c of
               (ClExit n, c') \<Rightarrow> cl_loop w (after_child w pid n s3 c')
             | r \<Rightarrow> r))"
    by (rule cl_loop_program_line [OF assms(1,4,6)]) blast
  have pid: "fork_result (cw_world w) (sh_forks s2) \<noteq> - 1"
    using assms(3) by (auto simp: fork_result_def split: option.splits)
  obtain st where "reaped w (s2\<lparr>sh_forks := Suc (sh_forks s2)\<rparr>) = Some st"
    using ce unfolding children_end_def reaped_def by fastforce
  then obtain s3 where s3: "execute3 w [b] s2 = Back s3" "sh_stdin s3 = []" "sh_ferror s3 = sh_ferror s"
    "programs_run s3 = Suc (programs_run s)"
    using pid assms(5) s2(1-3)
    by (auto simp: execute3_def fork_exec_def Let_def report3_def programs_run_def program_child_def)
  obtain u v where u: "print_user w s3 = Some (out v (out u s3))"
    by (rule print_user_out [OF assms(1), where s = s3]) blast
  have "getargs (out ''@ '' (out v (out u s3))) = Some (AtEof, out ''@ '' (out v (out u s3))\<lparr>sh_stdin := []\<rparr>)"
    using s3(2,3) assms(7) by (simp add: getargs_def fgets_def CL_MAXLINE_def take_line_no_newline)
  with u have "cl_loop w s3 = (ClExit 0, out ''@ '' (out v (out u s3))\<lparr>sh_stdin := []\<rparr>)"
    by (simp add: cl_loop.simps [of w s3])
  with s2(4) s3 show ?thesis by (simp add: programs_run_def)
qed

lemma cl_loop_doubles:
  assumes "users_known w" and "\<not> cw_shared w" and ce: "children_end (cw_world w)" and "\<forall>k. w_fork (cw_world w) k \<noteq> None"
    and "program_line a" and "\<forall>k. \<not> w_exec (cw_world w) k a"
    and "program_line b" and "\<forall>k. w_exec (cw_world w) k b"
    and "sh_stdin s = concat (replicate n (join_args [a] @ [NL])) @ join_args [b] @ [NL]" and "\<not> sh_ferror s"
  shows "\<exists>t. cl_loop w s = (ClExit 0, t) \<and> programs_run t = programs_run s + 2 ^ n \<and> sh_ferror t = sh_ferror s"
  using assms(9,10)
proof (induction n arbitrary: s)
  case 0
  then show ?case using cl_loop_last_line [OF assms(1,3,4,7,8), of s] by simp
next
  case (Suc n)
  let ?rest = "concat (replicate n (join_args [a] @ [NL])) @ join_args [b] @ [NL]"
  have "sh_stdin s = join_args [a] @ NL # ?rest" using Suc.prems(1) by simp
  then obtain s2 where s2: "sh_stdin s2 = ?rest" "sh_kids s2 = sh_kids s" "sh_ferror s2 = sh_ferror s"
    "cl_loop w s = (case execute3 w [a] s2 of
          Back s3 \<Rightarrow> cl_loop w s3
        | Waits s3 \<Rightarrow> (ClBlocked, s3)
        | InChild pid c s3 \<Rightarrow> (case cl_loop w c of
               (ClExit n, c') \<Rightarrow> cl_loop w (after_child w pid n s3 c')
             | r \<Rightarrow> r))"
    by (rule cl_loop_program_line [OF assms(1,5)]) blast
  let ?pid = "fork_result (cw_world w) (sh_forks s2)" and ?s3 = "s2\<lparr>sh_forks := Suc (sh_forks s2)\<rparr>"
  let ?c = "out ''Should not reach here'' ?s3"
  have "?pid \<noteq> - 1" using assms(4) by (auto simp: fork_result_def split: option.splits)
  then have e: "execute3 w [a] s2 = InChild ?pid ?c ?s3"
    using assms(6) by (simp add: execute3_def fork_exec_def Let_def)
  obtain c' where c': "cl_loop w ?c = (ClExit 0, c')" "programs_run c' = programs_run ?c + 2 ^ n" "sh_ferror c' = sh_ferror s"
    using Suc.IH [of ?c] s2 Suc.prems(2) by auto
  let ?p = "after_child w ?pid 0 ?s3 c'"
  have p: "sh_stdin ?p = ?rest" "programs_run ?p = programs_run c'" "sh_ferror ?p = sh_ferror s"
    using s2 assms(2) by (simp_all add: after_child_def report3_def programs_run_def)
  from Suc.IH [of ?p] p Suc.prems(2) obtain t where
    t: "cl_loop w ?p = (ClExit 0, t)" "programs_run t = programs_run ?p + 2 ^ n" "sh_ferror t = sh_ferror ?p"
    by auto
  have "programs_run ?c = programs_run s" using s2(2) by (simp add: programs_run_def)
  with s2(4) e c' t p show ?case by simp
qed

end
