(* ===== verification/ClTheorems.thy ===== *)
theory ClTheorems
  imports Cl ShellTheorems
begin

text \<open>
  The properties of \<open>process/cl.c\<close>.
\<close>

definition easy_cl_world :: cl_world where
  "easy_cl_world = \<lparr>cw_world = easy_world\<lparr>w_exec := \<lambda>k p. p = ''ls''\<rparr>, cw_uid = 1, cw_euid = 1, cw_gid = 1,
     cw_egid = 1, cw_pwuid = (\<lambda>u. Some ''me''), cw_grgid = (\<lambda>g. Some ''us''), cw_shared = False\<rparr>"

lemma easy_cl_world_ok: "users_known easy_cl_world"
  by (simp add: users_known_def easy_cl_world_def)

text \<open>
A line is split into its words: \<open>getargs\<close> on fewer than 20 words, each after a blank, in fewer
than 199 characters gives these words and leaves what follows the line unread.
\<close>

theorem getargs_reads_words:
  assumes "sh_stdin s = join_args as @ NL # rest" and "\<forall>a\<in>set as. plain_word a"
    and "length as < CL_MAXARG" and "length (join_args as) < CL_MAXLINE - 1"
  shows "getargs s = Some (Args as, s\<lparr>sh_stdin := rest\<rparr>)"
  using assms by (rule getargs_join)

lemma getargs_reads_words_witness:
  "getargs (init_shell ('' ls -l'' @ NL # ''x'') []) = Some (Args [''ls'', ''-l''], (init_shell ('' ls -l'' @ NL # ''x'') [])\<lparr>sh_stdin := ''x''\<rparr>)"
  by (rule getargs_reads_words)
     (simp_all add: init_shell_def join_args_def plain_word_def blanks_def CL_MAXARG_def CL_MAXLINE_def)

text \<open>
C27: On an input of complete lines without NUL characters, with the users and groups in their databases, the loop of
\<open>main\<close> ends and the process exits with status 0, however many children go on as shells of their own, unless some program that was waited for
never ends: then \<open>waitpid\<close> in \<open>execute3\<close> does not return.
\<close>

theorem cl_main_exits:
  assumes "users_known w" and "whole_lines (sh_stdin s)"
  shows "case fst (cl_main w s) of
      ClExit n \<Rightarrow> n = 0
    | ClBlocked \<Rightarrow> (\<exists>k. w_reap (cw_world w) k = None)
    | _ \<Rightarrow> False"
  using cl_loop_exits [OF assms] by (auto simp: cl_main_def exits_or_waits_def)

lemma cl_main_exits_witness:
  "fst (cl_main easy_cl_world (init_shell (''nosuch'' @ [NL] @ ''X=1'' @ [NL]) [])) = ClExit 0"
proof -
  have "whole_lines (sh_stdin (init_shell (''nosuch'' @ [NL] @ ''X=1'' @ [NL]) []))" by (simp add: whole_lines_def init_shell_def)
  moreover have no: "(\<exists>k. w_reap (cw_world easy_cl_world) k = None) = False" by (simp add: easy_cl_world_def easy_world_def)
  ultimately show ?thesis
    using cl_main_exits [OF easy_cl_world_ok, of "init_shell (''nosuch'' @ [NL] @ ''X=1'' @ [NL]) []", unfolded no]
    by (auto split: cl_end.splits)
qed

text \<open>
C35: On an input that ends without a newline, here one with no newline at all, \<open>main\<close> never ends: the
loop in \<open>getargs\<close> that eats the rest of a line goes on at the end of the file.
\<close>

theorem cl_main_hangs:
  assumes "users_known w" and "sh_stdin s \<noteq> []" and "NL \<notin> set (sh_stdin s)" and "\<not> sh_ferror s"
  shows "fst (cl_main w s) = ClHangs"
  using cl_loop_no_newline [OF assms] by (simp add: cl_main_def)

lemma cl_main_hangs_witness: "fst (cl_main easy_cl_world (init_shell ''ls'' [])) = ClHangs"
  by (rule cl_main_hangs [OF easy_cl_world_ok]) (simp_all add: init_shell_def)

text \<open>
C17: A child whose program cannot be executed goes on as a second shell on its copy of the buffered
input: after \<open>n\<close> lines that name a missing program, the program of the next line is run \<open>2 ^ n\<close> times.  Every program that is waited for ends.
\<close>

theorem cl_main_runs_twice:
  assumes "users_known w" and "\<not> cw_shared w" and "children_end (cw_world w)" and "\<forall>k. w_fork (cw_world w) k \<noteq> None"
    and "program_line a" and "\<forall>k. \<not> w_exec (cw_world w) k a"
    and "program_line b" and "\<forall>k. w_exec (cw_world w) k b"
    and "sh_stdin s = concat (replicate n (join_args [a] @ [NL])) @ join_args [b] @ [NL]" and "\<not> sh_ferror s"
  shows "\<exists>t. cl_main w s = (ClExit 0, t) \<and> programs_run t = programs_run s + 2 ^ n"
  using cl_loop_doubles [OF assms] by (auto simp: cl_main_def)

lemma cl_main_runs_twice_witness:
  "\<exists>t. cl_main easy_cl_world (init_shell (concat (replicate 3 (join_args [''nosuch''] @ [NL])) @ join_args [''ls''] @ [NL]) [])
       = (ClExit 0, t)
     \<and> programs_run t = programs_run (init_shell (concat (replicate 3 (join_args [''nosuch''] @ [NL])) @ join_args [''ls''] @ [NL]) []) + 2 ^ 3"
  by (rule cl_main_runs_twice [OF easy_cl_world_ok, where a = "''nosuch''" and b = "''ls''"])
     (simp_all add: easy_cl_world_def easy_world_def children_end_def program_line_def plain_word_def blanks_def init_shell_def)

end
