(* ===== verification/SmiQueue.thy ===== *)
theory SmiQueue
  imports Posix Display
begin

text \<open>
  The message queue over FIFOs of \<open>ad_comm/smi_server.c\<close> and \<open>ad_comm/smi.h\<close>: the queue structure, its table of
  clients, opening, closing, sending and receiving for both kinds of entity, and the server's
  \<open>main\<close>.  The kernel (FIFOs, descriptors, the answers of \<open>read\<close>, the messages written) is a record
  of its own that is passed along.  \<open>calloc\<close> is taken to succeed.  The table is used through the
  locale \<open>client_table\<close>, which is interpreted on the code's model at the end.
\<close>

section \<open>Messages and the queue\<close>

definition SERVER_NAME_MAX :: nat where "SERVER_NAME_MAX = 50"
definition MAX_CLIENTS :: nat where "MAX_CLIENTS = 20"
definition DATA_SIZE :: nat where "DATA_SIZE = 200"
definition SERVER_NAME :: string where "SERVER_NAME = ''smsg_server''"

datatype SMIENTITY = SMI_SERVER | SMI_CLIENT

record client_id =
  c_id1 :: int
  c_id2 :: int

text \<open>\<open>smi_data\<close> is as long as the queue's message size says; the header before it has 24 bytes.\<close>

record smi_msg =
  smi_mtype :: int
  smi_client :: client_id
  smi_data :: string

definition smi_data_offset :: nat where "smi_data_offset = 24"

record slot =
  cl_fd :: fd
  cl_pid :: pid

record smiq =
  sq_entity :: SMIENTITY
  sq_fd_server :: fd
  sq_fd_server_w :: fd
  sq_name :: string
  sq_clients :: "slot list"
  sq_client :: client_id
  sq_msgsize :: nat
  sq_msg :: smi_msg

text \<open>The cast \<open>(pid_t)\<close> of a \<open>long\<close>, to 32 bits with a sign.\<close>

definition to_pid :: "int \<Rightarrow> pid" where
  "to_pid n = signed_take_bit 31 n"

section \<open>The kernel\<close>

text \<open>
  The FIFOs that exist, the open descriptors and their status flags, what the next reads give and
  what was written to which FIFO.  A read gives \<open>n\<close> bytes, after which the buffer holds a message;
  or the end of the file; or an error.  That \<open>open\<close> of a FIFO waits for the other side, and
  \<open>SIGPIPE\<close>, are not modelled.
\<close>

datatype rd = RdMsg nat smi_msg | RdEof | RdErr

record kernel =
  kn_pid :: pid
  kn_nofile :: nat
  kn_fifos :: "string list"
  kn_fds :: fdtable
  kn_flags :: "fd \<Rightarrow> 32 word"
  kn_reads :: "rd list"
  kn_sent :: "(string \<times> smi_msg) list"
  kn_trace :: "string list"

datatype 'a outcome =
    Val 'a
  | UB         \<comment> \<open>undefined behaviour\<close>
  | Blocked kernel \<comment> \<open>a read waits for a message that does not come\<close>
  | Spins      \<comment> \<open>a loop without end\<close>

definition say :: "string \<Rightarrow> kernel \<Rightarrow> kernel" where
  "say t k = k\<lparr>kn_trace := kn_trace k @ [t]\<rparr>"

definition mkfifo :: "string \<Rightarrow> kernel \<Rightarrow> bool \<times> kernel" where
  "mkfifo n k = (if n \<in> set (kn_fifos k) then (False, k) else (True, k\<lparr>kn_fifos := n # kn_fifos k\<rparr>))"

definition unlink :: "string \<Rightarrow> kernel \<Rightarrow> kernel" where
  "unlink n k = k\<lparr>kn_fifos := removeAll n (kn_fifos k)\<rparr>"

definition open_fifo :: "string \<Rightarrow> ofile \<Rightarrow> 32 word \<Rightarrow> kernel \<Rightarrow> fd \<times> kernel" where
  "open_fifo n f flags k =
     (let (r, t) = open_fd (kn_nofile k) (n \<in> set (kn_fifos k)) f (kn_fds k)
      in (fd_of r, k\<lparr>kn_fds := t,
          kn_flags := (case r of Inl e \<Rightarrow> kn_flags k | Inr d \<Rightarrow> (kn_flags k)(d := flags))\<rparr>))"

definition close_k :: "fd \<Rightarrow> kernel \<Rightarrow> kernel" where
  "close_k d k = k\<lparr>kn_fds := close_fd d (kn_fds k)\<rparr>"

definition write_msg :: "fd \<Rightarrow> smi_msg \<Rightarrow> kernel \<Rightarrow> kernel" where
  "write_msg d m k =
     (case kn_fds k d of
        Some (WrFile n app) \<Rightarrow> k\<lparr>kn_sent := kn_sent k @ [(n, m)]\<rparr>
      | _ \<Rightarrow> k)"

definition readable :: "fd \<Rightarrow> kernel \<Rightarrow> bool" where
  "readable d k \<longleftrightarrow> (case kn_fds k d of Some (RdFile n) \<Rightarrow> True | _ \<Rightarrow> False)"

text \<open>The value of \<open>read\<close> and the buffer after it, for one answer of the kernel.\<close>

definition rd_result :: "rd \<Rightarrow> smi_msg \<Rightarrow> int \<times> smi_msg" where
  "rd_result r m = (case r of RdMsg n m' \<Rightarrow> (int n, m') | RdEof \<Rightarrow> (0, m) | RdErr \<Rightarrow> (- 1, m))"

section \<open>The client table\<close>

definition clients_bgn :: "smiq \<Rightarrow> smiq" where
  "clients_bgn p = p\<lparr>sq_clients := map (\<lambda>c. c\<lparr>cl_fd := - 1\<rparr>) (sq_clients p)\<rparr>"

fun close_slots :: "slot list \<Rightarrow> kernel \<Rightarrow> slot list \<times> kernel" where
  "close_slots [] k = ([], k)"
| "close_slots (c # cs) k =
     (let (c', k') = (if cl_fd c \<noteq> - 1 then (c\<lparr>cl_fd := - 1\<rparr>, close_k (cl_fd c) k) else (c, k));
          (cs', k'') = close_slots cs k'
      in (c' # cs', k''))"

definition clients_close_all :: "smiq \<Rightarrow> kernel \<Rightarrow> smiq \<times> kernel" where
  "clients_close_all p k = (let (cs, k') = close_slots (sq_clients p) k in (p\<lparr>sq_clients := cs\<rparr>, k'))"

definition clients_end :: "smiq \<Rightarrow> kernel \<Rightarrow> smiq \<times> kernel" where
  "clients_end p k = clients_close_all p k"

text \<open>The loop: \<open>Inl i\<close> when it returns from slot \<open>i\<close>, \<open>Inr avail\<close> when it ends.\<close>

fun find_loop :: "pid \<Rightarrow> nat \<Rightarrow> slot list \<Rightarrow> int \<Rightarrow> nat + int" where
  "find_loop pid i [] avail = Inr avail"
| "find_loop pid i (c # cs) avail =
     (if cl_pid c = pid then Inl i
      else find_loop pid (Suc i) cs (if cl_fd c = - 1 \<and> avail = - 1 then int i else avail))"

definition find_slot :: "slot list \<Rightarrow> pid \<Rightarrow> int \<times> slot list" where
  "find_slot cs pid =
     (case find_loop pid 0 cs (- 1) of
        Inl i \<Rightarrow> (int i, cs)
      | Inr avail \<Rightarrow>
          if avail \<noteq> - 1 then (avail, cs[nat avail := (cs ! nat avail)\<lparr>cl_pid := pid\<rparr>])
          else (avail, cs))"

definition clients_find :: "smiq \<Rightarrow> pid \<Rightarrow> int \<times> smiq" where
  "clients_find p pid = (let (i, cs) = find_slot (sq_clients p) pid in (i, p\<lparr>sq_clients := cs\<rparr>))"

section \<open>\<open>setblock\<close> and the names\<close>

definition O_NONBLOCK :: "32 word" where "O_NONBLOCK = 0x800"

definition block_flags :: "bool \<Rightarrow> 32 word \<Rightarrow> 32 word" where
  "block_flags block flags = (if block then flags AND NOT O_NONBLOCK else flags OR O_NONBLOCK)"

definition setblock :: "fd \<Rightarrow> bool \<Rightarrow> kernel \<Rightarrow> kernel" where
  "setblock d block k =
     (if kn_fds k d = None then k
      else k\<lparr>kn_flags := (kn_flags k)(d := block_flags block (kn_flags k d))\<rparr>)"

definition fifoname_max :: nat where "fifoname_max = SERVER_NAME_MAX + 50"

definition make_fifo_name_server :: "string \<Rightarrow> string" where
  "make_fifo_name_server name = snprintf fifoname_max (''/tmp/smififo-'' @ name)"

definition make_fifo_name_client :: "pid \<Rightarrow> string" where
  "make_fifo_name_client pid = snprintf fifoname_max (''/tmp/smififo'' @ show_int pid)"

section \<open>Opening and closing\<close>

definition calloc_smiq :: "SMIENTITY \<Rightarrow> nat \<Rightarrow> smiq" where
  "calloc_smiq entity msgsize =
     \<lparr>sq_entity = entity, sq_fd_server = 0, sq_fd_server_w = 0, sq_name = [],
      sq_clients = replicate MAX_CLIENTS \<lparr>cl_fd = 0, cl_pid = 0\<rparr>,
      sq_client = \<lparr>c_id1 = 0, c_id2 = 0\<rparr>, sq_msgsize = msgsize + smi_data_offset,
      sq_msg = \<lparr>smi_mtype = 0, smi_client = \<lparr>c_id1 = 0, c_id2 = 0\<rparr>, smi_data = replicate msgsize NUL\<rparr>\<rparr>"

text \<open>A name that does not fit is reported and then copied all the same.\<close>

definition smi_open_fifo :: "string \<Rightarrow> SMIENTITY \<Rightarrow> nat \<Rightarrow> kernel \<Rightarrow> (smiq \<times> kernel) outcome" where
  "smi_open_fifo name entity msgsize k =
     (let p = calloc_smiq entity msgsize in
      if length name \<ge> SERVER_NAME_MAX then UB
      else
        let p1 = p\<lparr>sq_name := name\<rparr>; fifoname = make_fifo_name_server name in
        if entity = SMI_SERVER then
          let p2 = clients_bgn p1;
              (made, k1) = mkfifo fifoname k;
              (r, k2) = open_fifo fifoname (RdFile fifoname) 0 k1;
              (wfd, k3) = open_fifo fifoname (WrFile fifoname False) 0 k2
          in Val (p2\<lparr>sq_fd_server := r, sq_fd_server_w := wfd\<rparr>, k3)
        else
          let (s, k1) = open_fifo fifoname (WrFile fifoname False) 0 k;
              own = make_fifo_name_client (kn_pid k1);
              (made, k2) = mkfifo own (unlink own k1);
              (r, k3) = open_fifo own (RdFile own) O_NONBLOCK k2;
              k4 = setblock r True k3;
              (c, k5) = open_fifo own (WrFile own False) 0 k4
          in Val (p1\<lparr>sq_fd_server := s, sq_clients := (sq_clients p1)[0 := (sq_clients p1 ! 0)\<lparr>cl_fd := c\<rparr>]\<rparr>, k5))"

definition smi_close_fifo :: "smiq \<Rightarrow> kernel \<Rightarrow> kernel" where
  "smi_close_fifo p k =
     (let (p1, k1) = clients_end p k;
          k2 = close_k (sq_fd_server p1) k1
      in if sq_entity p1 = SMI_CLIENT then unlink (make_fifo_name_client (kn_pid k2)) k2
         else close_k (sq_fd_server_w p1) k2)"

section \<open>Sending and receiving\<close>

definition smi_send_getaddr_fifo :: "smiq \<Rightarrow> client_id \<Rightarrow> smiq" where
  "smi_send_getaddr_fifo p client =
     (if sq_entity p = SMI_SERVER then p\<lparr>sq_client := client\<rparr> else p)"

definition smi_send_release :: "smiq \<Rightarrow> kernel \<Rightarrow> (smiq \<times> kernel) outcome" where
  "smi_send_release p k =
     (if sq_entity p = SMI_SERVER then
        let (nclient, p1) = clients_find p (to_pid (c_id1 (sq_client p))) in
        if nclient = - 1 then UB
        else
          let d = cl_fd (sq_clients p1 ! nat nclient);
              k1 = (if d = - 1 then say (''Over capacity, cannot send message.'' @ [NL]) k else k)
          in Val (p1, write_msg d (sq_msg p1) k1)
      else
        let m = (sq_msg p)\<lparr>smi_client := (smi_client (sq_msg p))\<lparr>c_id1 := kn_pid k\<rparr>\<rparr>;
            p1 = p\<lparr>sq_msg := m\<rparr>
        in Val (p1, write_msg (sq_fd_server p1) m k))"

text \<open>
  The two checks of \<open>nread\<close>, which only print.  \<open>offsetof\<close> has the type \<open>size_t\<close>, so -1 is compared
  as \<open>2^64 - 1\<close>.
\<close>

definition nread_checks :: "int \<Rightarrow> kernel \<Rightarrow> kernel" where
  "nread_checks n k =
     (let k1 = (if n = 0 then say (''Read fail.'' @ [NL]) k else k)
      in if (word_of_int n :: 64 word) < of_nat smi_data_offset
         then say (''Error: Unexpected data.'' @ [NL]) k1 else k1)"

text \<open>One turn of the server's loop after its \<open>read\<close>; \<open>None\<close> is the \<open>continue\<close>.\<close>

definition accept :: "smiq \<Rightarrow> kernel \<Rightarrow> (smiq \<times> kernel) option" where
  "accept p k =
     (let pid = to_pid (c_id1 (smi_client (sq_msg p)));
          (nclient, p1) = clients_find p pid
      in if nclient = - 1 then None
         else if cl_fd (sq_clients p1 ! nat nclient) = - 1 then
           (let fifoname = make_fifo_name_client pid;
                (d, k1) = open_fifo fifoname (WrFile fifoname False) 0 k
            in Some (p1\<lparr>sq_clients := (sq_clients p1)[nat nclient := (sq_clients p1 ! nat nclient)\<lparr>cl_fd := d\<rparr>]\<rparr>, k1))
         else Some (p1, k))"

text \<open>The loop, over the answers of the kernel.  On a descriptor that is not open for reading every
  \<open>read\<close> fails at once, and a \<open>continue\<close> then repeats for ever.\<close>

fun receive_loop :: "rd list \<Rightarrow> smiq \<Rightarrow> kernel \<Rightarrow> (smiq \<times> kernel) outcome" where
  "receive_loop rs p k =
     (if \<not> readable (sq_fd_server p) k then
        (case accept p (nread_checks (- 1) k) of None \<Rightarrow> Spins | Some x \<Rightarrow> Val x)
      else case rs of
        [] \<Rightarrow> Blocked k
      | r # rs' \<Rightarrow>
          (let (n, m) = rd_result r (sq_msg p);
               p1 = p\<lparr>sq_msg := m\<rparr>; k1 = nread_checks n (k\<lparr>kn_reads := rs'\<rparr>)
           in case accept p1 k1 of
                None \<Rightarrow> receive_loop rs' p1 k1
              | Some x \<Rightarrow> Val x))"

declare receive_loop.simps [simp del]

definition smi_receive_getaddr_fifo :: "smiq \<Rightarrow> kernel \<Rightarrow> (smiq \<times> kernel) outcome" where
  "smi_receive_getaddr_fifo p k =
     (if sq_entity p = SMI_SERVER then receive_loop (kn_reads k) p k
      else if \<not> readable (cl_fd (sq_clients p ! 0)) k then Val (p, k)
      else case kn_reads k of
             [] \<Rightarrow> Blocked k
           | r # rs \<Rightarrow> Val (p\<lparr>sq_msg := snd (rd_result r (sq_msg p))\<rparr>, k\<lparr>kn_reads := rs\<rparr>))"

definition smi_receive_release_fifo :: "smiq \<Rightarrow> bool" where
  "smi_receive_release_fifo p = True"
section \<open>The wrappers and \<open>main\<close>\<close>

definition smi_open :: "string \<Rightarrow> SMIENTITY \<Rightarrow> nat \<Rightarrow> kernel \<Rightarrow> (smiq \<times> kernel) outcome" where
  "smi_open name entity msgsize k = smi_open_fifo name entity msgsize k"

definition smi_send_getaddr :: "smiq \<Rightarrow> client_id \<Rightarrow> smiq" where
  "smi_send_getaddr p client = smi_send_getaddr_fifo p client"

definition smi_receive_getaddr :: "smiq \<Rightarrow> kernel \<Rightarrow> (smiq \<times> kernel) outcome" where
  "smi_receive_getaddr p k = smi_receive_getaddr_fifo p k"

definition smi_receive_release :: "smiq \<Rightarrow> bool" where
  "smi_receive_release p = smi_receive_release_fifo p"

text \<open>
  The loop over the characters.  \<open>msg_in\<close> and \<open>msg_out\<close> are the same message, so it reads and writes one
  array; without a NUL it runs off its end, and a byte for which \<open>toupper\<close> is undefined is undefined
  behaviour too (\<open>None\<close>).
\<close>

function upper_loop :: "nat \<Rightarrow> string \<Rightarrow> string option" where
  "upper_loop i d =
     (if length d \<le> i then None
      else if d ! i = NUL then Some (d[i := NUL])
      else if \<not> ctype_defined (d ! i) then None
      else upper_loop (Suc i) (d[i := toupper (d ! i)]))"
  by pat_completeness auto
termination by (relation "measure (\<lambda>(i, d). length d - i)") auto

declare upper_loop.simps [simp del]

definition serve_once :: "smiq \<Rightarrow> kernel \<Rightarrow> (smiq \<times> kernel) outcome" where
  "serve_once p k =
     (case smi_receive_getaddr p k of
        Val (p1, k1) \<Rightarrow>
          (let p2 = smi_send_getaddr p1 (smi_client (sq_msg p1)) in
           case upper_loop 0 (smi_data (sq_msg p2)) of
             None \<Rightarrow> UB
           | Some d \<Rightarrow> smi_send_release (p2\<lparr>sq_msg := (sq_msg p2)\<lparr>smi_data := d\<rparr>\<rparr>) k1)
      | UB \<Rightarrow> UB | Blocked k1 \<Rightarrow> Blocked k1 | Spins \<Rightarrow> Spins)"

fun serve :: "nat \<Rightarrow> smiq \<Rightarrow> kernel \<Rightarrow> (smiq \<times> kernel) outcome" where
  "serve 0 p k = Val (p, k)"
| "serve (Suc n) p k =
     (case serve_once p k of
        Val (p1, k1) \<Rightarrow> serve n p1 k1
      | UB \<Rightarrow> UB | Blocked k1 \<Rightarrow> Blocked k1 | Spins \<Rightarrow> Spins)"

text \<open>The first \<open>n\<close> turns of the endless loop of \<open>main\<close>.\<close>

definition smi_main :: "nat \<Rightarrow> kernel \<Rightarrow> (smiq \<times> kernel) outcome" where
  "smi_main n k =
     (case smi_open SERVER_NAME SMI_SERVER DATA_SIZE
         (say (''server started MAX('' @ show_nat SERVER_NAME_MAX @ '')'' @ [NL]) k) of
        Val (p, k1) \<Rightarrow> serve n p k1
      | UB \<Rightarrow> UB | Blocked k1 \<Rightarrow> Blocked k1 | Spins \<Rightarrow> Spins)"

section \<open>The client table as an interface\<close>

text \<open>
  What the server relies on: a slot that was found is the sender's, and is found again, also after
  the sender's FIFO has been opened for it.
\<close>

locale client_table =
  fixes find :: "'t \<Rightarrow> pid \<Rightarrow> int \<times> 't"
    and pid_at :: "'t \<Rightarrow> int \<Rightarrow> pid"
    and connect :: "'t \<Rightarrow> int \<Rightarrow> fd \<Rightarrow> 't"
    and ok :: "'t \<Rightarrow> bool"
  assumes find_ok: "ok t \<Longrightarrow> find t q = (i, u) \<Longrightarrow> ok u"
    and find_at: "ok t \<Longrightarrow> find t q = (i, u) \<Longrightarrow> i \<noteq> - 1 \<Longrightarrow> pid_at u i = q \<and> find u q = (i, u)"
    and connect_find: "ok t \<Longrightarrow> find t q = (i, t) \<Longrightarrow> i \<noteq> - 1 \<Longrightarrow>
      find (connect t i d) q = (i, connect t i d) \<and> ok (connect t i d) \<and> pid_at (connect t i d) = pid_at t"
begin

lemma found_again:
  assumes "ok t" and "find t q = (i, u)" and "i \<noteq> - 1"
  shows "find u q = (i, u)" and "find (connect u i d) q = (i, connect u i d)"
    and "pid_at (connect u i d) i = q" and "ok (connect u i d)"
  using find_ok [OF assms(1,2)] find_at [OF assms] connect_find [of u q i d] assms(3) by simp_all

end

definition table_ok :: "slot list \<Rightarrow> bool" where
  "table_ok cs \<longleftrightarrow> (\<forall>j<length cs. \<forall>i<j. cl_pid (cs ! i) = cl_pid (cs ! j) \<longrightarrow> cl_fd (cs ! j) = - 1)"

definition set_fd :: "slot list \<Rightarrow> int \<Rightarrow> fd \<Rightarrow> slot list" where
  "set_fd cs i d = cs[nat i := (cs ! nat i)\<lparr>cl_fd := d\<rparr>]"

lemma find_loop_Inl:
  "find_loop q n cs a = Inl j \<Longrightarrow>
     n \<le> j \<and> j < n + length cs \<and> cl_pid (cs ! (j - n)) = q \<and> (\<forall>i<j - n. cl_pid (cs ! i) \<noteq> q)"
proof (induction q n cs a rule: find_loop.induct)
  case (2 q n c cs a)
  show ?case
  proof (cases "cl_pid c = q")
    case False
    with "2.prems" have f: "find_loop q (Suc n) cs (if cl_fd c = - 1 \<and> a = - 1 then int n else a) = Inl j" by simp
    note h = "2.IH" [OF False f]
    then have "Suc n \<le> j" by simp
    then have j: "j - n = Suc (j - Suc n)" by arith
    with h False show ?thesis by (auto simp: nth_Cons split: nat.splits)
  qed (use "2.prems" in simp)
qed simp

lemma find_loop_Inr:
  "find_loop q n cs a = Inr b \<Longrightarrow>
     (\<forall>c\<in>set cs. cl_pid c \<noteq> q)
     \<and> (if a \<noteq> - 1 then b = a
        else (b = - 1 \<and> (\<forall>c\<in>set cs. cl_fd c \<noteq> - 1))
          \<or> (\<exists>j<length cs. b = int (n + j) \<and> cl_fd (cs ! j) = - 1))"
proof (induction q n cs a rule: find_loop.induct)
  case (2 q n c cs a)
  then have ne: "cl_pid c \<noteq> q" by (auto split: if_splits)
  with "2.prems" have f: "find_loop q (Suc n) cs (if cl_fd c = - 1 \<and> a = - 1 then int n else a) = Inr b" by simp
  note h = "2.IH" [OF ne f]
  show ?case
  proof (cases "a = - 1")
    case True
    show ?thesis
    proof (cases "cl_fd c = - 1")
      case t: True
      with True h have "b = int n" by (auto split: if_splits)
      with t True ne h show ?thesis by (auto intro!: exI [of _ 0])
    next
      case t: False
      from h t True show ?thesis using ne
        by (auto intro: exI [of _ "Suc _"] split: if_splits)
    qed
  qed (use h ne in \<open>auto split: if_splits\<close>)
qed simp

lemma find_loop_first:
  "j < length cs \<Longrightarrow> cl_pid (cs ! j) = q \<Longrightarrow> \<forall>i<j. cl_pid (cs ! i) \<noteq> q \<Longrightarrow> find_loop q n cs a = Inl (n + j)"
proof (induction q n cs a arbitrary: j rule: find_loop.induct)
  case (2 q n c cs a)
  show ?case
  proof (cases j)
    case 0
    with "2.prems" show ?thesis by simp
  next
    case (Suc j')
    with "2.prems"(3) have c: "cl_pid c \<noteq> q" by auto
    have "\<forall>i<j'. cl_pid (cs ! i) \<noteq> q" using "2.prems"(3) Suc by auto
    with "2.IH" [OF c, of j'] "2.prems" Suc c show ?thesis by simp
  qed
qed simp

text \<open>The three ways a search ends.\<close>

lemma find_slot_cases:
  assumes "find_slot cs q = (i, cs')"
  obtains (known) j where "i = int j" "cs' = cs" "j < length cs" "cl_pid (cs ! j) = q"
      "\<forall>k<j. cl_pid (cs ! k) \<noteq> q"
  | (fresh) j where "i = int j" "j < length cs" "cl_fd (cs ! j) = - 1" "\<forall>c\<in>set cs. cl_pid c \<noteq> q"
      "cs' = cs[j := (cs ! j)\<lparr>cl_pid := q\<rparr>]"
  | (full) "i = - 1" "cs' = cs" "\<forall>c\<in>set cs. cl_pid c \<noteq> q \<and> cl_fd c \<noteq> - 1"
proof (cases "find_loop q 0 cs (- 1)")
  case (Inl j)
  from find_loop_Inl [OF this] Inl assms known [of j] show ?thesis by (simp add: find_slot_def)
next
  case (Inr b)
  have ne: "\<forall>c\<in>set cs. cl_pid c \<noteq> q" using find_loop_Inr [OF Inr] by simp
  consider "b = - 1" "\<forall>c\<in>set cs. cl_fd c \<noteq> - 1" | j where "j < length cs" "b = int j" "cl_fd (cs ! j) = - 1"
    using find_loop_Inr [OF Inr] by auto
  then show ?thesis
  proof cases
    case 1
    with ne assms Inr show ?thesis by (intro full) (simp_all add: find_slot_def)
  next
    case (2 j)
    with ne assms Inr show ?thesis by (intro fresh [of j]) (simp_all add: find_slot_def)
  qed
qed

lemma find_slot_known:
  "j < length cs \<Longrightarrow> cl_pid (cs ! j) = q \<Longrightarrow> \<forall>i<j. cl_pid (cs ! i) \<noteq> q \<Longrightarrow> find_slot cs q = (int j, cs)"
  using find_loop_first [of j cs q 0 "- 1"] by (simp add: find_slot_def)

lemma find_slot_ok: "table_ok cs \<Longrightarrow> find_slot cs q = (i, cs') \<Longrightarrow> table_ok cs'"
  by (erule find_slot_cases) (auto simp: table_ok_def nth_list_update)

interpretation tbl: client_table find_slot "\<lambda>cs i. cl_pid (cs ! nat i)" set_fd table_ok
proof
  fix t u :: "slot list" and q i d
  show "table_ok t \<Longrightarrow> find_slot t q = (i, u) \<Longrightarrow> table_ok u" by (rule find_slot_ok)
  show "cl_pid (u ! nat i) = q \<and> find_slot u q = (i, u)"
    if a: "table_ok t" "find_slot t q = (i, u)" "i \<noteq> - 1"
    using a(2)
  proof (cases rule: find_slot_cases)
    case (known j)
    then show ?thesis using find_slot_known [of j t q] by simp
  next
    case (fresh j)
    then have "find_slot u q = (int j, u)"
      by (intro find_slot_known) (auto simp: nth_list_update)
    with fresh show ?thesis by simp
  qed (use a in simp)
  show "find_slot (set_fd t i d) q = (i, set_fd t i d) \<and> table_ok (set_fd t i d)
      \<and> (\<lambda>j. cl_pid (set_fd t i d ! nat j)) = (\<lambda>j. cl_pid (t ! nat j))"
    if a: "table_ok t" "find_slot t q = (i, t)" "i \<noteq> - 1"
  proof -
    obtain j where j: "i = int j" "j < length t" "cl_pid (t ! j) = q" "\<forall>k<j. cl_pid (t ! k) \<noteq> q"
      using a(2)
    proof (cases rule: find_slot_cases)
      case (fresh j)
      then have "t ! j = (t ! j)\<lparr>cl_pid := q\<rparr>" by (metis nth_list_update_eq)
      then have "cl_pid (t ! j) = q" by (metis slot.select_convs(2) slot.surjective slot.update_convs(2))
      with fresh show ?thesis by (metis nth_mem)
    qed (use a in auto)
    have p: "cl_pid (set_fd t i d ! k) = cl_pid (t ! k)" for k
      using j(1,2) by (cases "k = j") (simp_all add: set_fd_def)
    have "find_slot (set_fd t i d) q = (int j, set_fd t i d)"
      by (rule find_slot_known) (use j p in \<open>auto simp: set_fd_def\<close>)
    moreover have "table_ok (set_fd t i d)"
    proof -
      have "cl_fd (set_fd t i d ! m) = - 1" if "m < length t" "k < m" "cl_pid (t ! k) = cl_pid (t ! m)" for k m
        using \<open>table_ok t\<close> that j by (cases "m = j") (auto simp: table_ok_def set_fd_def)
      then show ?thesis unfolding table_ok_def p by (simp add: set_fd_def)
    qed
    ultimately show ?thesis using j(1) p by simp
  qed
qed

end
