(* ===== verification/SmiServer.thy ===== *)
theory SmiServer
  imports SmiQueue
begin

text \<open>
  What the server of \<open>ad_comm/smi_server.c\<close> is to do with a sequence of messages (\<open>spec_serve\<close>), that it
  does it, and that its loop has no undefined behaviour; the queue of a client; the names of the
  FIFOs.
\<close>

section \<open>The loop over the characters\<close>

text \<open>A text with an end and without a byte before it that \<open>toupper\<close> is not defined for.\<close>

definition clean :: "string \<Rightarrow> bool" where
  "clean d \<longleftrightarrow> NUL \<in> set d \<and> list_all ctype_defined (takeWhile (\<lambda>c. c \<noteq> NUL) d)"

lemma clean_Cons: "clean (c # d) \<longleftrightarrow> (if c = NUL then True else ctype_defined c \<and> clean d)"
  by (auto simp: clean_def)

lemma upper_loop_spec:
  "i \<le> length d \<Longrightarrow> upper_loop i d =
     (if clean (drop i d)
      then Some (take i d @ map toupper (takeWhile (\<lambda>c. c \<noteq> NUL) (drop i d)) @ dropWhile (\<lambda>c. c \<noteq> NUL) (drop i d))
      else None)"
proof (induction i d rule: upper_loop.induct)
  case (1 i d)
  show ?case
  proof (cases "i = length d")
    case True
    then show ?thesis by (simp add: upper_loop.simps [of "length d" d] clean_def)
  next
    case False
    with "1.prems" have i: "i < length d" by simp
    then have dr: "drop i d = d ! i # drop (Suc i) d" by (rule Cons_nth_drop_Suc [symmetric])
    show ?thesis
    proof (cases "d ! i = NUL")
      case True
      with i dr show ?thesis
        by (simp add: upper_loop.simps [of i d] clean_Cons flip: id_take_nth_drop) (metis append_take_drop_id list_update_id)
    next
      case nul: False
      show ?thesis
      proof (cases "ctype_defined (d ! i)")
      case False
      with i nul dr show ?thesis by (simp add: upper_loop.simps [of i d] clean_Cons)
      next
      case True
      let ?d = "d[i := toupper (d ! i)]"
      have "take (Suc i) ?d = take i d @ [toupper (d ! i)]"
        using i by (simp add: take_Suc_conv_app_nth)
      moreover have "drop (Suc i) ?d = drop (Suc i) d" by simp
      moreover have "Suc i \<le> length ?d" using i by simp
      ultimately have "upper_loop (Suc i) ?d = (if clean (drop (Suc i) d)
         then Some ((take i d @ [toupper (d ! i)]) @ map toupper (takeWhile (\<lambda>c. c \<noteq> NUL) (drop (Suc i) d))
                    @ dropWhile (\<lambda>c. c \<noteq> NUL) (drop (Suc i) d)) else None)"
        using "1.IH" i nul True by (simp only: not_le) simp
      with i nul True dr show ?thesis by (simp add: upper_loop.simps [of i d] clean_Cons)
      qed
    qed
  qed
qed

definition upper_data :: "string \<Rightarrow> string" where
  "upper_data d = map toupper (takeWhile (\<lambda>c. c \<noteq> NUL) d) @ dropWhile (\<lambda>c. c \<noteq> NUL) d"

lemma upper_loop_0: "upper_loop 0 d = (if clean d then Some (upper_data d) else None)"
  using upper_loop_spec [of 0 d] by (simp add: upper_data_def)

section \<open>What the server is to do\<close>

text \<open>
  The clients that are connected, and the replies to a sequence of messages.  A message that is taken and
  holds a byte that \<open>toupper\<close> is not defined for ends the specification (\<open>None\<close>).
\<close>

definition msg_pid :: "smi_msg \<Rightarrow> pid" where
  "msg_pid m = to_pid (c_id1 (smi_client m))"

definition reply :: "smi_msg \<Rightarrow> string \<times> smi_msg" where
  "reply m = (make_fifo_name_client (msg_pid m), m\<lparr>smi_data := upper_data (smi_data m)\<rparr>)"

fun spec_serve :: "pid list \<Rightarrow> smi_msg list \<Rightarrow> (string \<times> smi_msg) list option" where
  "spec_serve S [] = Some []"
| "spec_serve S (m # ms) =
     (if msg_pid m \<notin> set S \<and> MAX_CLIENTS \<le> length S then spec_serve S ms
      else if \<not> clean (smi_data m) then None
      else map_option ((#) (reply m)) (spec_serve (if msg_pid m \<in> set S then S else msg_pid m # S) ms))"

section \<open>The invariant of the server\<close>

definition open_slots :: "slot list \<Rightarrow> slot list" where
  "open_slots cs = filter (\<lambda>c. cl_fd c \<noteq> - 1) cs"

definition srv_inv :: "smiq \<Rightarrow> kernel \<Rightarrow> pid list \<Rightarrow> bool" where
  "srv_inv p k S \<longleftrightarrow>
     sq_entity p = SMI_SERVER \<and> length (sq_clients p) = MAX_CLIENTS \<and> table_ok (sq_clients p)
     \<and> readable (sq_fd_server p) k
     \<and> (\<forall>c\<in>set (open_slots (sq_clients p)). kn_fds k (cl_fd c) = Some (WrFile (make_fifo_name_client (cl_pid c)) False))
     \<and> finite (dom (kn_fds k)) \<and> card (dom (kn_fds k)) \<le> 5 + length S \<and> 26 \<le> kn_nofile k
     \<and> set S = cl_pid ` set (open_slots (sq_clients p)) \<and> length S = length (open_slots (sq_clients p))"

lemma lowest_free_card:
  assumes "finite (dom t)" and "card (dom t) < n"
  obtains d where "lowest_free n t = Some d"
proof -
  have "\<not> int ` {..<n} \<subseteq> dom t"
  proof
    assume "int ` {..<n} \<subseteq> dom t"
    then have "card (int ` {..<n}) \<le> card (dom t)" using assms(1) by (rule card_mono [rotated])
    then show False using assms(2) by (simp add: card_image)
  qed
  then obtain i where "i < n" "t (int i) = None" by auto
  with lowest_free_isSome [of "int i" n t] that show ?thesis by auto
qed

text \<open>Every slot is open when there are as many connected clients as slots.\<close>

lemma all_open: "length (open_slots cs) = length cs \<longleftrightarrow> (\<forall>c\<in>set cs. cl_fd c \<noteq> - 1)"
proof -
  have "length (open_slots cs) < length cs" if "\<exists>c\<in>set cs. cl_fd c = - 1"
    using that unfolding open_slots_def by (auto intro: length_filter_less)
  moreover have "length (open_slots cs) = length cs" if "\<forall>c\<in>set cs. cl_fd c \<noteq> - 1"
    using that unfolding open_slots_def by (simp add: filter_True)
  ultimately show ?thesis by (metis less_irrefl)
qed

lemma open_slots_pid: "table_ok cs \<Longrightarrow> j < length cs \<Longrightarrow> \<forall>i<j. cl_pid (cs ! i) \<noteq> cl_pid (cs ! j) \<Longrightarrow>
   cl_fd (cs ! j) = - 1 \<Longrightarrow> cl_pid (cs ! j) \<notin> cl_pid ` set (open_slots cs)"
proof
  assume a: "table_ok cs" "j < length cs" "\<forall>i<j. cl_pid (cs ! i) \<noteq> cl_pid (cs ! j)" "cl_fd (cs ! j) = - 1"
    and "cl_pid (cs ! j) \<in> cl_pid ` set (open_slots cs)"
  then obtain i where i: "i < length cs" "cl_fd (cs ! i) \<noteq> - 1" "cl_pid (cs ! i) = cl_pid (cs ! j)"
    by (auto simp: open_slots_def in_set_conv_nth)
  with a have "i \<noteq> j" "\<not> i < j" by auto
  then have "j < i" by simp
  with a(1) i have "cl_fd (cs ! i) = - 1" by (simp add: table_ok_def)
  with i(2) show False ..
qed

lemma open_slots_update:
  assumes "j < length cs" and "cl_fd (cs ! j) = - 1" and "cl_fd c \<noteq> - 1"
  shows "length (open_slots (cs[j := c])) = Suc (length (open_slots cs))"
    and "set (open_slots (cs[j := c])) = insert c (set (open_slots cs))"
proof -
  have cs: "cs = take j cs @ cs ! j # drop (Suc j) cs" by (rule id_take_nth_drop [OF assms(1)])
  have u: "cs[j := c] = take j cs @ c # drop (Suc j) cs" by (rule upd_conv_take_nth_drop [OF assms(1)])
  have "open_slots cs = open_slots (take j cs) @ open_slots (drop (Suc j) cs)"
    using assms(2) by (subst cs) (simp add: open_slots_def)
  moreover have "open_slots (cs[j := c]) = open_slots (take j cs) @ c # open_slots (drop (Suc j) cs)"
    using assms(3) by (simp add: u open_slots_def)
  ultimately show "length (open_slots (cs[j := c])) = Suc (length (open_slots cs))"
    "set (open_slots (cs[j := c])) = insert c (set (open_slots cs))" by auto
qed

section \<open>One message\<close>

text \<open>What \<open>accept\<close> gives when the FIFO of the client exists.\<close>

definition accepted :: "smiq \<Rightarrow> kernel \<Rightarrow> pid \<Rightarrow> pid list \<Rightarrow> smiq \<Rightarrow> kernel \<Rightarrow> bool" where
  "accepted p k q S p' k' \<longleftrightarrow>
     srv_inv p' k' S \<and> sq_msg p' = sq_msg p \<and> kn_sent k' = kn_sent k \<and> kn_reads k' = kn_reads k
     \<and> kn_fifos k' = kn_fifos k
     \<and> (\<exists>i. find_slot (sq_clients p') q = (i, sq_clients p') \<and> i \<noteq> - 1
          \<and> kn_fds k' (cl_fd (sq_clients p' ! nat i)) = Some (WrFile (make_fifo_name_client q) False)
          \<and> cl_fd (sq_clients p' ! nat i) \<noteq> - 1)"

lemma accept_known:
  assumes inv: "srv_inv p k S" and S: "msg_pid (sq_msg p) \<in> set S"
  shows "accept p k = Some (p, k) \<and> accepted p k (msg_pid (sq_msg p)) S p k"
proof -
  let ?q = "msg_pid (sq_msg p)" and ?cs = "sq_clients p"
  obtain i cs' where f: "find_slot ?cs ?q = (i, cs')" by fastforce
  have q: "?q \<in> cl_pid ` set (open_slots ?cs)" using inv S by (simp add: srv_inv_def)
  from f obtain j where j: "i = int j" "cs' = ?cs" "j < length ?cs" "cl_pid (?cs ! j) = ?q" "\<forall>k<j. cl_pid (?cs ! k) \<noteq> ?q"
  proof (cases rule: find_slot_cases)
    case (fresh j)
    then show ?thesis using q by (auto simp: open_slots_def)
  next
    case full
    then show ?thesis using q by (auto simp: open_slots_def)
  qed
  have o: "cl_fd (?cs ! j) \<noteq> - 1"
    using open_slots_pid [of ?cs j] j q inv by (auto simp: srv_inv_def)
  then have "?cs ! j \<in> set (open_slots ?cs)" using j(3) by (simp add: open_slots_def)
  then have "kn_fds k (cl_fd (?cs ! j)) = Some (WrFile (make_fifo_name_client ?q) False)"
    using inv j(4) by (auto simp: srv_inv_def)
  moreover have "accept p k = Some (p, k)"
    using f j o by (simp add: accept_def clients_find_def msg_pid_def)
  ultimately show ?thesis using inv f j o by (simp add: accepted_def)
qed

lemma accept_full:
  assumes inv: "srv_inv p k S" and S: "msg_pid (sq_msg p) \<notin> set S" "MAX_CLIENTS \<le> length S"
  shows "accept p k = None"
proof -
  let ?q = "msg_pid (sq_msg p)" and ?cs = "sq_clients p"
  obtain i cs' where f: "find_slot ?cs ?q = (i, cs')" by fastforce
  have "length (open_slots ?cs) \<le> length ?cs" by (simp add: open_slots_def)
  with inv S(2) have "length (open_slots ?cs) = length ?cs" by (simp add: srv_inv_def)
  then have o: "\<forall>c\<in>set ?cs. cl_fd c \<noteq> - 1" by (simp add: all_open)
  then have "open_slots ?cs = ?cs" by (simp add: open_slots_def)
  with inv S(1) have "?q \<notin> cl_pid ` set ?cs" by (simp add: srv_inv_def)
  then have "\<forall>c\<in>set ?cs. cl_pid c \<noteq> ?q" by (metis image_eqI)
  with f o have "i = - 1"
    by (cases rule: find_slot_cases) auto
  with f show ?thesis by (simp add: accept_def clients_find_def msg_pid_def)
qed

text \<open>A new pid gets a free slot when there is one.\<close>

lemma new_slot:
  assumes f: "find_slot cs q = (i, cs')" and ex: "\<exists>c\<in>set cs. cl_fd c = - 1" and q: "q \<notin> cl_pid ` set (open_slots cs)"
  obtains j where "i = int j" "j < length cs" "cl_fd (cs ! j) = - 1" "cs' = cs[j := (cs ! j)\<lparr>cl_pid := q\<rparr>]"
  using f
proof (cases rule: find_slot_cases)
  case (known j)
  have "cl_fd (cs ! j) = - 1"
  proof (rule ccontr)
    assume "cl_fd (cs ! j) \<noteq> - 1"
    then have "cs ! j \<in> set (open_slots cs)" using known by (simp add: open_slots_def)
    with q known(4) show False by (metis image_eqI)
  qed
  moreover have "(cs ! j)\<lparr>cl_pid := q\<rparr> = cs ! j" using known(4) by (cases "cs ! j") simp
  then have "cs[j := (cs ! j)\<lparr>cl_pid := q\<rparr>] = cs" by (simp only: list_update_id)
  ultimately show ?thesis using known by (intro that [of j]) simp_all
next
  case full
  then show ?thesis using ex by auto
qed (use that in auto)

text \<open>The invariant when a free slot is given to a new client, with a descriptor that was free.\<close>

lemma srv_inv_add:
  assumes inv: "srv_inv p k S" and d: "kn_fds k d = None" "d \<noteq> - 1" and j: "j < length (sq_clients p)" "cl_fd (sq_clients p ! j) = - 1"
    and c: "c = (sq_clients p ! j)\<lparr>cl_pid := q, cl_fd := d\<rparr>" and ok: "table_ok ((sq_clients p)[j := c])"
  shows "srv_inv (p\<lparr>sq_clients := (sq_clients p)[j := c]\<rparr>)
     (k\<lparr>kn_fds := (kn_fds k)(d \<mapsto> WrFile (make_fifo_name_client q) False), kn_flags := fl\<rparr>) (q # S)"
    (is "srv_inv ?p ?k _")
proof -
  let ?cs = "sq_clients p"
  have old: "kn_fds ?k (cl_fd c) = Some (WrFile (make_fifo_name_client (cl_pid c)) False)"
    if "c \<in> set (open_slots ?cs)" for c
    using inv that d(1) by (auto simp: srv_inv_def)
  have os: "length (open_slots (?cs[j := c])) = Suc (length (open_slots ?cs))"
    "set (open_slots (?cs[j := c])) = insert c (set (open_slots ?cs))"
    by (rule open_slots_update [OF j], use c d(2) in simp)+
  have "kn_fds k (sq_fd_server p) \<noteq> None" "readable (sq_fd_server p) k"
    using inv by (auto simp: srv_inv_def readable_def split: option.splits)
  then have "readable (sq_fd_server ?p) ?k" using d(1) by (auto simp: readable_def)
  moreover have "card (dom (kn_fds ?k)) \<le> 5 + length (q # S)" "finite (dom (kn_fds ?k))"
    using inv d(1) by (simp_all add: srv_inv_def domIff)
  moreover have "\<forall>c\<in>set (open_slots (?cs[j := c])). kn_fds ?k (cl_fd c) = Some (WrFile (make_fifo_name_client (cl_pid c)) False)"
    unfolding os using old c by auto
  moreover have "set (q # S) = cl_pid ` set (open_slots (?cs[j := c]))" unfolding os
    using inv c by (simp add: srv_inv_def)
  ultimately show ?thesis using inv ok os(1) by (simp add: srv_inv_def)
qed

lemma accept_new:
  assumes inv: "srv_inv p k S" and S: "msg_pid (sq_msg p) \<notin> set S" "length S < MAX_CLIENTS"
    and fifo: "make_fifo_name_client (msg_pid (sq_msg p)) \<in> set (kn_fifos k)"
  shows "\<exists>p' k'. accept p k = Some (p', k') \<and> accepted p k (msg_pid (sq_msg p)) (msg_pid (sq_msg p) # S) p' k'"
proof -
  let ?q = "msg_pid (sq_msg p)" and ?cs = "sq_clients p"
  let ?n = "make_fifo_name_client ?q"
  obtain i cs' where f: "find_slot ?cs ?q = (i, cs')" by fastforce
  have ok: "table_ok ?cs" using inv by (simp add: srv_inv_def)
  have "length (open_slots ?cs) \<noteq> length ?cs" using inv S(2) by (simp add: srv_inv_def)
  then have ex: "\<exists>c\<in>set ?cs. cl_fd c = - 1" using all_open by blast
  have "?q \<notin> cl_pid ` set (open_slots ?cs)" using inv S(1) by (simp add: srv_inv_def)
  then obtain j where j: "i = int j" "j < length ?cs" "cl_fd (?cs ! j) = - 1" "cs' = ?cs[j := (?cs ! j)\<lparr>cl_pid := ?q\<rparr>]"
    using new_slot [OF f ex] by blast
  have "card (dom (kn_fds k)) < kn_nofile k"
    using inv S(2) by (simp add: srv_inv_def MAX_CLIENTS_def)
  then obtain d where d: "lowest_free (kn_nofile k) (kn_fds k) = Some d"
    using lowest_free_card inv by (auto simp: srv_inv_def)
  note free = lowest_free_SomeD [OF d]
  let ?f = "WrFile ?n False"
  let ?k = "k\<lparr>kn_fds := (kn_fds k)(d \<mapsto> ?f), kn_flags := (kn_flags k)(d := 0)\<rparr>"
  have op: "open_fifo ?n ?f 0 k = (d, ?k)"
    using fifo d by (simp add: open_fifo_def open_fd_def fd_of_def)
  let ?c = "(?cs ! j)\<lparr>cl_pid := ?q, cl_fd := d\<rparr>"
  have i: "i \<noteq> - 1" using j(1) by simp
  have sf: "set_fd cs' i d = ?cs[j := ?c]" using j by (simp add: set_fd_def)
  have acc: "accept p k = Some (p\<lparr>sq_clients := ?cs[j := ?c]\<rparr>, ?k)"
    using f j op by (simp add: accept_def clients_find_def msg_pid_def [symmetric] Let_def)
  have again: "find_slot (?cs[j := ?c]) ?q = (i, ?cs[j := ?c])" "table_ok (?cs[j := ?c])"
    using tbl.found_again(2,4) [OF ok f i, of d] by (simp_all add: sf)
  have "srv_inv (p\<lparr>sq_clients := ?cs[j := ?c]\<rparr>) ?k (?q # S)"
    by (rule srv_inv_add [OF inv free(1) _ j(2,3) refl again(2)]) (use free(2) in simp)
  with acc again(1) j free(2) i show ?thesis by (simp add: accepted_def)
qed

section \<open>Serving a sequence of messages\<close>

lemma nread_checks_fields [simp]:
  "kn_fds (nread_checks n k) = kn_fds k" "kn_reads (nread_checks n k) = kn_reads k"
  "kn_sent (nread_checks n k) = kn_sent k" "kn_fifos (nread_checks n k) = kn_fifos k"
  "kn_nofile (nread_checks n k) = kn_nofile k" "kn_pid (nread_checks n k) = kn_pid k"
  by (simp_all add: nread_checks_def Let_def say_def)

lemma readable_fds: "kn_fds k = kn_fds k' \<Longrightarrow> readable d k = readable d k'"
  by (simp add: readable_def)

lemma srv_inv_fields:
  "sq_entity p' = sq_entity p \<Longrightarrow> sq_clients p' = sq_clients p \<Longrightarrow> sq_fd_server p' = sq_fd_server p \<Longrightarrow>
   kn_fds k' = kn_fds k \<Longrightarrow> kn_nofile k' = kn_nofile k \<Longrightarrow> srv_inv p' k' S = srv_inv p k S"
  by (simp add: srv_inv_def readable_def)

text \<open>The state after one \<open>read\<close>.\<close>

definition read_queue :: "smi_msg \<Rightarrow> smiq \<Rightarrow> smiq" where
  "read_queue m p = p\<lparr>sq_msg := m\<rparr>"

definition read_kernel :: "nat \<Rightarrow> rd list \<Rightarrow> kernel \<Rightarrow> kernel" where
  "read_kernel n rs k = nread_checks (int n) (k\<lparr>kn_reads := rs\<rparr>)"

lemma read_fields [simp]:
  "sq_msg (read_queue m p) = m" "kn_reads (read_kernel n rs k) = rs" "kn_sent (read_kernel n rs k) = kn_sent k"
  "kn_fifos (read_kernel n rs k) = kn_fifos k" "sq_entity (read_queue m p) = sq_entity p"
  by (simp_all add: read_queue_def read_kernel_def)

lemma srv_inv_read [simp]: "srv_inv (read_queue m p) (read_kernel n rs k) S = srv_inv p k S"
  by (rule srv_inv_fields) (simp_all add: read_queue_def read_kernel_def)

lemma srv_inv_simps:
  assumes "srv_inv p k S"
  shows "sq_entity p = SMI_SERVER" "readable (sq_fd_server p) k"
  using assms by (simp_all add: srv_inv_def)

lemma receive_RdMsg:
  assumes "srv_inv p k S" and "kn_reads k = RdMsg n m # rs"
  shows "smi_receive_getaddr p k =
     (case accept (read_queue m p) (read_kernel n rs k) of
        Some x \<Rightarrow> Val x
      | None \<Rightarrow> smi_receive_getaddr (read_queue m p) (read_kernel n rs k))"
proof -
  have "readable (sq_fd_server (read_queue m p)) (read_kernel n rs k) = readable (sq_fd_server p) k"
    by (simp add: readable_def read_queue_def read_kernel_def)
  with srv_inv_simps [OF assms(1)] assms(2) show ?thesis
    by (simp add: smi_receive_getaddr_def smi_receive_getaddr_fifo_def rd_result_def
        receive_loop.simps [of "RdMsg n m # rs"] read_queue_def [symmetric] read_kernel_def [symmetric]
        Let_def split: option.splits)
qed

lemma write_msg_sent:
  "kn_fds k d = Some (WrFile n app) \<Longrightarrow> write_msg d m k = k\<lparr>kn_sent := kn_sent k @ [(n, m)]\<rparr>"
  by (simp add: write_msg_def)

text \<open>After \<open>accept\<close> the reply is written to the sender.\<close>

lemma serve_once_accepted:
  assumes r: "smi_receive_getaddr p k = Val (p1, k1)" and acc: "accepted q k0 (msg_pid m) S p1 k1"
    and m: "sq_msg q = m" and nul: "clean (smi_data m)"
  shows "\<exists>p2 k2. serve_once p k = Val (p2, k2) \<and> srv_inv p2 k2 S \<and> kn_sent k2 = kn_sent k0 @ [reply m]
     \<and> kn_reads k2 = kn_reads k0 \<and> kn_fifos k2 = kn_fifos k0"
proof -
  have p1: "sq_entity p1 = SMI_SERVER" "sq_msg p1 = m" "srv_inv p1 k1 S"
    using acc m by (simp_all add: accepted_def srv_inv_def)
  obtain i where i: "find_slot (sq_clients p1) (msg_pid m) = (i, sq_clients p1)" "i \<noteq> - 1"
    "kn_fds k1 (cl_fd (sq_clients p1 ! nat i)) = Some (WrFile (make_fifo_name_client (msg_pid m)) False)"
    "cl_fd (sq_clients p1 ! nat i) \<noteq> - 1"
    using acc by (auto simp: accepted_def)
  let ?p = "p1\<lparr>sq_client := smi_client m, sq_msg := m\<lparr>smi_data := upper_data (smi_data m)\<rparr>\<rparr>"
  have find: "clients_find ?p (to_pid (c_id1 (sq_client ?p))) = (i, ?p)"
    using i(1) by (simp add: clients_find_def msg_pid_def)
  have "serve_once p k = smi_send_release ?p k1"
    using r p1 nul by (simp add: serve_once_def smi_send_getaddr_def smi_send_getaddr_fifo_def upper_loop_0)
  also have "\<dots> = Val (?p, k1\<lparr>kn_sent := kn_sent k1 @ [reply m]\<rparr>)"
    unfolding smi_send_release_def find
    using i p1 by (simp add: write_msg_sent reply_def Let_def)
  finally have s: "serve_once p k = Val (?p, k1\<lparr>kn_sent := kn_sent k1 @ [reply m]\<rparr>)" .
  have "srv_inv ?p (k1\<lparr>kn_sent := kn_sent k1 @ [reply m]\<rparr>) S = srv_inv p1 k1 S"
    by (rule srv_inv_fields) simp_all
  with s p1(3) acc show ?thesis by (simp add: accepted_def)
qed

text \<open>A message that was dropped leaves a server that goes on with the next one.\<close>

lemma serve_dropped:
  assumes "srv_inv p k S" and "kn_reads k = RdMsg n m # rs" and "accept (read_queue m p) (read_kernel n rs k) = None"
    and "0 < f"
  shows "serve f p k = serve f (read_queue m p) (read_kernel n rs k)"
proof -
  have "serve_once p k = serve_once (read_queue m p) (read_kernel n rs k)"
    using receive_RdMsg [OF assms(1,2)] assms(3) by (simp add: serve_once_def)
  with assms(4) show ?thesis by (cases f) simp_all
qed

definition good_msg :: "kernel \<Rightarrow> smi_msg \<Rightarrow> bool" where
  "good_msg k m \<longleftrightarrow> NUL \<in> set (smi_data m) \<and> make_fifo_name_client (msg_pid m) \<in> set (kn_fifos k)"

lemma good_msg_fifos: "kn_fifos k' = kn_fifos k \<Longrightarrow> good_msg k' = good_msg k"
  by (simp add: good_msg_def fun_eq_iff)

lemma serve_once_takes:
  assumes inv: "srv_inv p k S" and rd: "kn_reads k = RdMsg n m # rs" and g: "good_msg k m"
    and a: "accept (read_queue m p) (read_kernel n rs k) = Some (p1, k1)" "accepted (read_queue m p) (read_kernel n rs k) (msg_pid m) T p1 k1"
    and c: "clean (smi_data m)"
  shows "\<exists>p2 k2. serve_once p k = Val (p2, k2) \<and> srv_inv p2 k2 T \<and> kn_sent k2 = kn_sent k @ [reply m] \<and> kn_reads k2 = rs \<and> kn_fifos k2 = kn_fifos k"
proof -
  have "smi_receive_getaddr p k = Val (p1, k1)" using receive_RdMsg [OF inv rd] a(1) by simp
  from serve_once_accepted [OF this a(2) _ c] show ?thesis by simp
qed

lemma serve_once_undefined:
  assumes inv: "srv_inv p k S" and rd: "kn_reads k = RdMsg n m # rs"
    and a: "accept (read_queue m p) (read_kernel n rs k) = Some (p1, k1)" "accepted (read_queue m p) (read_kernel n rs k) (msg_pid m) T p1 k1"
    and c: "\<not> clean (smi_data m)"
  shows "serve_once p k = UB"
proof -
  have "smi_receive_getaddr p k = Val (p1, k1)" using receive_RdMsg [OF inv rd] a(1) by simp
  moreover have "sq_msg p1 = m" "sq_entity p1 = SMI_SERVER" using a(2) by (simp_all add: accepted_def srv_inv_def)
  ultimately show ?thesis
    using c by (simp add: serve_once_def smi_send_getaddr_def smi_send_getaddr_fifo_def upper_loop_0)
qed

lemma serve_refines:
  assumes "srv_inv p k S" and "kn_reads k = map (RdMsg n) ms" and "\<forall>m\<in>set ms. good_msg k m"
    and "length ms < f"
  shows "case spec_serve S ms of
      Some r \<Rightarrow> \<exists>k'. serve f p k = Blocked k' \<and> kn_sent k' = kn_sent k @ r
    | None \<Rightarrow> serve f p k = UB"
  using assms
proof (induction ms arbitrary: p k S f)
  case Nil
  obtain f' where "f = Suc f'" using Nil.prems(4) by (cases f) auto
  moreover have "smi_receive_getaddr p k = Blocked k"
    using srv_inv_simps [OF Nil.prems(1)] Nil.prems(2)
    by (simp add: smi_receive_getaddr_def smi_receive_getaddr_fifo_def receive_loop.simps [of "[]"])
  ultimately show ?case by (simp add: serve_once_def)
next
  case (Cons m ms)
  let ?p = "read_queue m p" and ?k = "read_kernel n (map (RdMsg n) ms) k"
  have rd: "kn_reads k = RdMsg n m # map (RdMsg n) ms" using Cons.prems(2) by simp
  have inv: "srv_inv ?p ?k S" and m: "good_msg k m" using Cons.prems(1,3) by simp_all
  obtain f' where f: "f = Suc f'" "length ms < f'" using Cons.prems(4) by (cases f) auto
  have good: "\<forall>m\<in>set ms. good_msg k' m" if "kn_fifos k' = kn_fifos k" for k'
    using Cons.prems(3) good_msg_fifos [OF that] by simp
  have step: ?case if "accept ?p ?k = Some (p1, k1)" "accepted ?p ?k (msg_pid m) T p1 k1"
      and spec: "spec_serve S (m # ms) = (if clean (smi_data m) then map_option ((#) (reply m)) (spec_serve T ms) else None)"
    for p1 k1 T
  proof (cases "clean (smi_data m)")
    case True
    from serve_once_takes [OF Cons.prems(1) rd m that(1,2) True] obtain p2 k2 where
      s: "serve_once p k = Val (p2, k2)" "srv_inv p2 k2 T" "kn_sent k2 = kn_sent k @ [reply m]"
        "kn_reads k2 = map (RdMsg n) ms" "kn_fifos k2 = kn_fifos k" by blast
    from Cons.IH [OF s(2,4) good [OF s(5)] f(2)] s(1,3) f(1) spec True show ?thesis
      by (auto split: option.splits)
  next
    case False
    with serve_once_undefined [OF Cons.prems(1) rd that(1,2)] f(1) spec show ?thesis by simp
  qed
  consider "msg_pid m \<in> set S" | "msg_pid m \<notin> set S" "length S < MAX_CLIENTS"
    | "msg_pid m \<notin> set S" "MAX_CLIENTS \<le> length S" by linarith
  then show ?case
  proof cases
    case 1
    with accept_known [OF inv] show ?thesis by (intro step [of ?p ?k S]) simp_all
  next
    case 2
    with accept_new [OF inv] m obtain p1 k1 where
      "accept ?p ?k = Some (p1, k1)" "accepted ?p ?k (msg_pid m) (msg_pid m # S) p1 k1" by (auto simp: good_msg_def)
    then show ?thesis by (rule step) (use 2 in simp)
  next
    case 3
    with accept_full [OF inv] have "accept ?p ?k = None" by simp
    from serve_dropped [OF Cons.prems(1) rd this, of f] f
    have "serve f p k = serve f ?p ?k" by simp
    moreover have "length ms < f" using f by simp
    ultimately show ?thesis
      using Cons.IH [OF inv _ good, of f] 3 by (cases "spec_serve S ms") auto
  qed
qed

section \<open>The server from its start\<close>

text \<open>A process just started, with descriptors 0 to 2 and room for the clients.\<close>

definition fresh_kernel :: "kernel \<Rightarrow> bool" where
  "fresh_kernel k \<longleftrightarrow> kn_fds k = std_fds \<and> 26 \<le> kn_nofile k \<and> kn_sent k = []"

lemma dom_std_fds [simp]: "dom std_fds = {0, 1, 2}"
  by (auto simp: std_fds_def split: if_splits)

lemma lowest_free_3:
  "4 \<le> n \<Longrightarrow> lowest_free n std_fds = Some 3"
  by (rule lowest_free_least) (auto simp: std_fds_def)

lemma lowest_free_4:
  "5 \<le> n \<Longrightarrow> lowest_free n (std_fds(3 \<mapsto> f)) = Some 4"
  by (rule lowest_free_least) (auto simp: std_fds_def)

lemma smi_open_server:
  assumes "fresh_kernel k" and "length name < SERVER_NAME_MAX"
  shows "\<exists>p k'. smi_open name SMI_SERVER sz k = Val (p, k') \<and> srv_inv p k' []
     \<and> kn_sent k' = [] \<and> kn_reads k' = kn_reads k \<and> set (kn_fifos k) \<subseteq> set (kn_fifos k')
     \<and> kn_fds k' = std_fds(3 \<mapsto> RdFile (make_fifo_name_server name), 4 \<mapsto> WrFile (make_fifo_name_server name) False)
     \<and> sq_fd_server p = 3 \<and> sq_fd_server_w p = 4 \<and> open_slots (sq_clients p) = [] \<and> kn_pid k' = kn_pid k"
proof -
  let ?n = "make_fifo_name_server name"
  obtain b k1 where mk: "mkfifo ?n k = (b, k1)" by fastforce
  then have k1: "?n \<in> set (kn_fifos k1)" "kn_fds k1 = std_fds" "kn_nofile k1 = kn_nofile k"
    "kn_sent k1 = []" "kn_reads k1 = kn_reads k" "set (kn_fifos k) \<subseteq> set (kn_fifos k1)" "kn_pid k1 = kn_pid k"
    using assms(1) by (auto simp: mkfifo_def fresh_kernel_def split: if_splits)
  have n: "4 \<le> kn_nofile k1" "5 \<le> kn_nofile k1" using assms(1) k1(3) by (simp_all add: fresh_kernel_def)
  let ?k2 = "k1\<lparr>kn_fds := std_fds(3 \<mapsto> RdFile ?n), kn_flags := (kn_flags k1)(3 := 0)\<rparr>"
  let ?k3 = "k1\<lparr>kn_fds := std_fds(3 \<mapsto> RdFile ?n, 4 \<mapsto> WrFile ?n False), kn_flags := (kn_flags k1)(3 := 0, 4 := 0)\<rparr>"
  let ?p = "(clients_bgn ((calloc_smiq SMI_SERVER sz)\<lparr>sq_name := name\<rparr>))\<lparr>sq_fd_server := 3, sq_fd_server_w := 4\<rparr>"
  have "open_fifo ?n (RdFile ?n) 0 k1 = (3, ?k2)"
    using k1 n lowest_free_3 by (simp add: open_fifo_def open_fd_def fd_of_def)
  moreover have "open_fifo ?n (WrFile ?n False) 0 ?k2 = (4, ?k3)"
    using k1 n lowest_free_4 by (simp add: open_fifo_def open_fd_def fd_of_def)
  ultimately have "smi_open name SMI_SERVER sz k = Val (?p, ?k3)"
    using assms(2) mk by (simp add: smi_open_def smi_open_fifo_def Let_def)
  moreover have "open_slots (sq_clients ?p) = []"
    by (simp add: open_slots_def clients_bgn_def calloc_smiq_def)
  moreover have "srv_inv ?p ?k3 []"
    using assms(1) k1(3)
    by (simp add: srv_inv_def open_slots_def clients_bgn_def calloc_smiq_def table_ok_def readable_def
        fresh_kernel_def)
  ultimately show ?thesis using k1 by simp
qed

lemma smi_main_refines:
  assumes "fresh_kernel k" and "kn_reads k = map (RdMsg n) ms" and "\<forall>m\<in>set ms. good_msg k m"
    and "length ms < f"
  shows "case spec_serve [] ms of
      Some r \<Rightarrow> \<exists>k'. smi_main f k = Blocked k' \<and> kn_sent k' = r
    | None \<Rightarrow> smi_main f k = UB"
proof -
  let ?k = "say (''server started MAX('' @ show_nat SERVER_NAME_MAX @ '')'' @ [NL]) k"
  have fresh: "fresh_kernel ?k" using assms(1) by (simp add: fresh_kernel_def say_def)
  have "length SERVER_NAME < SERVER_NAME_MAX" by (simp add: SERVER_NAME_def SERVER_NAME_MAX_def)
  from smi_open_server [OF fresh this, of DATA_SIZE] obtain p k1 where o:
    "smi_open SERVER_NAME SMI_SERVER DATA_SIZE ?k = Val (p, k1)" "srv_inv p k1 []" "kn_sent k1 = []"
    "kn_reads k1 = kn_reads k" "set (kn_fifos k) \<subseteq> set (kn_fifos k1)"
    by (auto simp: say_def)
  have "\<forall>m\<in>set ms. good_msg k1 m" using assms(3) o(5) by (auto simp: good_msg_def)
  from serve_refines [OF o(2) _ this assms(4), of n] o assms(2) show ?thesis
    by (auto simp: smi_main_def split: option.splits)
qed

section \<open>No undefined behaviour in the server's loop\<close>

definition srv_safe :: "smiq \<Rightarrow> kernel \<Rightarrow> bool" where
  "srv_safe p k \<longleftrightarrow> sq_entity p = SMI_SERVER \<and> table_ok (sq_clients p) \<and> readable (sq_fd_server p) k
     \<and> clean (smi_data (sq_msg p)) \<and> (\<forall>n m. RdMsg n m \<in> set (kn_reads k) \<longrightarrow> clean (smi_data m))"

lemma open_fifo_readable:
  assumes "open_fifo n f fl k = (d, k')" and "readable e k"
  shows "readable e k'" and "kn_reads k' = kn_reads k"
proof -
  have e: "kn_fds k e \<noteq> None" using assms(2) by (auto simp: readable_def split: option.splits)
  have "lowest_free (kn_nofile k) (kn_fds k) = Some c \<Longrightarrow> c \<noteq> e" for c
    using e lowest_free_SomeD(1) by metis
  then show "readable e k'" "kn_reads k' = kn_reads k"
    using assms by (auto simp: open_fifo_def open_fd_def readable_def split: option.splits if_splits)
qed

lemma accept_safe:
  assumes "accept p k = Some (p', k')" and "srv_safe p k"
  shows "srv_safe p' k' \<and> sq_msg p' = sq_msg p
    \<and> (\<exists>i. find_slot (sq_clients p') (msg_pid (sq_msg p')) = (i, sq_clients p') \<and> i \<noteq> - 1)"
proof -
  let ?q = "msg_pid (sq_msg p)"
  obtain i cs where f: "find_slot (sq_clients p) ?q = (i, cs)" by fastforce
  have i: "i \<noteq> - 1" using assms(1) f by (auto simp: accept_def clients_find_def msg_pid_def split: if_splits)
  have ok: "table_ok (sq_clients p)" using assms(2) by (simp add: srv_safe_def)
  note found = tbl.found_again [OF ok f i]
  have cs: "table_ok cs" using find_slot_ok [OF ok f] .
  show ?thesis
  proof (cases "cl_fd (cs ! nat i) = - 1")
    case True
    obtain d k1 where o: "open_fifo (make_fifo_name_client ?q) (WrFile (make_fifo_name_client ?q) False) 0 k = (d, k1)"
      by fastforce
    have "p' = p\<lparr>sq_clients := set_fd cs i d\<rparr>" "k' = k1"
      using assms(1) f i True o by (auto simp: accept_def clients_find_def msg_pid_def set_fd_def Let_def)
    with open_fifo_readable [OF o] found(2,4) [of d] i assms(2) show ?thesis by (auto simp: srv_safe_def)
  next
    case False
    then have "p' = p\<lparr>sq_clients := cs\<rparr>" "k' = k"
      using assms(1) f i by (auto simp: accept_def clients_find_def msg_pid_def Let_def)
    with found(1) cs i assms(2) show ?thesis by (auto simp: srv_safe_def)
  qed
qed

lemma nread_checks_safe [simp]: "srv_safe p (nread_checks n k) = srv_safe p k"
  by (simp add: srv_safe_def readable_def)

lemma receive_loop_safe:
  assumes "srv_safe p k" and "kn_reads k = rs"
  shows "case receive_loop rs p k of
      Val (p', k') \<Rightarrow> srv_safe p' k'
        \<and> (\<exists>i. find_slot (sq_clients p') (msg_pid (sq_msg p')) = (i, sq_clients p') \<and> i \<noteq> - 1)
    | UB \<Rightarrow> False | Blocked k' \<Rightarrow> True | Spins \<Rightarrow> False"
  using assms
proof (induction rs arbitrary: p k)
  case Nil
  then show ?case by (simp add: receive_loop.simps [of "[]"] srv_safe_def)
next
  case (Cons r rs)
  obtain n m where nm: "rd_result r (sq_msg p) = (n, m)" by fastforce
  let ?p = "p\<lparr>sq_msg := m\<rparr>" and ?k = "nread_checks n (k\<lparr>kn_reads := rs\<rparr>)"
  have "clean (smi_data m)"
    using Cons.prems nm by (cases r) (auto simp: rd_result_def srv_safe_def)
  then have safe: "srv_safe ?p ?k" using Cons.prems by (auto simp: srv_safe_def readable_def)
  have eq: "receive_loop (r # rs) p k = (case accept ?p ?k of None \<Rightarrow> receive_loop rs ?p ?k | Some x \<Rightarrow> Val x)"
    using Cons.prems(1) nm by (simp add: receive_loop.simps [of "r # rs"] srv_safe_def Let_def)
  show ?case
  proof (cases "accept ?p ?k")
    case None
    with Cons.IH [OF safe] show ?thesis by (simp add: eq)
  next
    case (Some x)
    obtain p' k' where "x = (p', k')" by fastforce
    with accept_safe [OF _ safe, of p' k'] Some show ?thesis by (auto simp: eq)
  qed
qed

lemma write_msg_fields [simp]:
  "kn_fds (write_msg d m k) = kn_fds k" "kn_reads (write_msg d m k) = kn_reads k"
  by (simp_all add: write_msg_def split: option.split ofile.split)

lemma write_msg_safe [simp]: "srv_safe p (write_msg d m k) = srv_safe p k" "srv_safe p (say t k) = srv_safe p k"
  by (simp_all add: srv_safe_def readable_def say_def)

lemma upper_data_clean: "clean d \<Longrightarrow> clean (upper_data d)"
proof (induction d)
  case (Cons c d)
  then show ?case
    by (cases "c = NUL") (simp_all add: clean_Cons upper_data_def toupper_NUL_iff)
qed (simp add: clean_def)

lemma serve_once_safe:
  assumes "srv_safe p k"
  shows "case serve_once p k of Val (p', k') \<Rightarrow> srv_safe p' k' | UB \<Rightarrow> False | Blocked k' \<Rightarrow> True | Spins \<Rightarrow> False"
proof -
  have recv: "smi_receive_getaddr p k = receive_loop (kn_reads k) p k"
    using assms by (simp add: smi_receive_getaddr_def smi_receive_getaddr_fifo_def srv_safe_def)
  note r = receive_loop_safe [OF assms refl]
  show ?thesis
  proof (cases "receive_loop (kn_reads k) p k")
    case (Val x)
    obtain p1 k1 where x: "x = (p1, k1)" by fastforce
    with r Val obtain i where p1: "srv_safe p1 k1"
      "find_slot (sq_clients p1) (msg_pid (sq_msg p1)) = (i, sq_clients p1)" "i \<noteq> - 1" by auto
    let ?m = "sq_msg p1"
    let ?p = "p1\<lparr>sq_client := smi_client ?m, sq_msg := ?m\<lparr>smi_data := upper_data (smi_data ?m)\<rparr>\<rparr>"
    have nul: "clean (smi_data ?m)" "sq_entity p1 = SMI_SERVER" using p1(1) by (simp_all add: srv_safe_def)
    have find: "clients_find ?p (to_pid (c_id1 (sq_client ?p))) = (i, ?p)"
      using p1(2) by (simp add: clients_find_def msg_pid_def)
    have "serve_once p k = smi_send_release ?p k1"
      using recv Val x nul by (simp add: serve_once_def smi_send_getaddr_def smi_send_getaddr_fifo_def upper_loop_0)
    also have "\<exists>k2. smi_send_release ?p k1 = Val (?p, k2) \<and> srv_safe ?p k2 = srv_safe ?p k1"
      unfolding smi_send_release_def find using p1(3) nul(2) by (simp add: Let_def)
    finally obtain k2 where k2: "serve_once p k = Val (?p, k2)" "srv_safe ?p k2 = srv_safe ?p k1" by blast
    have "srv_safe ?p k1" using p1(1) upper_data_clean [OF nul(1)] by (simp add: srv_safe_def)
    with k2 show ?thesis by simp
  qed (use r recv in \<open>simp_all add: serve_once_def\<close>)
qed

lemma serve_safe: "srv_safe p k \<Longrightarrow> serve n p k \<noteq> UB \<and> serve n p k \<noteq> Spins"
proof (induction n arbitrary: p k)
  case (Suc n)
  from serve_once_safe [OF Suc.prems] Suc.IH show ?case
    by (auto split: outcome.splits prod.splits)
qed simp

section \<open>A client's queue\<close>

lemma smi_open_client:
  assumes "fresh_kernel k" and "make_fifo_name_server name \<in> set (kn_fifos k)" and "length name < SERVER_NAME_MAX"
    and "make_fifo_name_server name \<noteq> make_fifo_name_client (kn_pid k)"
  shows "\<exists>p k'. smi_open name SMI_CLIENT sz k = Val (p, k')
     \<and> kn_fds k' = std_fds(3 \<mapsto> WrFile (make_fifo_name_server name) False,
          4 \<mapsto> RdFile (make_fifo_name_client (kn_pid k)), 5 \<mapsto> WrFile (make_fifo_name_client (kn_pid k)) False)
     \<and> sq_fd_server p = 3 \<and> map cl_fd (sq_clients p) = 5 # replicate 19 0 \<and> sq_entity p = SMI_CLIENT"
proof -
  let ?s = "make_fifo_name_server name" and ?c = "make_fifo_name_client (kn_pid k)"
  have n: "6 \<le> kn_nofile k" "kn_fds k = std_fds" using assms(1) by (simp_all add: fresh_kernel_def)
  let ?k1 = "k\<lparr>kn_fds := std_fds(3 \<mapsto> WrFile ?s False), kn_flags := (kn_flags k)(3 := 0)\<rparr>"
  have 1: "open_fifo ?s (WrFile ?s False) 0 k = (3, ?k1)"
    using n assms(2) lowest_free_3 by (simp add: open_fifo_def open_fd_def fd_of_def)
  let ?k2 = "?k1\<lparr>kn_fifos := ?c # removeAll ?c (kn_fifos k)\<rparr>"
  have 2: "mkfifo ?c (unlink ?c ?k1) = (True, ?k2)"
    by (simp add: mkfifo_def unlink_def)
  let ?k3 = "?k2\<lparr>kn_fds := (kn_fds ?k2)(4 \<mapsto> RdFile ?c), kn_flags := (kn_flags ?k2)(4 := O_NONBLOCK)\<rparr>"
  have 3: "open_fifo ?c (RdFile ?c) O_NONBLOCK ?k2 = (4, ?k3)"
    using n lowest_free_4 by (simp add: open_fifo_def open_fd_def fd_of_def)
  let ?k4 = "setblock 4 True ?k3"
  have k4: "kn_fds ?k4 = kn_fds ?k3" "kn_nofile ?k4 = kn_nofile k" "kn_fifos ?k4 = kn_fifos ?k2"
    by (simp_all add: setblock_def)
  have "lowest_free (kn_nofile k) (kn_fds ?k3) = Some 5"
  proof (rule lowest_free_least)
    fix i :: int assume "0 \<le> i" "i < 5"
    then have "i = 0 \<or> i = 1 \<or> i = 2 \<or> i = 3 \<or> i = 4" by arith
    then show "kn_fds ?k3 i \<noteq> None" by (auto simp: std_fds_def)
  qed (use n in \<open>auto simp: std_fds_def\<close>)
  then obtain k5 where 5: "open_fifo ?c (WrFile ?c False) 0 ?k4 = (5, k5)" "kn_fds k5 = (kn_fds ?k3)(5 \<mapsto> WrFile ?c False)"
    using k4 by (simp add: open_fifo_def open_fd_def fd_of_def)
  let ?p = "(calloc_smiq SMI_CLIENT sz)\<lparr>sq_name := name\<rparr>"
  have "smi_open name SMI_CLIENT sz k =
      Val (?p\<lparr>sq_fd_server := 3, sq_clients := (sq_clients ?p)[0 := (sq_clients ?p ! 0)\<lparr>cl_fd := 5\<rparr>]\<rparr>, k5)"
    using assms(3) 1 2 3 5(1) by (simp add: smi_open_def smi_open_fifo_def Let_def)
  with 5(2) show ?thesis
    by (simp add: calloc_smiq_def MAX_CLIENTS_def numeral_eq_Suc fun_upd_twist)
qed

section \<open>Names\<close>

lemma to_pid_range: "- (2 ^ 31) \<le> to_pid n \<and> to_pid n < 2 ^ 31"
  using signed_take_bit_int_greater_eq_minus_exp [of 31 n] signed_take_bit_int_less_exp [of 31 n]
  by (simp add: to_pid_def)

lemma show_int_length: "- (2 ^ 31) \<le> i \<Longrightarrow> i < 2 ^ 31 \<Longrightarrow> length (show_int i) \<le> 11"
proof -
  assume "- (2 ^ 31) \<le> i" "i < 2 ^ 31"
  then have "nat i < 10 ^ 10" "nat (- i) < 10 ^ 10" by (simp_all add: nat_less_iff)
  then show ?thesis
    using show_nat_length [of 10 "nat i"] show_nat_length [of 10 "nat (- i)"] by (simp add: show_int_def)
qed

lemma client_name: "- (2 ^ 31) \<le> q \<Longrightarrow> q < 2 ^ 31 \<Longrightarrow> make_fifo_name_client q = ''/tmp/smififo'' @ show_int q"
  unfolding make_fifo_name_client_def fifoname_max_def SERVER_NAME_MAX_def
  by (rule snprintf_fits) (use show_int_length [of q] in simp)

lemma server_name: "length n < SERVER_NAME_MAX \<Longrightarrow> make_fifo_name_server n = ''/tmp/smififo-'' @ n"
  unfolding make_fifo_name_server_def fifoname_max_def SERVER_NAME_MAX_def
  by (rule snprintf_fits) simp

lemma show_int_minus: "show_int q = CHR ''-'' # n \<Longrightarrow> q < 0"
  using show_nat_hd not_digit_minus by (fastforce simp: show_int_def split: if_splits)

end
