(* ===== verification/SmiTheorems.thy ===== *)
theory SmiTheorems
  imports SmiServer
begin

text \<open>
  The properties of \<open>ad_comm/smi_server.c\<close>.
\<close>

section \<open>A concrete kernel\<close>

definition demo_kernel :: "rd list \<Rightarrow> kernel" where
  "demo_kernel rs = \<lparr>kn_pid = 9, kn_nofile = 64, kn_fifos = [''/tmp/smififo7'', ''/tmp/smififo-smsg_server''],
     kn_fds = std_fds, kn_flags = (\<lambda>d. 0), kn_reads = rs, kn_sent = [], kn_trace = []\<rparr>"

definition demo_msg :: smi_msg where
  "demo_msg = \<lparr>smi_mtype = 0, smi_client = \<lparr>c_id1 = 7, c_id2 = 0\<rparr>, smi_data = ''hi'' @ replicate 198 NUL\<rparr>"

lemma to_pid_small: "0 \<le> i \<Longrightarrow> i < 2 ^ 31 \<Longrightarrow> to_pid i = i"
  by (simp add: to_pid_def signed_take_bit_int_eq_self)

lemma demo_pid: "msg_pid demo_msg = 7"
  by (simp add: msg_pid_def demo_msg_def to_pid_small)

lemma demo_name: "make_fifo_name_client 7 = ''/tmp/smififo7''"
proof -
  have "show_int 7 = ''7''" by code_simp
  then show ?thesis by (simp add: client_name)
qed

lemma demo_kernel_ok: "fresh_kernel (demo_kernel rs)" "good_msg (demo_kernel rs) demo_msg"
  by (simp_all add: demo_kernel_def fresh_kernel_def good_msg_def demo_pid demo_name)
     (simp add: demo_msg_def)

lemma demo_clean: "clean (smi_data demo_msg)"
  by (simp add: demo_msg_def clean_Cons ctype_defined_def numeral_eq_Suc)

lemma demo_negative: "\<not> clean (CHR 0xE9 # d)"
  by (simp add: clean_Cons ctype_defined_def)

section \<open>The server\<close>

text \<open>
C4: The server implements its specification: on any sequence of messages (each with a NUL, from clients
whose FIFO exists) it writes, in order, to the FIFO of every sender the sender's message with its
characters in upper case; up to 20 different clients are served, and a message of a 21st is dropped;
then it waits for more.  The one exception is exact too: the behaviour is undefined if and only if a
message that is taken has, before its NUL, a byte from 128 to 254, which \<open>main\<close> passes to \<open>toupper\<close> as a
negative number.
\<close>

theorem smi_server_refines_spec:
  assumes "fresh_kernel k" and "kn_reads k = map (RdMsg n) ms" and "\<forall>m\<in>set ms. good_msg k m"
    and "length ms < f"
  shows "case spec_serve [] ms of
      Some r \<Rightarrow> \<exists>k'. smi_main f k = Blocked k' \<and> kn_sent k' = r
    | None \<Rightarrow> smi_main f k = UB"
  using assms by (rule smi_main_refines)

lemma smi_server_refines_spec_witness:
  "(\<exists>k'. smi_main 3 (demo_kernel (map (RdMsg 224) [demo_msg, demo_msg])) = Blocked k'
      \<and> kn_sent k' = [reply demo_msg, reply demo_msg])
   \<and> smi_main 3 (demo_kernel [RdMsg 224 demo_msg, RdMsg 224 (demo_msg\<lparr>smi_data := [CHR 0xE9, NUL]\<rparr>)]) = UB"
proof -
  let ?bad = "demo_msg\<lparr>smi_data := [CHR 0xE9, NUL]\<rparr>"
  have pid: "msg_pid ?bad = 7" using demo_pid by (simp add: msg_pid_def)
  have reads: "kn_reads (demo_kernel rs) = rs" for rs by (simp add: demo_kernel_def)
  have good: "\<forall>m\<in>set [demo_msg, ?bad]. good_msg (demo_kernel rs) m" for rs
    using demo_kernel_ok(2) [of rs] by (simp add: good_msg_def pid demo_pid)
  have s: "spec_serve [] [demo_msg, demo_msg] = Some [reply demo_msg, reply demo_msg]"
    "spec_serve [] [demo_msg, ?bad] = None"
    by (simp_all add: demo_clean demo_negative MAX_CLIENTS_def pid demo_pid)
  show ?thesis
    using smi_server_refines_spec [OF demo_kernel_ok(1), of "map (RdMsg 224) [demo_msg, demo_msg]" 224 "[demo_msg, demo_msg]" 3]
      smi_server_refines_spec [OF demo_kernel_ok(1), of "map (RdMsg 224) [demo_msg, ?bad]" 224 "[demo_msg, ?bad]" 3]
      reads good s by simp
qed

text \<open>
C18: The server never indexes its client table at -1 nor loops in its receive: started with room for its
descriptors, whatever the kernel answers (failed or short reads, FIFOs that cannot be opened), the
loop of \<open>main\<close> has no undefined behaviour, provided every message that arrives holds a NUL and before it
no byte that a signed \<open>char\<close> makes a negative argument of \<open>toupper\<close> (\<open>clean\<close>).
\<close>

theorem smi_main_no_undefined_behaviour:
  assumes "fresh_kernel k" and "\<forall>n m. RdMsg n m \<in> set (kn_reads k) \<longrightarrow> clean (smi_data m)"
  shows "smi_main f k \<noteq> UB \<and> smi_main f k \<noteq> Spins"
proof -
  let ?k = "say (''server started MAX('' @ show_nat SERVER_NAME_MAX @ '')'' @ [NL]) k"
  have fresh: "fresh_kernel ?k" using assms(1) by (simp add: fresh_kernel_def say_def)
  have n: "length SERVER_NAME < SERVER_NAME_MAX" by (simp add: SERVER_NAME_def SERVER_NAME_MAX_def)
  obtain p k1 where o: "smi_open SERVER_NAME SMI_SERVER DATA_SIZE ?k = Val (p, k1)" "srv_inv p k1 []"
    "kn_reads k1 = kn_reads k"
    using smi_open_server [OF fresh n, of DATA_SIZE] by (auto simp: say_def)
  have "sq_msg p = sq_msg (calloc_smiq SMI_SERVER DATA_SIZE)"
    using o(1) n by (auto simp: smi_open_def smi_open_fifo_def Let_def clients_bgn_def split: prod.splits)
  then have "srv_safe p k1"
    using o(2,3) assms(2) by (simp add: srv_safe_def srv_inv_def calloc_smiq_def DATA_SIZE_def clean_def)
  from serve_safe [OF this, of f] o(1) show ?thesis by (simp add: smi_main_def)
qed

lemma smi_main_no_undefined_behaviour_witness:
  "smi_main 5 (demo_kernel [RdEof, RdErr, RdMsg 3 demo_msg]) \<noteq> UB
   \<and> smi_main 5 (demo_kernel [RdEof, RdErr, RdMsg 3 demo_msg]) \<noteq> Spins"
  by (rule smi_main_no_undefined_behaviour) (auto simp: demo_kernel_ok, auto simp: demo_kernel_def demo_clean)

text \<open>
C26: The client table never gives one client two slots: \<open>clients_find\<close> keeps the invariant that among the
slots with one pid only the first can be open, and the slot it returns is the client's, which the
next call finds again, also after the client's FIFO was opened.
\<close>

theorem clients_find_keeps_slots:
  assumes "table_ok (sq_clients p)" and "clients_find p q = (i, p')" and "i \<noteq> - 1"
  shows "table_ok (sq_clients p') \<and> cl_pid (sq_clients p' ! nat i) = q \<and> clients_find p' q = (i, p')
     \<and> clients_find (p'\<lparr>sq_clients := set_fd (sq_clients p') i d\<rparr>) q
         = (i, p'\<lparr>sq_clients := set_fd (sq_clients p') i d\<rparr>)"
proof -
  obtain cs where f: "find_slot (sq_clients p) q = (i, cs)" and p': "p' = p\<lparr>sq_clients := cs\<rparr>"
    using assms(2) by (auto simp: clients_find_def split: prod.splits)
  note found = tbl.found_again [OF assms(1) f assms(3)]
  have "cl_pid (cs ! nat i) = q" using tbl.find_at [OF assms(1) f assms(3)] by simp
  with found find_slot_ok [OF assms(1) f] p' show ?thesis
    by (simp add: clients_find_def)
qed

lemma clients_find_keeps_slots_witness:
  "let p = clients_bgn (calloc_smiq SMI_SERVER 10) in
   table_ok (sq_clients (snd (clients_find p 5)))
   \<and> cl_pid (sq_clients (snd (clients_find p 5)) ! 0) = 5"
proof -
  let ?p = "clients_bgn (calloc_smiq SMI_SERVER 10)"
  have ok: "table_ok (sq_clients ?p)"
    by (simp add: table_ok_def clients_bgn_def calloc_smiq_def)
  have "fst (clients_find ?p 5) = 0" by code_simp
  then have f: "clients_find ?p 5 = (0, snd (clients_find ?p 5))" by (cases "clients_find ?p 5") simp
  from clients_find_keeps_slots [OF ok f, of 0] show ?thesis by (simp add: Let_def)
qed

text \<open>
Sending to an unknown client when the table is full is undefined behaviour: \<open>smi_send_release\<close> prints
that it is over capacity and then writes to \<open>sq_clients[-1]\<close>.
\<close>

theorem smi_send_over_capacity:
  assumes "sq_entity p = SMI_SERVER"
    and "\<forall>c\<in>set (sq_clients p). cl_fd c \<noteq> - 1 \<and> cl_pid c \<noteq> to_pid (c_id1 (sq_client p))"
  shows "smi_send_release p k = UB"
proof -
  obtain i cs where f: "find_slot (sq_clients p) (to_pid (c_id1 (sq_client p))) = (i, cs)" by fastforce
  then have "i = - 1" by (cases rule: find_slot_cases) (use assms(2) in auto)
  with f assms(1) show ?thesis by (simp add: smi_send_release_def clients_find_def)
qed

lemma smi_send_over_capacity_witness:
  "smi_send_release ((calloc_smiq SMI_SERVER 10)\<lparr>sq_client := \<lparr>c_id1 = 3, c_id2 = 0\<rparr>\<rparr>) (demo_kernel []) = UB"
  by (rule smi_send_over_capacity) (simp_all add: calloc_smiq_def to_pid_small)

section \<open>Clients and names\<close>

text \<open>
Two clients never share a FIFO, and no client has the server's: the names are injective in the pid, and
differ from the server's for every pid that is not negative.
\<close>

theorem fifo_names_distinct:
  assumes "q = to_pid a" and "r = to_pid b" and "length name < SERVER_NAME_MAX"
  shows "(make_fifo_name_client q = make_fifo_name_client r \<longleftrightarrow> q = r)
     \<and> (if 0 \<le> q then make_fifo_name_client q \<noteq> make_fifo_name_server name else True)"
proof -
  have q: "make_fifo_name_client q = ''/tmp/smififo'' @ show_int q"
    "make_fifo_name_client r = ''/tmp/smififo'' @ show_int r"
    using to_pid_range [of a] to_pid_range [of b] by (simp_all add: client_name assms(1,2))
  have "show_int q = CHR ''-'' # name \<Longrightarrow> q < 0" by (rule show_int_minus)
  then show ?thesis
    using q assms(3) by (auto simp: server_name show_int_inj)
qed

lemma fifo_names_distinct_witness:
  "make_fifo_name_client (to_pid 7) \<noteq> make_fifo_name_client (to_pid 8)"
  using fifo_names_distinct [OF refl refl, of "[]" 7 8] by (simp add: to_pid_small SERVER_NAME_MAX_def)

text \<open>
C37: A client of \<open>smi_open\<close> never receives: the descriptor of its own FIFO that was opened for reading is
overwritten by one opened for writing, so \<open>smi_receive_getaddr\<close> returns with the message buffer as it
was, and \<open>smi_close_fifo\<close> leaves the first one open.
\<close>

theorem smi_client_never_receives:
  assumes "fresh_kernel k" and "make_fifo_name_server name \<in> set (kn_fifos k)" and "length name < SERVER_NAME_MAX"
    and "make_fifo_name_server name \<noteq> make_fifo_name_client (kn_pid k)"
  shows "\<exists>p k'. smi_open name SMI_CLIENT sz k = Val (p, k')
     \<and> smi_receive_getaddr p k' = Val (p, k')
     \<and> kn_fds (smi_close_fifo p k') 4 = Some (RdFile (make_fifo_name_client (kn_pid k)))"
proof -
  obtain p k' where o: "smi_open name SMI_CLIENT sz k = Val (p, k')"
    "kn_fds k' = std_fds(3 \<mapsto> WrFile (make_fifo_name_server name) False,
          4 \<mapsto> RdFile (make_fifo_name_client (kn_pid k)), 5 \<mapsto> WrFile (make_fifo_name_client (kn_pid k)) False)"
    "sq_fd_server p = 3" "map cl_fd (sq_clients p) = 5 # replicate 19 0" "sq_entity p = SMI_CLIENT"
    using smi_open_client [OF assms, of sz] by (elim exE conjE)
  then obtain c cs where cs: "sq_clients p = c # cs" "cl_fd c = 5" "map cl_fd cs = replicate 19 0" by auto
  have "\<not> readable (cl_fd (sq_clients p ! 0)) k'" by (simp add: cs readable_def o(2))
  with o(5) have r: "smi_receive_getaddr p k' = Val (p, k')"
    by (simp add: smi_receive_getaddr_def smi_receive_getaddr_fifo_def)
  have keep: "kn_fds (snd (close_slots xs u)) 4 = kn_fds u 4" if "\<forall>x\<in>set xs. cl_fd x \<noteq> 4" for xs u
    using that by (induction xs u rule: close_slots.induct)
      (auto simp: Let_def close_k_def close_fd_def split: prod.splits if_splits)
  have "\<forall>x\<in>set (sq_clients p). cl_fd x \<noteq> 4"
  proof
    fix x assume "x \<in> set (sq_clients p)"
    then have "cl_fd x \<in> set (map cl_fd (sq_clients p))" by simp
    then show "cl_fd x \<noteq> 4" unfolding o(4) by auto
  qed
  from keep [OF this, of k'] have "kn_fds (smi_close_fifo p k') 4 = kn_fds k' 4"
    using o(3) by (auto simp: smi_close_fifo_def clients_end_def clients_close_all_def Let_def close_k_def
        close_fd_def unlink_def o(5) split: prod.splits)
  with o r show ?thesis by simp
qed

lemma smi_client_never_receives_witness:
  "\<exists>p k'. smi_open SERVER_NAME SMI_CLIENT 200 (demo_kernel [RdMsg 224 demo_msg]) = Val (p, k')
     \<and> smi_receive_getaddr p k' = Val (p, k')
     \<and> kn_fds (smi_close_fifo p k') 4 = Some (RdFile (make_fifo_name_client 9))"
proof -
  let ?k = "demo_kernel [RdMsg 224 demo_msg]"
  have n: "make_fifo_name_server SERVER_NAME \<in> set (kn_fifos ?k)" "length SERVER_NAME < SERVER_NAME_MAX"
    "make_fifo_name_server SERVER_NAME \<noteq> make_fifo_name_client (kn_pid ?k)"
    by code_simp+
  have "kn_pid ?k = 9" by (simp add: demo_kernel_def)
  with smi_client_never_receives [OF demo_kernel_ok(1) n, of 200] show ?thesis by simp
qed

text \<open>
\<open>setblock\<close> changes the bit \<open>O_NONBLOCK\<close> of the descriptor's flags and no other: bit 11 becomes what is asked
for and every other bit stays.
\<close>

theorem setblock_sets_one_bit:
  assumes "kn_fds k d \<noteq> None"
  shows "bit (kn_flags (setblock d block k) d) n =
     (if n = 11 then \<not> block else bit (kn_flags k d) n)"
proof -
  have e: "O_NONBLOCK = push_bit 11 1" by (simp add: O_NONBLOCK_def push_bit_eq_mult)
  have b: "bit O_NONBLOCK n \<longleftrightarrow> n = 11"
    unfolding e bit_push_bit_iff bit_1_iff by auto
  have len: "bit (kn_flags k d) n \<Longrightarrow> n < 32" using bit_imp_le_length [of "kn_flags k d" n] by simp
  show ?thesis
    using assms b len by (auto simp: setblock_def block_flags_def bit_simps)
qed

lemma setblock_sets_one_bit_witness:
  "bit (kn_flags (setblock 0 False (demo_kernel [])) 0) 11"
  using setblock_sets_one_bit [of "demo_kernel []" 0 False 11] by (simp add: demo_kernel_def std_fds_def)

text \<open>
The loop of \<open>main\<close> that puts a message into upper case, which reads and writes one array, changes exactly the
characters before the first NUL; it is undefined when there is none, or a byte that \<open>toupper\<close> does not take.
\<close>

theorem upper_loop_converts:
  "upper_loop 0 d =
     (if clean d
      then Some (map toupper (takeWhile (\<lambda>c. c \<noteq> NUL) d) @ dropWhile (\<lambda>c. c \<noteq> NUL) d)
      else None)"
  by (simp add: upper_loop_0 upper_data_def)

end
