(* ===== verification/Mut.thy ===== *)
theory Mut
  imports Prelude "HOL-Library.Multiset"
begin

text \<open>
  The two threads of \<open>process/mut.c\<close> and the list they share: the heap of nodes is explicit, every
  access to it is a step of its own, and so are locking, waiting, signalling and unlocking.  The
  invariant is proved by induction over the reachable states.
\<close>

section \<open>Nodes and threads\<close>

type_synonym addr = nat

record node =
  n_number :: nat
  n_next :: "addr option"

text \<open>
  Where the two threads are.  The producer (\<open>main\<close>): about to allocate the node with number \<open>i\<close>
  (\<open>PAlloc\<close>), to lock (\<open>PLock\<close>), to link the node (\<open>PLink\<close>), to signal (\<open>PSignal\<close>), to unlock
  (\<open>PUnlock\<close>), or after the loop, where it cancels the other (\<open>PCancel\<close>) and joins it (\<open>PDone\<close>).
  The consumer (\<open>thread_func\<close>): about to lock (\<open>CLock\<close>), to test \<open>head\<close> (\<open>CTest\<close>), waiting on the
  condition (\<open>CWait\<close>), woken and about to take the mutex back (\<open>CWoken\<close>), to unlink (\<open>CTake\<close>), to
  print (\<open>CPrint\<close>), to free (\<open>CFree\<close>), to unlock (\<open>CUnlock\<close>).
\<close>

datatype ppc = PAlloc nat | PLock nat addr | PLink nat addr | PSignal nat | PUnlock nat | PCancel | PDone

datatype cpc = CLock | CTest | CWait | CWoken | CTake | CPrint addr | CFree addr | CUnlock

datatype owner = Free | Producer | Consumer

record mutst =
  mu_owner :: owner
  mu_heap :: "addr \<rightharpoonup> node"
  mu_head :: "addr option"
  mu_p :: ppc
  mu_c :: cpc
  mu_got :: "nat list"

datatype mustate = Run mutst | Undefined_mem

definition mut_init :: mutst where
  "mut_init = \<lparr>mu_owner = Free, mu_heap = Map.empty, mu_head = None, mu_p = PAlloc 0,
     mu_c = CLock, mu_got = []\<rparr>"

definition NODES :: nat where "NODES = 10"

section \<open>The steps\<close>

text \<open>
  The body of the loop of \<open>main\<close>: \<open>malloc\<close> gives any address that is not allocated, or a null pointer, which is used all the
  same; \<open>mem i\<close> says whether it succeeds for the node with number \<open>i\<close>.
\<close>

inductive main_step :: "(nat \<Rightarrow> bool) \<Rightarrow> mutst \<Rightarrow> mustate \<Rightarrow> bool" for mem where
  p_alloc: "mu_p s = PAlloc i \<Longrightarrow> i < NODES \<Longrightarrow> mem i \<Longrightarrow> mu_heap s a = None \<Longrightarrow>
     main_step mem s (Run (s\<lparr>mu_heap := (mu_heap s)(a \<mapsto> \<lparr>n_number = i, n_next = None\<rparr>), mu_p := PLock i a\<rparr>))"
| p_null: "mu_p s = PAlloc i \<Longrightarrow> i < NODES \<Longrightarrow> \<not> mem i \<Longrightarrow> main_step mem s Undefined_mem"
| p_lock: "mu_p s = PLock i a \<Longrightarrow> mu_owner s = Free \<Longrightarrow>
     main_step mem s (Run (s\<lparr>mu_owner := Producer, mu_p := PLink i a\<rparr>))"
| p_link: "mu_p s = PLink i a \<Longrightarrow> mu_heap s a = Some n \<Longrightarrow>
     main_step mem s (Run (s\<lparr>mu_heap := (mu_heap s)(a \<mapsto> n\<lparr>n_next := mu_head s\<rparr>), mu_head := Some a, mu_p := PSignal i\<rparr>))"
| p_link_bad: "mu_p s = PLink i a \<Longrightarrow> mu_heap s a = None \<Longrightarrow> main_step mem s Undefined_mem"
| p_signal: "mu_p s = PSignal i \<Longrightarrow>
     main_step mem s (Run (s\<lparr>mu_c := (if mu_c s = CWait then CWoken else mu_c s), mu_p := PUnlock i\<rparr>))"
| p_unlock: "mu_p s = PUnlock i \<Longrightarrow>
     main_step mem s (Run (s\<lparr>mu_owner := Free, mu_p := PAlloc (Suc i)\<rparr>))"
| p_end: "mu_p s = PAlloc i \<Longrightarrow> NODES \<le> i \<Longrightarrow> main_step mem s (Run (s\<lparr>mu_p := PCancel\<rparr>))"

text \<open>The loop of \<open>thread_func\<close>; \<open>pthread_cond_wait\<close> may also wake without a signal.\<close>

inductive thread_step :: "mutst \<Rightarrow> mustate \<Rightarrow> bool" where
  c_lock: "mu_c s = CLock \<Longrightarrow> mu_owner s = Free \<Longrightarrow>
     thread_step s (Run (s\<lparr>mu_owner := Consumer, mu_c := CTest\<rparr>))"
| c_wait: "mu_c s = CTest \<Longrightarrow> mu_head s = None \<Longrightarrow>
     thread_step s (Run (s\<lparr>mu_owner := Free, mu_c := CWait\<rparr>))"
| c_spurious: "mu_c s = CWait \<Longrightarrow> thread_step s (Run (s\<lparr>mu_c := CWoken\<rparr>))"
| c_relock: "mu_c s = CWoken \<Longrightarrow> mu_owner s = Free \<Longrightarrow>
     thread_step s (Run (s\<lparr>mu_owner := Consumer, mu_c := CTest\<rparr>))"
| c_some: "mu_c s = CTest \<Longrightarrow> mu_head s \<noteq> None \<Longrightarrow> thread_step s (Run (s\<lparr>mu_c := CTake\<rparr>))"
| c_take: "mu_c s = CTake \<Longrightarrow> mu_head s = Some a \<Longrightarrow> mu_heap s a = Some n \<Longrightarrow>
     thread_step s (Run (s\<lparr>mu_head := n_next n, mu_c := CPrint a\<rparr>))"
| c_take_bad: "mu_c s = CTake \<Longrightarrow> mu_head s = None \<or> mu_heap s (the (mu_head s)) = None \<Longrightarrow>
     thread_step s Undefined_mem"
| c_print: "mu_c s = CPrint a \<Longrightarrow> mu_heap s a = Some n \<Longrightarrow>
     thread_step s (Run (s\<lparr>mu_got := mu_got s @ [n_number n], mu_c := CFree a\<rparr>))"
| c_print_bad: "mu_c s = CPrint a \<Longrightarrow> mu_heap s a = None \<Longrightarrow> thread_step s Undefined_mem"
| c_free: "mu_c s = CFree a \<Longrightarrow> mu_heap s a \<noteq> None \<Longrightarrow>
     thread_step s (Run (s\<lparr>mu_heap := (mu_heap s)(a := None), mu_c := CUnlock\<rparr>))"
| c_free_bad: "mu_c s = CFree a \<Longrightarrow> mu_heap s a = None \<Longrightarrow> thread_step s Undefined_mem"
| c_unlock: "mu_c s = CUnlock \<Longrightarrow> thread_step s (Run (s\<lparr>mu_owner := Free, mu_c := CLock\<rparr>))"

text \<open>
  The cancellation takes effect at \<open>pthread_cond_wait\<close> (\<open>printf\<close> is taken not to be a cancellation point, as in glibc), which takes the mutex back and calls the
  cleanup handler with the value \<open>p\<close> had when the handler was pushed: none.  Freeing it is undefined.
\<close>

definition cleanup_handler :: "addr option \<Rightarrow> mutst \<Rightarrow> mustate" where
  "cleanup_handler arg s =
     (case arg of
        None \<Rightarrow> Undefined_mem
      | Some a \<Rightarrow> if mu_heap s a = None then Undefined_mem
                  else Run (s\<lparr>mu_heap := (mu_heap s)(a := None), mu_owner := Free, mu_p := PDone\<rparr>))"

inductive cancel_step :: "mutst \<Rightarrow> mustate \<Rightarrow> bool" where
  cancel: "mu_p s = PCancel \<Longrightarrow> mu_c s = CWait \<or> mu_c s = CWoken \<Longrightarrow> mu_owner s = Free \<Longrightarrow>
     cancel_step s (cleanup_handler None s)"

inductive reach :: "(nat \<Rightarrow> bool) \<Rightarrow> mustate \<Rightarrow> bool" for mem where
  start: "reach mem (Run mut_init)"
| by_main: "reach mem (Run s) \<Longrightarrow> main_step mem s t \<Longrightarrow> reach mem t"
| by_thread: "reach mem (Run s) \<Longrightarrow> thread_step s t \<Longrightarrow> reach mem t"

inductive_cases main_stepE: "main_step mem s t"
inductive_cases thread_stepE: "thread_step s t"
inductive_simps cancel_step_iff: "cancel_step s t"

section \<open>The invariant\<close>

text \<open>The nodes from an address to the end of the list.\<close>

fun chain :: "(addr \<rightharpoonup> node) \<Rightarrow> addr option \<Rightarrow> addr list \<Rightarrow> bool" where
  "chain h p [] \<longleftrightarrow> p = None"
| "chain h p (a # as) \<longleftrightarrow> p = Some a \<and> (\<exists>n. h a = Some n \<and> chain h (n_next n) as)"

definition number_at :: "mutst \<Rightarrow> addr \<Rightarrow> nat" where
  "number_at s a = n_number (the (mu_heap s a))"

definition allocated :: "ppc \<Rightarrow> addr list" where
  "allocated p = (case p of PLock i a \<Rightarrow> [a] | PLink i a \<Rightarrow> [a] | _ \<Rightarrow> [])"

definition unlinked :: "cpc \<Rightarrow> addr list" where
  "unlinked c = (case c of CPrint a \<Rightarrow> [a] | CFree a \<Rightarrow> [a] | _ \<Rightarrow> [])"

text \<open>The numbers the producer has allocated nodes for so far.\<close>

definition produced :: "ppc \<Rightarrow> nat" where
  "produced p = (case p of PAlloc i \<Rightarrow> i | PLock i a \<Rightarrow> Suc i | PLink i a \<Rightarrow> Suc i | PSignal i \<Rightarrow> Suc i
     | PUnlock i \<Rightarrow> Suc i | PCancel \<Rightarrow> NODES | PDone \<Rightarrow> NODES)"

definition unprinted :: "mutst \<Rightarrow> addr list" where
  "unprinted s = (case mu_c s of CPrint a \<Rightarrow> [a] | _ \<Rightarrow> [])"

definition producer_in :: "ppc \<Rightarrow> bool" where
  "producer_in p \<longleftrightarrow> (case p of PLink i a \<Rightarrow> True | PSignal i \<Rightarrow> True | PUnlock i \<Rightarrow> True | _ \<Rightarrow> False)"

definition consumer_in :: "cpc \<Rightarrow> bool" where
  "consumer_in c \<longleftrightarrow> c \<notin> {CLock, CWait, CWoken}"

definition lock_inv :: "mutst \<Rightarrow> bool" where
  "lock_inv s \<longleftrightarrow> (mu_owner s = Producer \<longleftrightarrow> producer_in (mu_p s)) \<and> (mu_owner s = Consumer \<longleftrightarrow> consumer_in (mu_c s))"

definition list_inv :: "mutst \<Rightarrow> addr list \<Rightarrow> bool" where
  "list_inv s as \<longleftrightarrow>
     chain (mu_heap s) (mu_head s) as \<and> distinct (as @ allocated (mu_p s) @ unlinked (mu_c s))
     \<and> dom (mu_heap s) = set (as @ allocated (mu_p s) @ unlinked (mu_c s))
     \<and> (mu_c s = CTake \<longrightarrow> as \<noteq> [])
     \<and> (\<forall>i a. mu_p s = PLock i a \<or> mu_p s = PLink i a \<longrightarrow> number_at s a = i)
     \<and> produced (mu_p s) \<le> NODES
     \<and> mset (mu_got s) + mset (map (number_at s) (as @ allocated (mu_p s) @ unprinted s)) = mset [0..<produced (mu_p s)]"

definition wake_inv :: "mutst \<Rightarrow> bool" where
  "wake_inv s \<longleftrightarrow> (mu_c s = CWait \<longrightarrow> mu_head s = None \<or> (\<exists>i. mu_p s = PSignal i))"

definition mut_inv :: "mutst \<Rightarrow> bool" where
  "mut_inv s \<longleftrightarrow> lock_inv s \<and> (\<exists>as. list_inv s as) \<and> wake_inv s"

lemma chain_fun_upd: "a \<notin> set as \<Longrightarrow> chain (h(a := x)) p as = chain h p as"
  by (induction as arbitrary: p) auto

lemma chain_dom: "chain h p as \<Longrightarrow> set as \<subseteq> dom h"
  by (induction as arbitrary: p) auto

lemmas mut_defs = allocated_def unlinked_def unprinted_def produced_def producer_in_def consumer_in_def

lemma lock_inv_main: "lock_inv s \<Longrightarrow> main_step mem s (Run t) \<Longrightarrow> lock_inv t"
  by (erule main_stepE) (auto simp: lock_inv_def mut_defs split: ppc.splits)

lemma lock_inv_thread: "lock_inv s \<Longrightarrow> thread_step s (Run t) \<Longrightarrow> lock_inv t"
  by (erule thread_stepE) (auto simp: lock_inv_def mut_defs split: ppc.splits)

lemma wake_inv_main: "wake_inv s \<Longrightarrow> lock_inv s \<Longrightarrow> main_step mem s (Run t) \<Longrightarrow> wake_inv t"
  by (erule main_stepE) (auto simp: wake_inv_def lock_inv_def mut_defs split: if_splits)

lemma wake_inv_thread: "wake_inv s \<Longrightarrow> lock_inv s \<Longrightarrow> thread_step s (Run t) \<Longrightarrow> wake_inv t"
  by (erule thread_stepE) (auto simp: wake_inv_def lock_inv_def mut_defs split: ppc.splits)

text \<open>A change of one node that keeps its number keeps every number.\<close>

lemma number_at_upd:
  "a \<notin> set as \<Longrightarrow>
   image_mset (number_at (s\<lparr>mu_heap := (mu_heap s)(a := x)\<rparr>)) (mset as) = image_mset (number_at s) (mset as)"
  by (rule image_mset_cong) (auto simp: number_at_def)

lemma number_at_fields [simp]:
  "number_at (s\<lparr>mu_head := h\<rparr>) = number_at s" "number_at (s\<lparr>mu_p := p\<rparr>) = number_at s"
  "number_at (s\<lparr>mu_c := c\<rparr>) = number_at s" "number_at (s\<lparr>mu_owner := w\<rparr>) = number_at s"
  "number_at (s\<lparr>mu_got := g\<rparr>) = number_at s"
  by (simp_all add: number_at_def fun_eq_iff)

text \<open>Only the heap matters for the numbers.\<close>

lemma number_at_heap: "mu_heap t = mu_heap s \<Longrightarrow> number_at t = number_at s"
  by (simp add: number_at_def fun_eq_iff)

lemma unprinted_unlinked: "set (unprinted s) \<subseteq> set (unlinked (mu_c s))"
  by (auto simp: unprinted_def unlinked_def split: cpc.splits)

lemma list_inv_alloc:
  assumes "list_inv s as" "mu_p s = PAlloc i" "i < NODES" "mu_heap s a = None"
  shows "list_inv (s\<lparr>mu_heap := (mu_heap s)(a \<mapsto> \<lparr>n_number = i, n_next = None\<rparr>), mu_p := PLock i a\<rparr>) as"
    (is "list_inv ?t as")
proof -
  let ?u = "s\<lparr>mu_heap := (mu_heap s)(a \<mapsto> \<lparr>n_number = i, n_next = None\<rparr>)\<rparr>"
  have "a \<notin> dom (mu_heap s)" using assms(4) by auto
  then have fresh: "a \<notin> set as" "a \<notin> set (unlinked (mu_c s))" using assms(1) by (auto simp: list_inv_def)
  then have u: "a \<notin> set (unprinted s)" using unprinted_unlinked by fastforce
  have nt: "number_at ?t = number_at ?u" by (rule number_at_heap) simp
  have na: "number_at ?t a = i" by (simp add: number_at_def)
  have ut: "unprinted ?t = unprinted s" by (simp add: unprinted_def)
  show ?thesis
    using assms fresh na
    by (auto simp: list_inv_def allocated_def produced_def chain_fun_upd ut nt number_at_upd [OF fresh(1)] number_at_upd [OF u])
qed

lemma list_inv_link:
  assumes "list_inv s as" "mu_p s = PLink i a" "mu_heap s a = Some n"
  shows "list_inv (s\<lparr>mu_heap := (mu_heap s)(a \<mapsto> n\<lparr>n_next := mu_head s\<rparr>), mu_head := Some a, mu_p := PSignal i\<rparr>) (a # as)"
    (is "list_inv ?t _")
proof -
  let ?u = "s\<lparr>mu_heap := (mu_heap s)(a \<mapsto> n\<lparr>n_next := mu_head s\<rparr>)\<rparr>"
  have a: "a \<notin> set as" "chain (mu_heap s) (mu_head s) as" "a \<notin> set (unlinked (mu_c s))"
    using assms(1,2) by (auto simp: list_inv_def allocated_def)
  then have u: "a \<notin> set (unprinted s)" using unprinted_unlinked by fastforce
  have na: "number_at ?u a = number_at s a" using assms(3) by (simp add: number_at_def)
  have nt: "number_at ?t = number_at ?u" by (rule number_at_heap) simp
  have ut: "unprinted ?t = unprinted s" by (simp add: unprinted_def)
  show ?thesis
    using assms a na
    by (auto simp: list_inv_def allocated_def produced_def chain_fun_upd ut nt number_at_upd [OF a(1)] number_at_upd [OF u])
qed

lemma list_inv_main:
  assumes "list_inv s as" and "main_step mem s (Run t)"
  shows "\<exists>bs. list_inv t bs"
  using assms(2)
proof cases
  case (p_alloc i a)
  with list_inv_alloc [OF assms(1)] show ?thesis by auto
next
  case (p_link i a n)
  with list_inv_link [OF assms(1)] show ?thesis by auto
qed (use assms(1) in \<open>auto simp: list_inv_def mut_defs intro!: exI [of _ as] split: cpc.splits\<close>)

lemma list_inv_free:
  assumes "list_inv s as" "mu_c s = CFree a" "mu_heap s a \<noteq> None"
  shows "list_inv (s\<lparr>mu_heap := (mu_heap s)(a := None), mu_c := CUnlock\<rparr>) as" (is "list_inv ?t _")
proof -
  let ?u = "s\<lparr>mu_heap := (mu_heap s)(a := None)\<rparr>"
  have a: "a \<notin> set as" "a \<notin> set (allocated (mu_p s))" using assms by (auto simp: list_inv_def unlinked_def)
  have nt: "number_at ?t = number_at ?u" by (rule number_at_heap) simp
  have nb: "number_at ?u b = number_at s b" if "b \<noteq> a" for b using that by (simp add: number_at_def)
  have al: "mu_p s = PLock i b \<or> mu_p s = PLink i b \<Longrightarrow> b \<noteq> a" for i b
    using a(2) by (auto simp: allocated_def)
  show ?thesis
    using assms a nb al
    by (auto simp: list_inv_def unlinked_def unprinted_def chain_fun_upd nt number_at_upd [OF a(1)] number_at_upd [OF a(2)])
qed

lemma list_inv_thread:
  assumes "list_inv s as" and "thread_step s (Run t)"
  shows "\<exists>bs. list_inv t bs"
  using assms(2)
proof cases
  case (c_take a n)
  then obtain bs where as: "as = a # bs"
    using assms(1) by (cases as) (auto simp: list_inv_def)
  have "list_inv t bs"
    using assms(1) c_take as by (auto simp: list_inv_def mut_defs)
  then show ?thesis ..
next
  case c_some
  have "as \<noteq> []" using assms(1) c_some by (auto simp: list_inv_def)
  with assms(1) c_some show ?thesis by (auto simp: list_inv_def mut_defs intro!: exI [of _ as])
next
  case (c_print a n)
  with assms(1) have "list_inv t as" by (auto simp: list_inv_def mut_defs number_at_def)
  then show ?thesis ..
next
  case (c_free a)
  with list_inv_free [OF assms(1)] show ?thesis by auto
qed (use assms(1) in \<open>auto simp: list_inv_def mut_defs intro!: exI [of _ as]\<close>)

lemma mut_inv_init: "mut_inv mut_init"
  by (simp add: mut_inv_def mut_init_def lock_inv_def wake_inv_def list_inv_def mut_defs exI [of _ "[]"])

text \<open>No step of a state in order touches memory that is not allocated, but for a failed \<open>malloc\<close>.\<close>

lemma no_bad_step:
  assumes "mut_inv s"
  shows "main_step mem s Undefined_mem \<Longrightarrow> \<exists>i<NODES. mu_p s = PAlloc i \<and> \<not> mem i" and "\<not> thread_step s Undefined_mem"
proof -
  obtain as where l: "list_inv s as" using assms by (auto simp: mut_inv_def)
  then have d: "dom (mu_heap s) = set as \<union> set (allocated (mu_p s)) \<union> set (unlinked (mu_c s))"
    by (auto simp: list_inv_def)
  show "\<exists>i<NODES. mu_p s = PAlloc i \<and> \<not> mem i" if "main_step mem s Undefined_mem"
    using that d by cases (auto simp: allocated_def)
  show "\<not> thread_step s Undefined_mem"
  proof
    assume "thread_step s Undefined_mem"
    then show False
    proof cases
      case c_take_bad
      with l obtain a bs where "as = a # bs" by (cases as) (auto simp: list_inv_def)
      with l c_take_bad show False by (auto simp: list_inv_def)
    qed (use d in \<open>auto simp: unlinked_def\<close>)
  qed
qed

lemma mut_inv_step:
  assumes "mut_inv s" and "main_step mem s x \<or> thread_step s x"
  shows "case x of Run t \<Rightarrow> mut_inv t | Undefined_mem \<Rightarrow> \<exists>i<NODES. mu_p s = PAlloc i \<and> \<not> mem i"
proof (cases x)
  case Undefined_mem
  with assms(2) no_bad_step [OF assms(1)] show ?thesis by auto
next
  case (Run t)
  obtain as where inv: "lock_inv s" "wake_inv s" "list_inv s as" using assms(1) by (auto simp: mut_inv_def)
  have "mut_inv t"
    using assms(2) unfolding Run mut_inv_def
    using inv list_inv_main [of s as mem t] lock_inv_main [of s mem t] wake_inv_main [of s mem t]
      list_inv_thread [of s as t] lock_inv_thread [of s t] wake_inv_thread [of s t] by blast
  with Run show ?thesis by simp
qed

lemma reach_inv: "reach mem x \<Longrightarrow> case x of Run s \<Rightarrow> mut_inv s | Undefined_mem \<Rightarrow> \<exists>i<NODES. \<not> mem i"
proof (induction rule: reach.induct)
  case start
  then show ?case using mut_inv_init by simp
next
  case (by_main s t)
  then show ?case using mut_inv_step [of s mem t] by (auto split: mustate.splits)
next
  case (by_thread s t)
  then show ?case using mut_inv_step [of s mem t] by (auto split: mustate.splits)
qed

text \<open>Who can move.\<close>

lemma main_can:
  assumes "mut_inv s" and "\<not> (\<exists>i a. mu_p s = PLock i a \<and> mu_owner s \<noteq> Free)" and "mu_p s \<notin> {PCancel, PDone}"
  shows "\<exists>t. main_step mem s t"
proof (cases "mu_p s")
  case (PAlloc i)
  obtain as where "list_inv s as" using assms(1) by (auto simp: mut_inv_def)
  then have "finite (dom (mu_heap s))" by (simp add: list_inv_def)
  then obtain a where "mu_heap s a = None" using ex_new_if_finite [OF infinite_UNIV_nat] by (metis domIff)
  with PAlloc show ?thesis by (cases "i < NODES"; cases "mem i") (auto simp: not_less intro: p_alloc p_null p_end)
next
  case (PLink i a)
  then show ?thesis by (cases "mu_heap s a") (auto intro: p_link p_link_bad)
qed (use assms(2,3) in \<open>auto intro: main_step.intros\<close>)

lemma thread_can:
  assumes "consumer_in (mu_c s) \<or> mu_owner s = Free \<and> mu_c s \<noteq> CWait"
  shows "\<exists>t. thread_step s t"
proof (cases "mu_c s")
  case CTest
  then show ?thesis by (cases "mu_head s") (auto intro: c_wait c_some)
next
  case CTake
  show ?thesis
  proof (cases "mu_head s")
    case (Some a)
    have "mu_heap s a = None \<Longrightarrow> thread_step s Undefined_mem" using CTake Some by (intro c_take_bad) simp_all
    with CTake Some show ?thesis by (cases "mu_heap s a") (auto intro: c_take)
  qed (use CTake in \<open>auto intro: c_take_bad\<close>)
next
  case (CPrint a)
  then show ?thesis by (cases "mu_heap s a") (auto intro: c_print c_print_bad)
next
  case (CFree a)
  then show ?thesis by (cases "mu_heap s a") (auto intro: c_free c_free_bad)
qed (use assms in \<open>auto simp: consumer_in_def intro: c_unlock c_lock c_relock\<close>)

lemma owner_waited:
  assumes "lock_inv s" and "mu_p s = PLock i a" and "mu_owner s \<noteq> Free"
  shows "consumer_in (mu_c s)"
  using assms by (cases "mu_owner s") (auto simp: lock_inv_def producer_in_def)

section \<open>The properties\<close>

text \<open>
C6: No item is lost or printed twice, and the two threads exclude each other: in every reachable state (until the
cancellation) no memory is used that is not allocated, but for a null pointer that \<open>malloc\<close> gave, not both threads are in their critical
section, \<open>head\<close> starts a list without cycles, and the numbers printed, those in the list and those
in the hands of the threads are together 0 to the number of the last node made, each once.
\<close>

theorem mut_no_loss:
  assumes "reach mem x"
  shows "case x of
      Run s \<Rightarrow> (\<exists>as. \<not> (producer_in (mu_p s) \<and> consumer_in (mu_c s))
        \<and> chain (mu_heap s) (mu_head s) as \<and> distinct as
        \<and> mset (mu_got s) + mset (map (number_at s) (as @ allocated (mu_p s) @ unprinted s)) = mset [0..<produced (mu_p s)])
    | Undefined_mem \<Rightarrow> (\<exists>i<NODES. \<not> mem i)"
proof (cases x)
  case (Run s)
  with reach_inv [OF assms] have "mut_inv s" by simp
  then obtain as where "list_inv s as" "lock_inv s" by (auto simp: mut_inv_def)
  with Run show ?thesis
    by (auto simp: list_inv_def lock_inv_def intro!: exI [of _ as])
qed (use reach_inv [OF assms] in simp)

text \<open>A run: the consumer waits, the producer links its first node and is about to signal.\<close>

definition demo_state :: mutst where
  "demo_state = \<lparr>mu_owner = Producer, mu_heap = [0 \<mapsto> \<lparr>n_number = 0, n_next = None\<rparr>], mu_head = Some 0,
     mu_p = PSignal 0, mu_c = CWait, mu_got = []\<rparr>"

lemma reach_demo: "reach (\<lambda>i. True) (Run demo_state)"
proof -
  have 1: "reach (\<lambda>i. True) (Run (mut_init\<lparr>mu_owner := Consumer, mu_c := CTest\<rparr>))"
    using by_thread [OF start c_lock] by (simp add: mut_init_def)
  have 2: "reach (\<lambda>i. True) (Run (mut_init\<lparr>mu_c := CWait\<rparr>))"
    using by_thread [OF 1 c_wait] by (simp add: mut_init_def)
  have 3: "reach (\<lambda>i. True) (Run (mut_init\<lparr>mu_heap := [0 \<mapsto> \<lparr>n_number = 0, n_next = None\<rparr>], mu_p := PLock 0 0, mu_c := CWait\<rparr>))"
    using by_main [OF 2 p_alloc [where i = 0 and a = 0]] by (simp add: mut_init_def NODES_def)
  have 4: "reach (\<lambda>i. True) (Run (mut_init\<lparr>mu_owner := Producer, mu_heap := [0 \<mapsto> \<lparr>n_number = 0, n_next = None\<rparr>],
      mu_p := PLink 0 0, mu_c := CWait\<rparr>))"
    using by_main [OF 3 p_lock] by (simp add: mut_init_def)
  show ?thesis
    using by_main [OF 4 p_link [where i = 0 and a = 0]] by (simp add: mut_init_def demo_state_def)
qed

lemma mut_no_loss_witness:
  "\<exists>s as. Run demo_state = Run s \<and> \<not> (producer_in (mu_p s) \<and> consumer_in (mu_c s))
     \<and> chain (mu_heap s) (mu_head s) as \<and> distinct as
     \<and> mset (mu_got s) + mset (map (number_at s) (as @ allocated (mu_p s) @ unprinted s)) = mset [0..<produced (mu_p s)]"
  using mut_no_loss [OF reach_demo] by simp

text \<open>
No wakeup is lost: when the consumer waits although the list is not empty, the producer is about to signal
it; and the program cannot get stuck before its end: without any spurious wakeup some thread has a
step.
\<close>

theorem mut_no_lost_wakeup:
  assumes "reach mem (Run s)"
  shows "(if mu_c s = CWait \<and> mu_head s \<noteq> None then \<exists>i. mu_p s = PSignal i else True)
     \<and> (mu_p s \<in> {PCancel, PDone} \<or> (\<exists>t. main_step mem s t) \<or> (mu_c s \<noteq> CWait \<and> (\<exists>t. thread_step s t)))"
proof -
  have inv: "mut_inv s" "lock_inv s" "wake_inv s" using reach_inv [OF assms] by (simp_all add: mut_inv_def)
  show ?thesis
    using main_can [OF inv(1)] thread_can [of s] owner_waited [OF inv(2)] inv(3) by (auto simp: wake_inv_def consumer_in_def)
qed

lemma mut_no_lost_wakeup_witness: "\<exists>i. mu_p demo_state = PSignal i"
  using mut_no_lost_wakeup [OF reach_demo] by (simp add: demo_state_def)

end
