(* ===== verification/MutRuns.thy ===== *)
theory MutRuns
  imports Mut Runs "HOL-Library.Product_Lexorder"
begin

text \<open>
  The runs of \<open>process/mut.c\<close> as a whole, with failing allocations, the cancellation and wakeups without a signal: they end unless
  \<open>pthread_cond_wait\<close> wakes without a signal for ever, and how.
\<close>

section \<open>Runs\<close>


















end
