(* ===== verification/Link.thy ===== *)
theory Link
  imports CLib
begin

text \<open>
  \<open>advanced_io/link.c\<close>: the mode of a file as ten characters (\<open>print_mode\<close>), and the report of
  \<open>main\<close>.  A mode is a 32-bit word; the calls on files, users and groups are a record of functions.
\<close>

unbundle bit_operations_syntax

section \<open>The constants of \<open>sys/stat.h\<close>\<close>

type_synonym mode = "32 word"

definition S_IFMT :: mode where "S_IFMT = 0xF000"
definition S_IFSOCK :: mode where "S_IFSOCK = 0xC000"
definition S_IFLNK :: mode where "S_IFLNK = 0xA000"
definition S_IFREG :: mode where "S_IFREG = 0x8000"
definition S_IFBLK :: mode where "S_IFBLK = 0x6000"
definition S_IFDIR :: mode where "S_IFDIR = 0x4000"
definition S_IFCHR :: mode where "S_IFCHR = 0x2000"
definition S_IFIFO :: mode where "S_IFIFO = 0x1000"

text \<open>The permission bits, by their numbers.\<close>

definition S_BIT :: "nat \<Rightarrow> mode" where "S_BIT n = push_bit n 1"

abbreviation "S_ISUID \<equiv> S_BIT 11"
abbreviation "S_ISGID \<equiv> S_BIT 10"
abbreviation "S_ISVTX \<equiv> S_BIT 9"
abbreviation "S_IRUSR \<equiv> S_BIT 8"
abbreviation "S_IWUSR \<equiv> S_BIT 7"
abbreviation "S_IXUSR \<equiv> S_BIT 6"
abbreviation "S_IRGRP \<equiv> S_BIT 5"
abbreviation "S_IWGRP \<equiv> S_BIT 4"
abbreviation "S_IXGRP \<equiv> S_BIT 3"
abbreviation "S_IROTH \<equiv> S_BIT 2"
abbreviation "S_IWOTH \<equiv> S_BIT 1"
abbreviation "S_IXOTH \<equiv> S_BIT 0"

section \<open>\<open>print_mode\<close>\<close>

definition TYPE_of :: "mode \<Rightarrow> mode \<Rightarrow> bool" where
  "TYPE_of m b \<longleftrightarrow> m AND S_IFMT = b"

definition MODE_has :: "mode \<Rightarrow> mode \<Rightarrow> bool" where
  "MODE_has m b \<longleftrightarrow> m AND b = b"

definition type_char :: "mode \<Rightarrow> char" where
  "type_char m =
     (if TYPE_of m S_IFBLK then CHR ''b''
      else if TYPE_of m S_IFCHR then CHR ''d''
      else if TYPE_of m S_IFIFO then CHR ''p''
      else if TYPE_of m S_IFREG then CHR ''-''
      else if TYPE_of m S_IFLNK then CHR ''l''
      else if TYPE_of m S_IFSOCK then CHR ''s''
      else CHR ''?'')"

text \<open>Three characters for one class: \<open>special\<close> is the set-id or sticky bit, \<open>c\<close> and \<open>d\<close> its letters.\<close>

definition class_chars :: "bool \<Rightarrow> bool \<Rightarrow> bool \<Rightarrow> bool \<Rightarrow> char \<Rightarrow> char \<Rightarrow> string" where
  "class_chars r w special x c d =
     [if r then CHR ''r'' else CHR ''-'', if w then CHR ''w'' else CHR ''-'',
      if special then (if x then c else d) else if x then CHR ''x'' else CHR ''-'']"

definition print_mode :: "mode \<Rightarrow> string" where
  "print_mode m =
     type_char m
     # class_chars (MODE_has m S_IRUSR) (MODE_has m S_IWUSR) (MODE_has m S_ISUID) (MODE_has m S_IXUSR) (CHR ''s'') (CHR ''S'')
     @ class_chars (MODE_has m S_IRGRP) (MODE_has m S_IWGRP) (MODE_has m S_ISGID) (MODE_has m S_IXGRP) (CHR ''s'') (CHR ''S'')
     @ class_chars (MODE_has m S_IROTH) (MODE_has m S_IWOTH) (MODE_has m S_IFDIR \<and> MODE_has m S_ISVTX)
         (MODE_has m S_IXOTH) (CHR ''t'') (CHR ''T'')"

section \<open>\<open>main\<close>\<close>

record stat =
  st_mode :: mode
  st_size :: int
  st_nlink :: int
  st_ino :: int
  st_dev :: int
  st_uid :: int
  st_gid :: int
  st_blksize :: int
  st_blocks :: int

text \<open>The calls the program makes, as functions; \<open>None\<close> is their failure.\<close>

record filesys =
  fs_stat :: "string \<Rightarrow> stat option"
  fs_lstat :: "string \<Rightarrow> stat option"
  fs_readlink :: "string \<Rightarrow> string option"
  fs_user :: "int \<Rightarrow> string option"
  fs_group :: "int \<Rightarrow> string option"
  fs_cwd :: "string option"

definition getGroupname :: "filesys \<Rightarrow> int \<Rightarrow> string option" where
  "getGroupname f gid = fs_group f gid"

definition getUsername :: "filesys \<Rightarrow> int \<Rightarrow> string option" where
  "getUsername f uid = fs_user f uid"

definition getCurrentPath :: "filesys \<Rightarrow> string option" where
  "getCurrentPath f = fs_cwd f"

definition printName :: "filesys \<Rightarrow> stat \<Rightarrow> string \<Rightarrow> string" where
  "printName f s name =
     (if TYPE_of (st_mode s) S_IFLNK then
        (case fs_readlink f name of
           Some contents \<Rightarrow> '' '' @ name @ '' -> '' @ take (nat (st_size s)) contents
         | None \<Rightarrow> '' '' @ name @ '' -> [can'' @ [CHR 0x27] @ ''t read link]'')
      else ''Not Linked: '' @ name)"

definition kind_text :: "mode \<Rightarrow> string" where
  "kind_text m =
     (if TYPE_of m S_IFSOCK then ''Socket ''
      else if TYPE_of m S_IFCHR then ''Character Special File ''
      else if TYPE_of m S_IFDIR then ''Directory ''
      else if TYPE_of m S_IFIFO then ''Un-named PIPE ''
      else if TYPE_of m S_IFLNK then ''Symbolic Link ''
      else if TYPE_of m S_IFBLK then ''Block Special File ''
      else if TYPE_of m S_IFREG then ''Regular File ''
      else ''Unknown '') @ [NL]"

definition group_text :: "mode \<Rightarrow> string" where
  "group_text m =
     (if MODE_has m (S_IRGRP OR S_IWGRP) then ''Read and Write '' @ [NL]
      else if MODE_has m S_IRGRP \<or> MODE_has m S_IWGRP then ''Read or Write '' @ [NL]
      else [])"

definition stat_text :: "string \<Rightarrow> stat \<Rightarrow> string" where
  "stat_text name s =
     ''Information for '' @ name @ [NL]
     @ ''---------------------------'' @ [NL]
     @ ''File Size: '' @ [TAB, TAB] @ show_int (st_size s) @ '' bytes'' @ [NL]
     @ ''Number of Links: '' @ [TAB] @ show_int (st_nlink s) @ [NL]
     @ ''File inode: '' @ [TAB, TAB] @ show_int (st_ino s) @ [NL]"

definition lstat_text :: "stat \<Rightarrow> string \<Rightarrow> string \<Rightarrow> string" where
  "lstat_text s user grp =
     [NL, NL] @ ''lstat info'' @ [NL]
     @ ''Device ID: '' @ [TAB, TAB] @ '' '' @ show_int (st_dev s) @ '' '' @ [NL]
     @ ''Mode: '' @ [TAB, TAB, TAB] @ kind_text (st_mode s)
     @ ''Permission: '' @ [TAB, TAB] @ group_text (st_mode s)
     @ ''i-number: '' @ [TAB, TAB] @ '' '' @ show_int (st_ino s) @ '' '' @ [NL]
     @ ''User ID: '' @ [TAB, TAB] @ '' '' @ user @ ''('' @ show_int (st_uid s) @ '') '' @ [NL]
     @ ''Group ID: '' @ [TAB, TAB] @ '' '' @ grp @ ''('' @ show_int (st_gid s) @ '') '' @ [NL]
     @ ''Size: '' @ [TAB, TAB, TAB] @ ''  '' @ show_int (st_size s) @ '' bytes '' @ [NL]
     @ ''Optimal Block Size: '' @ [TAB] @ '' '' @ show_int (st_blksize s) @ '' bytes '' @ [NL]
     @ ''Block Count: '' @ [TAB, TAB] @ '' '' @ show_int (st_blocks s) @ '' blocks '' @ [NL]
     @ ''------------------------------------------'' @ [NL]
     @ print_mode (st_mode s) @ [NL]"

text \<open>The exit status and what is printed; \<open>None\<close> when a name or the path is a null pointer.\<close>

definition link_main :: "filesys \<Rightarrow> string list \<Rightarrow> (int \<times> string) option" where
  "link_main f argv =
     (if length argv \<noteq> 2 then Some (1, ''Require a path to print information'' @ [NL])
      else let name = argv ! 1 in
        case fs_stat f name of
          None \<Rightarrow> Some (1, [])
        | Some s \<Rightarrow>
            (case fs_lstat f name of
               None \<Rightarrow> Some (1, stat_text name s)
             | Some l \<Rightarrow>
                 (case (getUsername f (st_uid l), getGroupname f (st_gid l), getCurrentPath f) of
                    (Some u, Some g, Some d) \<Rightarrow>
                      Some (0, stat_text name s @ lstat_text l u g
                        @ ''Current Path: '' @ [TAB, TAB] @ '' '' @ d @ '' '' @ [NL] @ printName f l name @ [NL])
                  | _ \<Rightarrow> None)))"

section \<open>One bit\<close>

lemma MODE_has_bit: "n < 32 \<Longrightarrow> MODE_has m (S_BIT n) \<longleftrightarrow> bit m n"
proof -
  assume n: "n < 32"
  have "MODE_has m (S_BIT n) \<longleftrightarrow> (\<forall>k<32. bit (m AND S_BIT n) k = bit (S_BIT n) k)"
    by (simp add: MODE_has_def bit_eq_iff)
  also have "\<dots> \<longleftrightarrow> bit m n"
    using n by (auto simp: S_BIT_def bit_and_iff bit_exp_iff)
  finally show ?thesis .
qed

section \<open>Reading the letters\<close>

text \<open>What \<open>ls\<close> is documented to mean by the nine letters after the first: the permissions of the user, the group and others, \<open>s\<close> and \<open>S\<close> for
  a set-id bit with and without the permission to execute, \<open>t\<close> for the permission to execute in a directory with the sticky bit.\<close>

definition ls_bits :: "string \<Rightarrow> mode" where
  "ls_bits s =
     (let b = (\<lambda>i cs n. if s ! i \<in> set cs then S_BIT n else 0) in
      b 1 ''r'' 8 OR b 2 ''w'' 7 OR b 3 ''xs'' 6 OR b 3 ''sS'' 11
      OR b 4 ''r'' 5 OR b 5 ''w'' 4 OR b 6 ''xs'' 3 OR b 6 ''sS'' 10
      OR b 7 ''r'' 2 OR b 8 ''w'' 1 OR b 9 ''xt'' 0)"

lemma bit_S_BIT: "n < 32 \<Longrightarrow> bit (if c then S_BIT n else 0) k \<longleftrightarrow> c \<and> k = n"
  by (auto simp: S_BIT_def bit_simps)

lemma print_mode_letters:
  "print_mode m ! 1 \<in> set ''r'' \<longleftrightarrow> bit m 8" "print_mode m ! 2 \<in> set ''w'' \<longleftrightarrow> bit m 7"
  "print_mode m ! 3 \<in> set ''xs'' \<longleftrightarrow> bit m 6" "print_mode m ! 3 \<in> set ''sS'' \<longleftrightarrow> bit m 11"
  "print_mode m ! 4 \<in> set ''r'' \<longleftrightarrow> bit m 5" "print_mode m ! 5 \<in> set ''w'' \<longleftrightarrow> bit m 4"
  "print_mode m ! 6 \<in> set ''xs'' \<longleftrightarrow> bit m 3" "print_mode m ! 6 \<in> set ''sS'' \<longleftrightarrow> bit m 10"
  "print_mode m ! 7 \<in> set ''r'' \<longleftrightarrow> bit m 2" "print_mode m ! 8 \<in> set ''w'' \<longleftrightarrow> bit m 1"
  "print_mode m ! 9 \<in> set ''xt'' \<longleftrightarrow> bit m 0"
  by (simp_all add: print_mode_def class_chars_def MODE_has_bit)

section \<open>The properties\<close>

text \<open>
C30: What \<open>print_mode\<close> prints means what it says: read as \<open>ls\<close> documents them, its nine letters give back the permission bits and
both set-id bits of the mode (\<open>0xDFF\<close> leaves out the sticky bit), and the first character is that of \<open>ls -l\<close> for regular files, pipes, links,
sockets and block devices, but \<open>d\<close> for a character device and \<open>?\<close> for a directory.
\<close>

theorem print_mode_reads_back:
  "ls_bits (print_mode m) = m AND 0xDFF
   \<and> hd (print_mode m) =
     (let t = m AND S_IFMT in
      if t = S_IFBLK then CHR ''b'' else if t = S_IFIFO then CHR ''p'' else if t = S_IFREG then CHR ''-''
      else if t = S_IFLNK then CHR ''l'' else if t = S_IFSOCK then CHR ''s''
      else if t = S_IFCHR then CHR ''d'' else CHR ''?'')"
proof
  show "ls_bits (print_mode m) = m AND 0xDFF"
  proof (rule bit_word_eqI)
    fix n
    have e: "(0xDFF :: mode) = mask 9 OR push_bit 10 (mask 2)"
      by (simp add: mask_eq_exp_minus_1 push_bit_eq_mult)
    have "bit (0xDFF :: mode) n \<longleftrightarrow> n \<in> {0, 1, 2, 3, 4, 5, 6, 7, 8, 10, 11}"
      unfolding e by (auto simp: bit_simps)
    then show "bit (ls_bits (print_mode m)) n = bit (m AND 0xDFF) n"
      unfolding ls_bits_def Let_def print_mode_letters bit_or_iff bit_and_iff by (auto simp: bit_S_BIT)
  qed
  show "hd (print_mode m) =
     (let t = m AND S_IFMT in
      if t = S_IFBLK then CHR ''b'' else if t = S_IFIFO then CHR ''p'' else if t = S_IFREG then CHR ''-''
      else if t = S_IFLNK then CHR ''l'' else if t = S_IFSOCK then CHR ''s''
      else if t = S_IFCHR then CHR ''d'' else CHR ''?'')"
    by (simp add: Let_def print_mode_def type_char_def TYPE_of_def S_IFBLK_def S_IFIFO_def S_IFREG_def S_IFLNK_def
        S_IFSOCK_def S_IFCHR_def S_IFDIR_def)
qed

lemma print_mode_example: "print_mode 0x89ED = ''-rwsr-xr-x''"
  by code_simp

end
