(* ===== verification/Pipes.thy ===== *)
theory Pipes
  imports Posix "HOL-Library.Word"
begin

text \<open>
  The small programs on pipes in \<open>communication/\<close>: \<open>pipe.c\<close> with the program \<open>pread.c\<close> it executes,
  \<open>who_count.c\<close> and \<open>fsort.c\<close>.  Each process has its descriptor table; a pipe is a string.  What
  the executed programs do (\<open>sort\<close>, \<open>ls\<close>, \<open>wc\<close>) is a parameter or left out, \<open>sort\<close> is taken to read its input to the end
  before it writes, and left out are the messages about a
  \<open>fork\<close> or an \<open>execlp\<close> that fails; what the programs do then is not.
\<close>

section \<open>Reading and writing descriptors\<close>

text \<open>What a pipe holds, by its number; what the process prints.\<close>

type_synonym pipes = "nat \<Rightarrow> string"

definition write_fd :: "fdtable \<Rightarrow> fd \<Rightarrow> string \<Rightarrow> pipes \<Rightarrow> pipes" where
  "write_fd t d s k = (case t d of Some (PipeW n) \<Rightarrow> k(n := k n @ s) | _ \<Rightarrow> k)"

text \<open>The characters a \<open>read\<close> of at most \<open>n\<close> gives when all writers have written; \<open>None\<close> is -1.\<close>

definition read_fd :: "fdtable \<Rightarrow> fd \<Rightarrow> nat \<Rightarrow> pipes \<Rightarrow> string option \<times> pipes" where
  "read_fd t d n k = (case t d of Some (PipeR p) \<Rightarrow> (Some (take n (k p)), k(p := drop n (k p))) | _ \<Rightarrow> (None, k))"

definition hello :: string where "hello = ''hello'' @ [NUL]"

text \<open>The report both programs make of a \<open>read\<close> into an array of 100 characters; \<open>None\<close> is undefined:
  the array is printed although nothing was read into it, or what was read has no NUL.\<close>

definition report_read :: "string option \<Rightarrow> string option" where
  "report_read r =
     (case r of
        None \<Rightarrow> None
      | Some s \<Rightarrow>
          if s = [] then Some (''EOF'' @ [NL])
          else map_option (\<lambda>c. ''read '' @ show_nat (length s) @ '' bytes: '' @ c @ [NL])
                 (cstr (map Some s @ uninit (100 - length s))))"

section \<open>\<open>pipe.c\<close>\<close>

definition check_buffer_size :: "int \<Rightarrow> int \<times> string" where
  "check_buffer_size v =
     (v, if v = - 1 then ''No PIPE_BUF limit.'' @ [NL] else ''PIPE_BUF = '' @ show_int v @ [NL])"

definition pipetest :: "fdtable \<Rightarrow> fd \<Rightarrow> fd \<Rightarrow> pipes \<Rightarrow> string option \<times> pipes" where
  "pipetest t rfd wfd k =
     (let (r, k1) = read_fd t rfd 100 (write_fd t wfd hello k) in (report_read r, k1))"

text \<open>The child of \<open>pipewrite\<close>: the table it has and the arguments it gives to \<open>pread\<close>.\<close>

definition pipewrite_child :: "fd \<Rightarrow> fd \<Rightarrow> fdtable \<Rightarrow> fdtable \<times> string list" where
  "pipewrite_child readfd writefd t =
     (close_fd writefd t, [''piperead'', snprintf 10 (show_int readfd)])"

definition pipewrite_parent :: "fd \<Rightarrow> fd \<Rightarrow> fdtable \<Rightarrow> pipes \<Rightarrow> fdtable \<times> pipes" where
  "pipewrite_parent readfd writefd t k =
     (let t1 = close_fd readfd t in (t1, write_fd t1 writefd hello k))"

text \<open>
  The programs that are started, with their tables, the tables of the processes that go on, and the pipes.  A failed
  \<open>fork\<close> runs the code of the child in the only process there is, and a failed \<open>execlp\<close> goes on into the code of the parent.  When
  the child has gone that way nobody reads the pipe, and the parent is killed if it writes \<open>late\<close>.
\<close>

definition pipewrite ::
  "bool \<Rightarrow> bool \<Rightarrow> bool \<Rightarrow> fd \<Rightarrow> fd \<Rightarrow> fdtable \<Rightarrow> pipes \<Rightarrow> (fdtable \<times> string list) list \<times> fdtable list \<times> pipes" where
  "pipewrite forked execed late readfd writefd t k =
     (let (tc, argv) = pipewrite_child readfd writefd t;
          (t0, k0) = pipewrite_parent readfd writefd tc k;
          started = (if execed then [(tc, argv)] else []);
          fell = (if execed then [] else [t0]);
          k1 = (if execed then k else k0);
          (tp, k2) = pipewrite_parent readfd writefd t k1;
          writes = (execed \<or> \<not> late)
      in if forked then (started, (if writes then [tp] else []) @ fell, if writes then k2 else k1)
         else (started, fell, k1))"

definition pipe_main ::
  "nat \<Rightarrow> bool \<Rightarrow> bool \<Rightarrow> bool \<Rightarrow> fdtable \<Rightarrow> pipes \<Rightarrow> ((fdtable \<times> string list) list \<times> fdtable list \<times> pipes) option" where
  "pipe_main nofile forked execed late t k =
     (case pipe_fd nofile 0 t of
        (Some (r, w), t1) \<Rightarrow> Some (pipewrite forked execed late r w t1 k)
      | (None, t1) \<Rightarrow> None)"

definition pipe_test :: "nat \<Rightarrow> int \<Rightarrow> fdtable \<Rightarrow> pipes \<Rightarrow> string option" where
  "pipe_test nofile v t k =
     (case pipe_fd nofile 0 t of
        (Some (r, w), t1) \<Rightarrow>
          map_option (\<lambda>s. ''Pipe creation result: 0'' @ [NL] @ snd (check_buffer_size v)
              @ ''--------------------'' @ [NL] @ s)
            (fst (pipetest t1 r w k))
      | (None, t1) \<Rightarrow> None)"

section \<open>\<open>pread.c\<close>\<close>

definition pread_main :: "string list \<Rightarrow> fdtable \<Rightarrow> pipes \<Rightarrow> string option" where
  "pread_main argv t k =
     (if length argv < 2 then None
      else let d = atoi (argv ! 1) in
           map_option (\<lambda>s. ''reading file descriptor '' @ show_int d @ [NL] @ s)
             (report_read (fst (read_fd t d 100 k))))"

section \<open>\<open>who_count.c\<close>\<close>

definition ls_fds :: "fd \<Rightarrow> fd \<Rightarrow> fdtable \<Rightarrow> fdtable" where
  "ls_fds r w t = close_fd r (close_fd w (dup2 w 1 t))"

definition wc_fds :: "fd \<Rightarrow> fd \<Rightarrow> fdtable \<Rightarrow> fdtable" where
  "wc_fds r w t = close_fd r (close_fd w (dup2 r 0 t))"

text \<open>
  One \<open>switch\<close>: the programs that are started, with their tables, and the tables of the processes
  that go on after it.  A failed \<open>fork\<close> falls through into the code of the child, and a child whose
  \<open>execlp\<close> fails leaves the switch like the parent.
\<close>

definition who_switch ::
  "bool \<Rightarrow> bool \<Rightarrow> string list \<Rightarrow> (fdtable \<Rightarrow> fdtable) \<Rightarrow> fdtable \<Rightarrow> (string list \<times> fdtable) list \<times> fdtable list" where
  "who_switch forked execed argv redir t =
     (let started = (if execed then [(argv, redir t)] else []);
          returns = (if execed then [] else [redir t])
      in if forked then (started, t # returns) else (started, returns))"

definition who_main ::
  "nat \<Rightarrow> bool \<Rightarrow> bool \<Rightarrow> bool \<Rightarrow> bool \<Rightarrow> fdtable \<Rightarrow> ((string list \<times> fdtable) list \<times> fdtable list) option" where
  "who_main nofile f1 e1 f2 e2 t =
     (case pipe_fd nofile 0 t of
        (Some (r, w), t1) \<Rightarrow>
          (let (s1, ts) = who_switch f1 e1 [''ls''] (ls_fds r w) t1;
               second = map (who_switch f2 e2 [''wc'', ''-l''] (wc_fds r w)) ts
           in Some (s1 @ concat (map fst second),
                map (\<lambda>u. close_fd w (close_fd r u)) (concat (map snd second))))
      | (None, t1) \<Rightarrow> None)"

section \<open>\<open>fsort.c\<close>\<close>

definition fsort_pipes :: "nat \<Rightarrow> fdtable \<Rightarrow> (((fd \<times> fd) \<times> (fd \<times> fd)) \<times> fdtable) option" where
  "fsort_pipes nofile t =
     (case pipe_fd nofile 0 t of
        (Some o', t1) \<Rightarrow>
          (case pipe_fd nofile 1 t1 of
             (Some i, t2) \<Rightarrow> Some ((o', i), t2)
           | (None, t2) \<Rightarrow> None)
      | (None, t1) \<Rightarrow> None)"

definition fsort_child :: "fd \<times> fd \<Rightarrow> fd \<times> fd \<Rightarrow> fdtable \<Rightarrow> fdtable" where
  "fsort_child pfdout pfdin t =
     (let t1 = dup2 (fst pfdout) 0 t;
          t2 = close_fd (snd pfdout) (close_fd (fst pfdout) t1);
          t3 = dup2 (snd pfdin) 1 t2
      in close_fd (snd pfdin) (close_fd (fst pfdin) t3))"

text \<open>
  What the loops move: the rest of the data file behind the process's own descriptor, the characters in
  the two pipes, and what has been written to the standard output.
\<close>

record io =
  io_file :: string
  io_pipes :: pipes
  io_out :: string

text \<open>Whether one of the processes with these tables has \<open>f\<close> open.\<close>

definition is_open_in :: "nat \<Rightarrow> fdtable list \<Rightarrow> ofile \<Rightarrow> bool" where
  "is_open_in nofile ts f \<longleftrightarrow> list_ex (\<lambda>t. list_ex (\<lambda>d. t (int d) = Some f) [0..<nofile]) ts"

text \<open>
  \<open>read\<close> of at most \<open>n\<close> characters in a process with the table \<open>t\<close> beside others: what it returns, and what it has
  stored; \<open>None\<close> is a \<open>read\<close> that waits, on an empty pipe that somebody can still write to.  The standard
  descriptors are not read here.
\<close>

definition read_io :: "nat \<Rightarrow> fdtable list \<Rightarrow> fdtable \<Rightarrow> fd \<Rightarrow> nat \<Rightarrow> io \<Rightarrow> (int \<times> string \<times> io) option" where
  "read_io nofile others t d n u =
     (case t d of
        Some (RdFile f) \<Rightarrow>
          (let c = take n (io_file u) in Some (int (length c), c, u\<lparr>io_file := drop n (io_file u)\<rparr>))
      | Some (PipeR k) \<Rightarrow>
          (let c = take n (io_pipes u k)
           in if c = [] \<and> is_open_in nofile (t # others) (PipeW k) then None
              else Some (int (length c), c, u\<lparr>io_pipes := (io_pipes u)(k := drop n (io_pipes u k))\<rparr>))
      | _ \<Rightarrow> Some (- 1, [], u))"

text \<open>
  Characters that go to a descriptor; \<open>None\<close> is \<open>SIGPIPE\<close>.  A descriptor that is not open for writing takes none
  (\<open>EBADF\<close>), and the pipes take everything here.
\<close>

definition put_io :: "nat \<Rightarrow> fdtable list \<Rightarrow> fdtable \<Rightarrow> fd \<Rightarrow> string \<Rightarrow> io \<Rightarrow> io option" where
  "put_io nofile others t d s u =
     (case t d of
        Some (PipeW k) \<Rightarrow>
          if \<not> is_open_in nofile (t # others) (PipeR k) then None
          else Some (u\<lparr>io_pipes := (io_pipes u)(k := io_pipes u k @ s)\<rparr>)
      | Some (Std i) \<Rightarrow> Some (u\<lparr>io_out := io_out u @ s\<rparr>)
      | _ \<Rightarrow> Some u)"

text \<open>
  \<open>write\<close> of \<open>n\<close> characters of the array that holds \<open>c\<close>, where the count is a \<open>size_t\<close>.  A count above \<open>SSIZE_MAX\<close>, which
  POSIX leaves to the implementation, fails on Linux (with \<open>EFAULT\<close>, or \<open>EBADF\<close>) and moves nothing.
\<close>

definition SSIZE_MAX :: nat where "SSIZE_MAX = 2 ^ 63 - 1"

definition size_of :: "int \<Rightarrow> nat" where
  "size_of n = unat (of_int n :: 64 word)"

definition write_io :: "nat \<Rightarrow> fdtable list \<Rightarrow> fdtable \<Rightarrow> fd \<Rightarrow> string \<Rightarrow> nat \<Rightarrow> io \<Rightarrow> io option" where
  "write_io nofile others t d c n u =
     (if SSIZE_MAX < n then Some u else put_io nofile others t d (take n c) u)"

text \<open>
  A copying loop from \<open>src\<close> to \<open>dst\<close> with an array of 512 characters, whose two calls look at nothing but a \<open>read\<close>
  of 0: it is left at the end of the input, waits for ever, or is killed.  A loop that is never left and
  never waits is the value \<open>None\<close>.
\<close>

datatype loop_end = Copied io | Waiting | Sigpipe

partial_function (option) copy_loop :: "nat \<Rightarrow> fdtable list \<Rightarrow> fdtable \<Rightarrow> fd \<Rightarrow> fd \<Rightarrow> io \<Rightarrow> loop_end option" where
  "copy_loop nofile others t src dst u =
     (case read_io nofile others t src 512 u of
        None \<Rightarrow> Some Waiting
      | Some (nread, c, u1) \<Rightarrow>
          if nread = 0 then Some (Copied u1)
          else case write_io nofile others t dst c (size_of nread) u1 of
                 None \<Rightarrow> Some Sigpipe
               | Some u2 \<Rightarrow> copy_loop nofile others t src dst u2)"

text \<open>
  What follows the \<open>if\<close>, in the parent and in a child whose \<open>execlp\<close> failed.  \<open>others\<close> are the tables of the other
  processes while it sends, and \<open>meanwhile\<close> says what they have done when it reads: the tables that are
  left and what is in the pipes.  The result has the table with which it reads.
\<close>

datatype rest_end = Finished fdtable io | Signalled_by_pipe | Stuck

definition fsort_rest ::
  "nat \<Rightarrow> fd \<times> fd \<Rightarrow> fd \<times> fd \<Rightarrow> string option \<Rightarrow> fdtable list \<Rightarrow> (fdtable \<Rightarrow> io \<Rightarrow> fdtable list \<times> io)
    \<Rightarrow> fdtable \<Rightarrow> io \<Rightarrow> rest_end" where
  "fsort_rest nofile pfdout pfdin datafile others meanwhile t u =
     (let t1 = close_fd (snd pfdin) (close_fd (fst pfdout) t);
          (r, t2) = open_fd nofile (datafile \<noteq> None) (RdFile ''datafile'') t1;
          d = fd_of r;
          u1 = u\<lparr>io_file := (case datafile of None \<Rightarrow> [] | Some c \<Rightarrow> c)\<rparr>
      in case copy_loop nofile others t2 d (snd pfdout) u1 of
           None \<Rightarrow> Stuck
         | Some Waiting \<Rightarrow> Stuck
         | Some Sigpipe \<Rightarrow> Signalled_by_pipe
         | Some (Copied u2) \<Rightarrow>
             (let t3 = close_fd (snd pfdout) (close_fd d t2);
                  (others', u3) = meanwhile t3 u2
              in case copy_loop nofile others' t3 (fst pfdin) STDOUT_FILENO u3 of
                   None \<Rightarrow> Stuck
                 | Some Waiting \<Rightarrow> Stuck
                 | Some Sigpipe \<Rightarrow> Signalled_by_pipe
                 | Some (Copied u4) \<Rightarrow> Finished t3 u4))"

text \<open>
  The program that sorts: it reads its standard input to the end, writes what it makes of it to its standard
  output and is gone.  As long as somebody, itself included, can write to the pipe it reads, it
  waits.
\<close>

definition sort_child :: "nat \<Rightarrow> (string \<Rightarrow> string) \<Rightarrow> fdtable \<Rightarrow> fdtable \<Rightarrow> io \<Rightarrow> fdtable list \<times> io" where
  "sort_child nofile sort_program child parent u =
     (let write = (\<lambda>s u. case put_io nofile [parent] child STDOUT_FILENO s u of None \<Rightarrow> u | Some u' \<Rightarrow> u')
      in case child STDIN_FILENO of
           Some (PipeR k) \<Rightarrow>
             if is_open_in nofile [child, parent] (PipeW k) then ([child], u)
             else ([], write (sort_program (io_pipes u k)) (u\<lparr>io_pipes := (io_pipes u)(k := [])\<rparr>))
         | _ \<Rightarrow> ([], u))"

text \<open>
  How it ends: with a child and its parent, alone after a failed \<open>fork\<close>, killed by \<open>SIGPIPE\<close>, never, or without
  pipes.  A child that cannot execute the program goes on like its parent, which in the end waits
  for it; the parent of one that does end finds it gone.
\<close>

datatype fsort_end = Sorted fdtable fdtable string | Alone fdtable string | Killed | NeverEnds | NoPipes

definition fsort :: "nat \<Rightarrow> string option \<Rightarrow> bool \<Rightarrow> bool \<Rightarrow> (string \<Rightarrow> string) \<Rightarrow> fdtable \<Rightarrow> fsort_end" where
  "fsort nofile datafile forked execed sort_program t =
     (case fsort_pipes nofile t of
        None \<Rightarrow> NoPipes
      | Some ((pfdout, pfdin), t2) \<Rightarrow>
          (let child = fsort_child pfdout pfdin t2;
               u = \<lparr>io_file = [], io_pipes = (\<lambda>k. []), io_out = []\<rparr>;
               rest = fsort_rest nofile pfdout pfdin datafile;
               alone = (\<lambda>p v. ([], v))
           in if \<not> forked then
                (case rest [] alone t2 u of
                   Stuck \<Rightarrow> NeverEnds
                 | Signalled_by_pipe \<Rightarrow> Killed
                 | Finished t3 v \<Rightarrow> Alone t3 (io_out v))
              else if execed then
                (case rest [child] (sort_child nofile sort_program child) t2 u of
                   Stuck \<Rightarrow> NeverEnds
                 | Signalled_by_pipe \<Rightarrow> Killed
                 | Finished t3 v \<Rightarrow> Sorted child t3 (io_out v))
              else
                (case rest [t2] (\<lambda>p v. ([t2], v)) child u of
                   Stuck \<Rightarrow> NeverEnds
                 | _ \<Rightarrow>
                     (case rest [] alone t2 u of
                        Stuck \<Rightarrow> NeverEnds
                      | Signalled_by_pipe \<Rightarrow> Killed
                      | Finished t3 v \<Rightarrow> Sorted child t3 (io_out v)))))"

section \<open>The copying loops\<close>

lemma size_of_length: "length c \<le> 512 \<Longrightarrow> size_of (int (length c)) = length c"
  by (simp add: size_of_def unat_of_nat take_bit_nat_eq_self)

lemma size_of_minus_one: "SSIZE_MAX < size_of (- 1)"
proof -
  have "size_of (- 1) = 2 ^ 64 - 1" by (simp add: size_of_def unsigned_minus_1_eq_mask mask_eq_exp_minus_1)
  then show ?thesis by (simp add: SSIZE_MAX_def)
qed

lemma is_open_in_Cons: "is_open_in n (t # ts) f \<longleftrightarrow> (\<exists>d<n. t (int d) = Some f) \<or> is_open_in n ts f"
  by (auto simp: is_open_in_def list_ex_iff)

lemma is_open_in_Nil [simp]: "\<not> is_open_in n [] f"
  by (simp add: is_open_in_def)

text \<open>A loop whose \<open>read\<close> fails is never left.\<close>

lemma write_huge: "write_io n ts t d c (size_of (- 1)) u = Some u"
  using size_of_minus_one by (simp add: write_io_def)

definition read_fails :: "fdtable \<Rightarrow> fd \<Rightarrow> bool" where
  "read_fails t d \<longleftrightarrow> (\<forall>n ts m u. read_io n ts t d m u = Some (- 1, [], u))"

lemma read_failsI: "(case t d of Some (RdFile f) \<Rightarrow> False | Some (PipeR k) \<Rightarrow> False | _ \<Rightarrow> True) \<Longrightarrow> read_fails t d"
  by (simp add: read_fails_def read_io_def split: option.splits ofile.splits)

lemma copy_loop_left: "copy_loop n ts t src dst u = Some e \<Longrightarrow> \<not> read_fails t src"
proof (induction rule: copy_loop.raw_induct [rotated 1, consumes 1, case_names step])
  case (step loop n ts t src dst u e)
  show ?case
  proof
    assume f: "read_fails t src"
    then have r: "read_io n ts t src 512 u = Some (- 1, [], u)" by (simp add: read_fails_def)
    have "loop n ts t src dst u = Some e" using step(2) by (simp add: r write_huge)
    from step(1) [OF this] f show False by contradiction
  qed
qed

lemma copy_loop_spins: "read_fails t src \<Longrightarrow> copy_loop n ts t src dst u = None"
  using copy_loop_left [of n ts t src dst u] by (cases "copy_loop n ts t src dst u") auto

text \<open>Otherwise it moves everything.\<close>

lemma copy_loop_step:
  assumes "read_io n ts t src 512 u = Some (int (length c), c, u1)" and "c \<noteq> []" and "length c \<le> 512"
  shows "copy_loop n ts t src dst u =
    (case write_io n ts t dst c (length c) u1 of None \<Rightarrow> Some Sigpipe | Some u2 \<Rightarrow> copy_loop n ts t src dst u2)"
  using assms size_of_length [OF assms(3)] by (subst copy_loop.simps) simp

lemma write_io_small:
  "length c \<le> 512 \<Longrightarrow> t dst = Some (PipeW k) \<Longrightarrow> write_io n ts t dst c (length c) u =
     (if is_open_in n (t # ts) (PipeR k) then Some (u\<lparr>io_pipes := (io_pipes u)(k := io_pipes u k @ c)\<rparr>) else None)"
  "length c \<le> 512 \<Longrightarrow> t dst = Some (Std i) \<Longrightarrow> write_io n ts t dst c (length c) u = Some (u\<lparr>io_out := io_out u @ c\<rparr>)"
  by (simp_all add: write_io_def put_io_def SSIZE_MAX_def)

lemma read_io_file:
  "t d = Some (RdFile f) \<Longrightarrow> read_io n ts t d m u
     = Some (int (length (take m (io_file u))), take m (io_file u), u\<lparr>io_file := drop m (io_file u)\<rparr>)"
  by (simp add: read_io_def Let_def)

lemma read_io_pipe:
  "t d = Some (PipeR k) \<Longrightarrow> \<not> is_open_in n (t # ts) (PipeW k) \<Longrightarrow> read_io n ts t d m u
     = Some (int (length (take m (io_pipes u k))), take m (io_pipes u k), u\<lparr>io_pipes := (io_pipes u)(k := drop m (io_pipes u k))\<rparr>)"
  by (simp add: read_io_def Let_def)

lemma copy_empty_file:
  "t src = Some (RdFile f) \<Longrightarrow> io_file u = [] \<Longrightarrow> copy_loop n ts t src dst u = Some (Copied u)"
  by (subst copy_loop.simps) (simp add: read_io_file)

lemma copy_file_to_pipe:
  assumes "t src = Some (RdFile f)" and "t dst = Some (PipeW k)" and "is_open_in n (t # ts) (PipeR k)"
  shows "copy_loop n ts t src dst u
    = Some (Copied (u\<lparr>io_file := [], io_pipes := (io_pipes u)(k := io_pipes u k @ io_file u)\<rparr>))"
proof (induction "length (io_file u)" arbitrary: u rule: less_induct)
  case less
  show ?case
  proof (cases "io_file u = []")
    case True
    then show ?thesis using copy_empty_file [of t src f u n ts dst] assms(1) by simp
  next
    case False
    let ?c = "take 512 (io_file u)"
    let ?u = "u\<lparr>io_file := drop 512 (io_file u), io_pipes := (io_pipes u)(k := io_pipes u k @ ?c)\<rparr>"
    have l: "?c \<noteq> []" "length ?c \<le> 512" using False by auto
    have "copy_loop n ts t src dst u = copy_loop n ts t src dst ?u"
      using copy_loop_step [OF read_io_file [of t src f n ts 512 u, OF assms(1)] l, of dst]
        write_io_small(1) [of ?c t dst k n ts "u\<lparr>io_file := drop 512 (io_file u)\<rparr>"] assms(2,3) l(2) by simp
    also have "\<dots> = Some (Copied (?u\<lparr>io_file := [], io_pipes := (io_pipes ?u)(k := io_pipes ?u k @ io_file ?u)\<rparr>))"
      by (rule less) (use False in simp)
    finally show ?thesis by simp
  qed
qed

lemma copy_file_sigpipe:
  assumes "t src = Some (RdFile f)" and "t dst = Some (PipeW k)" and "\<not> is_open_in n (t # ts) (PipeR k)"
    and "io_file u \<noteq> []"
  shows "copy_loop n ts t src dst u = Some Sigpipe"
proof -
  let ?c = "take 512 (io_file u)"
  have l: "?c \<noteq> []" "length ?c \<le> 512" using assms(4) by auto
  show ?thesis
    using copy_loop_step [OF read_io_file [of t src f n ts 512 u, OF assms(1)] l, of dst]
      write_io_small(1) [of ?c t dst k n ts "u\<lparr>io_file := drop 512 (io_file u)\<rparr>"] assms(2,3) l(2) by simp
qed

lemma copy_pipe_to_output:
  assumes "t src = Some (PipeR k)" and "t dst = Some (Std i)" and "\<not> is_open_in n (t # ts) (PipeW k)"
  shows "copy_loop n ts t src dst u
    = Some (Copied (u\<lparr>io_pipes := (io_pipes u)(k := []), io_out := io_out u @ io_pipes u k\<rparr>))"
proof (induction "length (io_pipes u k)" arbitrary: u rule: less_induct)
  case less
  show ?case
  proof (cases "io_pipes u k = []")
    case True
    then have "u\<lparr>io_pipes := (io_pipes u)(k := [])\<rparr> = u" by (simp add: fun_upd_idem)
    with True show ?thesis
      by (subst copy_loop.simps) (simp add: read_io_pipe [OF assms(1,3)])
  next
    case False
    let ?c = "take 512 (io_pipes u k)"
    let ?u = "u\<lparr>io_pipes := (io_pipes u)(k := drop 512 (io_pipes u k)), io_out := io_out u @ ?c\<rparr>"
    have l: "?c \<noteq> []" "length ?c \<le> 512" using False by auto
    have "copy_loop n ts t src dst u = copy_loop n ts t src dst ?u"
      using copy_loop_step [OF read_io_pipe [of t src k n ts 512 u, OF assms(1,3)] l, of dst]
        write_io_small(2) [of ?c t dst i n ts "u\<lparr>io_pipes := (io_pipes u)(k := drop 512 (io_pipes u k))\<rparr>"] assms(2) l(2) by simp
    also have "\<dots> = Some (Copied (?u\<lparr>io_pipes := (io_pipes ?u)(k := []), io_out := io_out ?u @ io_pipes ?u k\<rparr>))"
      by (rule less) (use False in simp)
    finally show ?thesis by simp
  qed
qed

section \<open>The descriptors of a pipe\<close>

lemma std_lookup [simp]:
  "std_fds 0 = Some (Std 0)" "std_fds 1 = Some (Std 1)" "std_fds 2 = Some (Std 2)"
  "3 \<le> d \<Longrightarrow> std_fds d = None" "std_fds (- 1) = None"
  by (simp_all add: std_fds_def)

lemma below: "0 \<le> i \<Longrightarrow> i < (3::int) \<Longrightarrow> i = 0 \<or> i = 1 \<or> i = 2"
  "0 \<le> i \<Longrightarrow> i < (4::int) \<Longrightarrow> i = 0 \<or> i = 1 \<or> i = 2 \<or> i = 3"
  "0 \<le> i \<Longrightarrow> i < (5::int) \<Longrightarrow> i = 0 \<or> i = 1 \<or> i = 2 \<or> i = 3 \<or> i = 4"
  "0 \<le> i \<Longrightarrow> i < (6::int) \<Longrightarrow> i = 0 \<or> i = 1 \<or> i = 2 \<or> i = 3 \<or> i = 4 \<or> i = 5"
  by arith+

lemma pipe_std:
  assumes "5 \<le> n"
  shows "pipe_fd n k std_fds = (Some (3, 4), std_fds(3 \<mapsto> PipeR k, 4 \<mapsto> PipeW k))"
proof -
  have 1: "lowest_free n std_fds = Some 3"
    by (rule lowest_free_least) (use assms in \<open>auto dest!: below(1)\<close>)
  have 2: "lowest_free n (std_fds(3 \<mapsto> PipeR k)) = Some 4"
    by (rule lowest_free_least) (use assms in \<open>auto dest!: below(2)\<close>)
  show ?thesis by (simp add: pipe_fd_def 1 2)
qed

lemma fsort_pipes_std:
  assumes "7 \<le> n"
  shows "fsort_pipes n std_fds =
     Some (((3, 4), (5, 6)), std_fds(3 \<mapsto> PipeR 0, 4 \<mapsto> PipeW 0, 5 \<mapsto> PipeR 1, 6 \<mapsto> PipeW 1))"
proof -
  let ?t = "std_fds(3 \<mapsto> PipeR 0, 4 \<mapsto> PipeW 0)"
  have 1: "lowest_free n ?t = Some 5"
    by (rule lowest_free_least) (use assms in \<open>auto dest!: below(3)\<close>)
  have 2: "lowest_free n (?t(5 \<mapsto> PipeR 1)) = Some 6"
    by (rule lowest_free_least) (use assms in \<open>auto dest!: below(4)\<close>)
  have "pipe_fd n 0 std_fds = (Some (3, 4), ?t)" using pipe_std assms by simp
  then show ?thesis by (simp add: fsort_pipes_def pipe_fd_def [of n "Suc 0"] 1 [simplified] 2 [simplified])
qed

lemma fsort_child_std:
  "fsort_child (3, 4) (5, 6) (std_fds(3 \<mapsto> PipeR 0, 4 \<mapsto> PipeW 0, 5 \<mapsto> PipeR 1, 6 \<mapsto> PipeW 1))
     = [0 \<mapsto> PipeR 0, 1 \<mapsto> PipeW 1, 2 \<mapsto> Std 2]"
  by (rule ext) (auto simp: fsort_child_def fd_simps std_fds_def)

lemma fsort_files_std:
  assumes "7 \<le> n"
  shows "open_fd n True (RdFile ''datafile'')
        (close_fd 6 (close_fd 3 (std_fds(3 \<mapsto> PipeR 0, 4 \<mapsto> PipeW 0, 5 \<mapsto> PipeR 1, 6 \<mapsto> PipeW 1))))
      = (Inr 3, std_fds(3 \<mapsto> RdFile ''datafile'', 4 \<mapsto> PipeW 0, 5 \<mapsto> PipeR 1))"
    and "close_fd 4 (close_fd 3 (std_fds(3 \<mapsto> RdFile ''datafile'', 4 \<mapsto> PipeW 0, 5 \<mapsto> PipeR 1))) = std_fds(5 \<mapsto> PipeR 1)"
proof -
  let ?t1 = "std_fds(4 \<mapsto> PipeW 0, 5 \<mapsto> PipeR 1)"
  have t1: "close_fd 6 (close_fd 3 (std_fds(3 \<mapsto> PipeR 0, 4 \<mapsto> PipeW 0, 5 \<mapsto> PipeR 1, 6 \<mapsto> PipeW 1))) = ?t1"
    by (rule ext) (auto simp: fd_simps)
  have "lowest_free n ?t1 = Some 3"
    by (rule lowest_free_least) (use assms in \<open>auto dest!: below(1)\<close>)
  moreover have "?t1(3 \<mapsto> RdFile ''datafile'') = std_fds(3 \<mapsto> RdFile ''datafile'', 4 \<mapsto> PipeW 0, 5 \<mapsto> PipeR 1)"
    by (rule ext) (auto simp: fd_simps)
  ultimately show "open_fd n True (RdFile ''datafile'')
        (close_fd 6 (close_fd 3 (std_fds(3 \<mapsto> PipeR 0, 4 \<mapsto> PipeW 0, 5 \<mapsto> PipeR 1, 6 \<mapsto> PipeW 1))))
      = (Inr 3, std_fds(3 \<mapsto> RdFile ''datafile'', 4 \<mapsto> PipeW 0, 5 \<mapsto> PipeR 1))"
    unfolding t1 by (simp add: open_fd_def)
  show "close_fd 4 (close_fd 3 (std_fds(3 \<mapsto> RdFile ''datafile'', 4 \<mapsto> PipeW 0, 5 \<mapsto> PipeR 1))) = std_fds(5 \<mapsto> PipeR 1)"
    by (rule ext) (auto simp: fd_simps)
qed

section \<open>\<open>fsort\<close> from the standard descriptors\<close>

abbreviation fsort_start :: io where
  "fsort_start \<equiv> \<lparr>io_file = [], io_pipes = (\<lambda>k. []), io_out = []\<rparr>"

abbreviation both_pipes :: fdtable where
  "both_pipes \<equiv> std_fds(3 \<mapsto> PipeR 0, 4 \<mapsto> PipeW 0, 5 \<mapsto> PipeR 1, 6 \<mapsto> PipeW 1)"

abbreviation sort_fds :: fdtable where
  "sort_fds \<equiv> [0 \<mapsto> PipeR 0, 1 \<mapsto> PipeW 1, 2 \<mapsto> Std 2]"

lemma std_int: "std_fds (int d) = Some f \<longleftrightarrow> (d = 0 \<and> f = Std 0 \<or> d = 1 \<and> f = Std 1 \<or> d = 2 \<and> f = Std 2)"
  by (auto simp: std_fds_def)

text \<open>The ends that are open in the parent while it sends and while it reads, and in the child.\<close>

lemma open_ends:
  assumes "7 \<le> n"
  shows "\<not> is_open_in n [std_fds(3 \<mapsto> RdFile f, 4 \<mapsto> PipeW 0, 5 \<mapsto> PipeR 1)] (PipeR 0)"
    and "is_open_in n [std_fds(3 \<mapsto> RdFile f, 4 \<mapsto> PipeW 0, 5 \<mapsto> PipeR 1), sort_fds] (PipeR 0)"
    and "\<not> is_open_in n [std_fds(5 \<mapsto> PipeR 1)] (PipeW 1)"
    and "\<not> is_open_in n [sort_fds, std_fds(5 \<mapsto> PipeR 1)] (PipeW 0)"
    and "is_open_in n [sort_fds, std_fds(5 \<mapsto> PipeR 1)] (PipeR 1)"
  using assms by (auto simp: is_open_in_Cons std_int intro: exI [of _ 0] exI [of _ 5] split: if_splits)

lemma sort_child_std:
  assumes "7 \<le> n" and "io_pipes u 1 = []"
  shows "sort_child n f sort_fds (std_fds(5 \<mapsto> PipeR 1)) u
    = ([], u\<lparr>io_pipes := (io_pipes u)(0 := [], 1 := f (io_pipes u 0))\<rparr>)"
proof -
  have "put_io n [std_fds(5 \<mapsto> PipeR 1)] sort_fds STDOUT_FILENO s v
      = Some (v\<lparr>io_pipes := (io_pipes v)(1 := io_pipes v 1 @ s)\<rparr>)" for s v
    using open_ends(5) [OF assms(1)] by (simp add: put_io_def)
  then show ?thesis
    using open_ends(4) [OF assms(1)] assms(2) by (simp add: sort_child_def Let_def)
qed

lemma fsort_rest_sorted:
  assumes "7 \<le> n"
  shows "\<exists>v. fsort_rest n (3, 4) (5, 6) (Some content) [sort_fds] (sort_child n f sort_fds) both_pipes fsort_start
      = Finished (std_fds(5 \<mapsto> PipeR 1)) v \<and> io_out v = f content"
proof -
  let ?t2 = "std_fds(3 \<mapsto> RdFile ''datafile'', 4 \<mapsto> PipeW 0, 5 \<mapsto> PipeR 1)" and ?t3 = "std_fds(5 \<mapsto> PipeR 1)"
  let ?u1 = "fsort_start\<lparr>io_file := content\<rparr>"
  let ?u2 = "fsort_start\<lparr>io_file := [], io_pipes := (io_pipes fsort_start)(0 := content)\<rparr>"
  let ?u3 = "?u2\<lparr>io_pipes := (io_pipes ?u2)(0 := [], 1 := f content)\<rparr>"
  have 1: "copy_loop n [sort_fds] ?t2 3 4 ?u1 = Some (Copied ?u2)"
    using copy_file_to_pipe [of ?t2 3 "''datafile''" 4 0 n "[sort_fds]" ?u1] open_ends(2) [OF assms] by simp
  have 2: "sort_child n f sort_fds ?t3 ?u2 = ([], ?u3)" using sort_child_std [OF assms, of ?u2 f] by simp
  have 3: "copy_loop n [] ?t3 5 STDOUT_FILENO ?u3
      = Some (Copied (?u3\<lparr>io_pipes := (io_pipes ?u3)(1 := []), io_out := f content\<rparr>))"
    using copy_pipe_to_output [of ?t3 5 1 STDOUT_FILENO STDOUT_FILENO n "[]" ?u3] open_ends(3) [OF assms] by simp
  have d: "(Some content \<noteq> None) = True" by simp
  show ?thesis
    unfolding fsort_rest_def Let_def fst_conv snd_conv d fsort_files_std [OF assms] prod.case fd_of_def sum.case option.case
      1 loop_end.case 2 3 by simp
qed

lemma fsort_rest_alone:
  assumes "7 \<le> n"
  shows "fsort_rest n (3, 4) (5, 6) (Some []) [] (\<lambda>p v. ([], v)) both_pipes fsort_start
      = Finished (std_fds(5 \<mapsto> PipeR 1)) fsort_start"
    and "content \<noteq> [] \<Longrightarrow> fsort_rest n (3, 4) (5, 6) (Some content) [] (\<lambda>p v. ([], v)) both_pipes fsort_start = Signalled_by_pipe"
proof -
  let ?t2 = "std_fds(3 \<mapsto> RdFile ''datafile'', 4 \<mapsto> PipeW 0, 5 \<mapsto> PipeR 1)" and ?t3 = "std_fds(5 \<mapsto> PipeR 1)"
  have d: "(Some c \<noteq> None) = True" for c :: string by simp
  have 1: "copy_loop n [] ?t2 3 4 (fsort_start\<lparr>io_file := []\<rparr>) = Some (Copied fsort_start)"
    using copy_empty_file [of ?t2 3 "''datafile''" fsort_start] by simp
  have 2: "copy_loop n [] ?t3 5 STDOUT_FILENO fsort_start = Some (Copied fsort_start)"
    using copy_pipe_to_output [of ?t3 5 1 STDOUT_FILENO STDOUT_FILENO n "[]" fsort_start] open_ends(3) [OF assms]
    by (simp add: fun_upd_idem)
  show "fsort_rest n (3, 4) (5, 6) (Some []) [] (\<lambda>p v. ([], v)) both_pipes fsort_start
      = Finished (std_fds(5 \<mapsto> PipeR 1)) fsort_start"
    unfolding fsort_rest_def Let_def fst_conv snd_conv d fsort_files_std [OF assms] prod.case fd_of_def sum.case option.case
      1 loop_end.case 2 by simp
  assume c: "content \<noteq> []"
  have 3: "copy_loop n [] ?t2 3 4 (fsort_start\<lparr>io_file := content\<rparr>) = Some Sigpipe"
    using copy_file_sigpipe [of ?t2 3 "''datafile''" 4 0 n "[]" "fsort_start\<lparr>io_file := content\<rparr>"] open_ends(1) [OF assms] c by simp
  show "fsort_rest n (3, 4) (5, 6) (Some content) [] (\<lambda>p v. ([], v)) both_pipes fsort_start = Signalled_by_pipe"
    unfolding fsort_rest_def Let_def fst_conv snd_conv d fsort_files_std [OF assms] prod.case fd_of_def sum.case option.case
      3 loop_end.case ..
qed

text \<open>A file that cannot be opened, and a child that cannot execute the program: the loops spin.\<close>

lemma fsort_rest_missing:
  "t (- 1) = None \<Longrightarrow> fsort_rest n (3, 4) (5, 6) None ts mw t u = Stuck"
proof -
  assume "t (- 1) = None"
  then have "read_fails (close_fd 6 (close_fd 3 t)) (- 1)" by (intro read_failsI) (simp add: fd_simps)
  from copy_loop_spins [OF this] show ?thesis by (simp add: fsort_rest_def open_fd_def fd_of_def)
qed

lemma copy_loop_no_sigpipe:
  "copy_loop n ts t src dst u = Some e \<Longrightarrow> \<forall>k. t dst \<noteq> Some (PipeW k) \<Longrightarrow> e \<noteq> Sigpipe"
proof (induction rule: copy_loop.raw_induct [rotated 1, consumes 1, case_names step])
  case (step loop n ts t src dst u e)
  note IH = step(1)
  have w: "write_io n ts t dst c m v \<noteq> None" for c m v
    using step(3) by (auto simp: write_io_def put_io_def split: option.splits ofile.splits)
  have "loop n ts t src dst v = Some e \<Longrightarrow> e \<noteq> Sigpipe" for v
    using IH step(3) by blast
  with step(2) w show ?case by (auto simp del: not_None_eq split: option.splits prod.splits if_splits)
qed

lemma fsort_rest_child:
  "fsort_rest n (3, 4) (5, 6) datafile ts (\<lambda>p v. (ts, v)) sort_fds u = Stuck"
proof -
  have c1: "close_fd 6 (close_fd 3 sort_fds) = sort_fds" by (rule ext) (auto simp: fd_simps)
  obtain r t2 where o: "open_fd n (datafile \<noteq> None) (RdFile ''datafile'') sort_fds = (r, t2)" by fastforce
  have t2: "\<forall>k. t2 4 \<noteq> Some (PipeW k)" "close_fd 4 (close_fd (fd_of r) t2) 5 = None"
    using o by (auto simp: open_fd_def fd_of_def fd_simps split: if_splits option.splits)
  have f: "read_fails (close_fd 4 (close_fd (fd_of r) t2)) 5" using t2(2) by (intro read_failsI) simp
  note s = copy_loop_spins [OF f, of n ts STDOUT_FILENO]
  show ?thesis
    unfolding fsort_rest_def Let_def fst_conv snd_conv c1 o prod.case s option.case
    using copy_loop_no_sigpipe [of n ts t2 "fd_of r" 4, OF _ t2(1)]
    by (auto split: option.split loop_end.split)
qed

section \<open>The properties\<close>

text \<open>
C25: \<open>fsort\<close> prints what the sort program makes of the whole data file, whatever its length: its child runs with
the read end of the first pipe as input, the write end of the second as output and no other end
open, and when the parent reads from the child no process but the child can still write to either
pipe, so both see the end of their input.  When \<open>fork\<close> fails the program goes on as the parent and is killed at its
first write, unless the file is empty.
\<close>

theorem fsort_prints_sorted_file:
  assumes "7 \<le> nofile"
  shows "(\<exists>child parent. fsort nofile (Some content) True True sort_program std_fds = Sorted child parent (sort_program content)
     \<and> child = [0 \<mapsto> PipeR 0, 1 \<mapsto> PipeW 1, 2 \<mapsto> Std 2]
     \<and> (\<forall>d k. parent d \<noteq> Some (PipeW k)) \<and> (\<forall>d. child d \<noteq> Some (PipeW 0)))
     \<and> fsort nofile (Some content) False execed sort_program std_fds = (if content = [] then Alone (std_fds(5 \<mapsto> PipeR 1)) [] else Killed)"
proof -
  note std = fsort_pipes_std [OF assms]
  have alone: "fsort nofile (Some content) False execed sort_program std_fds
      = (if content = [] then Alone (std_fds(5 \<mapsto> PipeR 1)) [] else Killed)"
  proof (cases "content = []")
    case True
    then show ?thesis
      using fsort_rest_alone(1) [OF assms] unfolding fsort_def std by (simp add: Let_def del: One_nat_def)
  next
    case False
    then show ?thesis
      using fsort_rest_alone(2) [OF assms False] unfolding fsort_def std by (simp add: Let_def del: One_nat_def)
  qed
  have "fsort nofile (Some content) True True sort_program std_fds
      = Sorted [0 \<mapsto> PipeR 0, 1 \<mapsto> PipeW 1, 2 \<mapsto> Std 2] (std_fds(5 \<mapsto> PipeR 1)) (sort_program content)"
  proof -
    obtain v where v: "fsort_rest nofile (3, 4) (5, 6) (Some content) [sort_fds] (sort_child nofile sort_program sort_fds) both_pipes fsort_start
      = Finished (std_fds(5 \<mapsto> PipeR 1)) v" "io_out v = sort_program content"
      using fsort_rest_sorted [OF assms] by blast
    then show ?thesis unfolding fsort_def std by (simp add: fsort_child_std Let_def del: One_nat_def)
  qed
  with alone show ?thesis by (auto simp: std_fds_def)
qed

lemma fsort_prints_sorted_file_witness:
  "\<exists>child parent. fsort 7 (Some ''b a'') True True rev std_fds = Sorted child parent ''a b''
     \<and> child = [0 \<mapsto> PipeR 0, 1 \<mapsto> PipeW 1, 2 \<mapsto> Std 2]
     \<and> (\<forall>d k. parent d \<noteq> Some (PipeW k)) \<and> (\<forall>d. child d \<noteq> Some (PipeW 0))"
  using fsort_prints_sorted_file [of 7 "''b a''" rev] by simp

text \<open>
C38: \<open>fsort\<close> never ends when the data file is missing, or when the sort program cannot be executed: -1 from \<open>read\<close>
is not the end of the copying loop, which goes on with a \<open>write\<close> of 2^64 - 1 characters that moves nothing
(as on Linux) and reads again.  In the first case the parent spins; in the second the child, which
goes on like its parent, whatever is in the file.
\<close>

theorem fsort_never_ends:
  assumes "7 \<le> nofile" and "datafile = None \<or> forked \<and> \<not> execed"
  shows "fsort nofile datafile forked execed sort_program std_fds = NeverEnds"
proof (cases "execed \<or> \<not> forked")
  case True
  with assms(2) have d: "datafile = None" by blast
  have "fsort_rest nofile (3, 4) (5, 6) None ts mw both_pipes u = Stuck" for ts mw u
    by (rule fsort_rest_missing) simp
  with True show ?thesis
    unfolding d fsort_def fsort_pipes_std [OF assms(1)] by (cases forked) (simp_all add: Let_def del: One_nat_def)
next
  case False
  then show ?thesis
    using fsort_rest_child unfolding fsort_def fsort_pipes_std [OF assms(1)]
    by (simp add: Let_def fsort_child_std del: One_nat_def)
qed

lemma fsort_never_ends_witness: "fsort 7 None True True rev std_fds = NeverEnds"
  by (rule fsort_never_ends) simp_all

text \<open>
C31: The descriptor that \<open>pipe.c\<close> passes to \<open>pread.c\<close> as text arrives: the program it executes converts it back
to the number of the pipe's read end, which it inherited without the write end, and reports the six
characters the parent wrote.  When \<open>fork\<close> fails the program executes \<open>pread\<close> in its own place, and this reports the end
of the file.
\<close>

theorem pipe_reaches_pread:
  assumes "5 \<le> nofile"
  shows "(\<exists>tc argv tp k'. pipe_main nofile True True late std_fds (\<lambda>n. []) = Some ([(tc, argv)], [tp], k')
     \<and> atoi (argv ! 1) = 3 \<and> (\<forall>d n. tc d \<noteq> Some (PipeW n)) \<and> (\<forall>d n. tp d \<noteq> Some (PipeR n))
     \<and> pread_main argv tc k' =
         Some (''reading file descriptor 3'' @ [NL] @ ''read 6 bytes: hello'' @ [NL]))
     \<and> (\<exists>tc argv k'. pipe_main nofile False True late std_fds (\<lambda>n. []) = Some ([(tc, argv)], [], k')
     \<and> pread_main argv tc k' = Some (''reading file descriptor 3'' @ [NL] @ ''EOF'' @ [NL]))"
proof -
  let ?t = "std_fds(3 \<mapsto> PipeR 0, 4 \<mapsto> PipeW 0)"
  have s: "show_int 3 = ''3''" "show_nat 6 = ''6''" by code_simp+
  have a: "atoi (snprintf 10 ''3'') = 3" by code_simp
  let ?tc = "close_fd 4 ?t" and ?tp = "close_fd 3 ?t"
  let ?k = "write_fd ?tp 4 hello (\<lambda>n. [])"
  have m: "pipe_main nofile True True late std_fds (\<lambda>n. []) = Some ([(?tc, [''piperead'', snprintf 10 ''3''])], [?tp], ?k)"
    "pipe_main nofile False True late std_fds (\<lambda>n. []) = Some ([(?tc, [''piperead'', snprintf 10 ''3''])], [], \<lambda>n. [])"
    using pipe_std [OF assms, of 0]
    by (simp_all add: pipe_main_def pipewrite_def pipewrite_child_def pipewrite_parent_def Let_def s)
  have r: "fst (read_fd ?tc 3 100 ?k) = Some hello"
    by (simp add: read_fd_def write_fd_def fd_simps hello_def)
  have h: "length hello = 6" "hello \<noteq> []" "cstr (map Some hello @ uninit (100 - 6)) = Some ''hello''" by code_simp+
  have "report_read (Some hello) = Some (''read 6 bytes: hello'' @ [NL])"
    unfolding report_read_def option.case h(1,3) s using h(2) by simp
  with r have "pread_main [''piperead'', snprintf 10 ''3''] ?tc ?k =
      Some (''reading file descriptor 3'' @ [NL] @ ''read 6 bytes: hello'' @ [NL])"
    by (simp add: pread_main_def a s)
  moreover have "\<forall>d n. ?tc d \<noteq> Some (PipeW n)" "\<forall>d n. ?tp d \<noteq> Some (PipeR n)"
    by (auto simp: fd_simps std_fds_def)
  moreover have "pread_main [''piperead'', snprintf 10 ''3''] ?tc (\<lambda>n. []) =
      Some (''reading file descriptor 3'' @ [NL] @ ''EOF'' @ [NL])"
    by (simp add: pread_main_def a s read_fd_def fd_simps report_read_def)
  ultimately show ?thesis unfolding m using a by (auto simp del: fun_upd_apply)
qed

lemma pipe_reaches_pread_witness:
  "(let late = False in
     \<exists>tc argv tp k'. pipe_main 64 True True late std_fds (\<lambda>n. []) = Some ([(tc, argv)], [tp], k')
     \<and> atoi (argv ! 1) = 3 \<and> (\<forall>d n. tc d \<noteq> Some (PipeW n)) \<and> (\<forall>d n. tp d \<noteq> Some (PipeR n))
     \<and> pread_main argv tc k' =
         Some (''reading file descriptor 3'' @ [NL] @ ''read 6 bytes: hello'' @ [NL]))"
  unfolding Let_def using pipe_reaches_pread [of 64 False] by simp

text \<open>
\<open>who_count.c\<close> connects its programs and only them: when forks and executions succeed, \<open>ls\<close> writes to the pipe
and \<open>wc\<close> reads from it, no other end of it is open in either or in the parent (so \<open>wc\<close> sees the
end), and exactly one process goes on.
\<close>

theorem who_main_connects:
  assumes "5 \<le> nofile"
  shows "who_main nofile True True True True std_fds =
     Some ([([''ls''], [0 \<mapsto> Std 0, 1 \<mapsto> PipeW 0, 2 \<mapsto> Std 2]), ([''wc'', ''-l''], [0 \<mapsto> PipeR 0, 1 \<mapsto> Std 1, 2 \<mapsto> Std 2])],
           [std_fds])"
proof -
  let ?t = "std_fds(3 \<mapsto> PipeR 0, 4 \<mapsto> PipeW 0)"
  have "ls_fds 3 4 ?t = [0 \<mapsto> Std 0, 1 \<mapsto> PipeW 0, 2 \<mapsto> Std 2]" "wc_fds 3 4 ?t = [0 \<mapsto> PipeR 0, 1 \<mapsto> Std 1, 2 \<mapsto> Std 2]"
    "close_fd 4 (close_fd 3 ?t) = std_fds"
    by (auto simp: ls_fds_def wc_fds_def fd_simps std_fds_def fun_eq_iff)
  then show ?thesis
    using pipe_std [OF assms, of 0] by (simp add: who_main_def who_switch_def)
qed

lemma who_main_connects_witness:
  "\<exists>ps. who_main 64 True True True True std_fds = Some (ps, [std_fds]) \<and> length ps = 2"
  using who_main_connects [of 64] by simp

end
