(* ===== verification/Networks.thy ===== *)
theory Networks
  imports PipeChain Pipes
begin

text \<open>
  \<open>who_count.c\<close> and \<open>fsort.c\<close> as processes that run at the same time: the tables are those their code makes
  (\<open>who_main\<close>, \<open>fsort_pipes\<close>, \<open>fsort_child\<close>), the rows are those of \<open>PipeChain\<close>.
\<close>

section \<open>\<open>who_count.c\<close>\<close>

text \<open>What the programs are is an argument: a program started with arguments is a process in some state.\<close>

definition started :: "(string list \<Rightarrow> pstate) \<Rightarrow> string list \<times> fdtable \<Rightarrow> proc" where
  "started prog a = \<lparr>pr_fds = snd a, pr_in = STDIN_FILENO, pr_out = STDOUT_FILENO, pr_state = prog (fst a)\<rparr>"

text \<open>
C24: \<open>who_count.c\<close> gives what \<open>wc -l\<close> makes of what \<open>ls\<close> writes.  When its forks and executions succeed, the two programs
run at the same time beside the parent, which has closed both ends of the pipe: whatever they are, however they divide their work and
however little the pipe holds, every run ends, with both gone and with \<open>wc\<close>'s output for all of \<open>ls\<close>'s output on the
standard output.
\<close>

theorem who_count_counts:
  assumes "5 \<le> nofile" and "1 \<le> cap" and "\<forall>argv. \<not> gone (prog argv)"
  shows "\<exists>ps others. who_main nofile True True True True std_fds = Some (ps, others)
    \<and> always_ends (net_step cap others) (start_net (map (started prog) ps) files)
       (\<lambda>t. all_gone t \<and> nt_sinks t (Std 1) = flow (prog [''wc'', ''-l'']) (flow (prog [''ls'']) (files (Std 0))))"
proof -
  let ?ps = "[([''ls''], [0 \<mapsto> Std 0, 1 \<mapsto> PipeW 0, 2 \<mapsto> Std 2]), ([''wc'', ''-l''], [0 \<mapsto> PipeR 0, 1 \<mapsto> Std 1, 2 \<mapsto> Std 2])]"
  let ?s = "start_net (map (started prog) ?ps) files"
  let ?inp = "\<lambda>i. if i = 0 then Std 0 else PipeR 0" and ?dst = "\<lambda>i. if i = 0 then PipeW 0 else Std 1"
  have r: "row 2 ?inp ?dst" by (auto simp: row_def inj_on_def is_source_def is_sink_def less_2_cases_iff)
  have s: "in_row 2 ?inp ?dst ?s" using assms(3) by (auto simp: in_row_def started_def less_2_cases_iff)
  have t: "tidy 2 ?dst [std_fds] ?s"
    by (auto simp: tidy_def started_def less_2_cases_iff std_fds_def ran_def split: if_splits)
  show ?thesis
    using started_row_ends [OF r s t assms(2)] who_main_connects [OF assms(1)]
    by (intro exI [of _ ?ps] exI [of _ "[std_fds]"]) (simp add: composed_def started_def)
qed

lemma who_count_counts_witness:
  "\<exists>ps others. who_main 64 True True True True std_fds = Some (ps, others)
    \<and> always_ends (net_step 1 others)
       (start_net (map (started (\<lambda>argv. if argv = [''ls''] then Flushes (''a b'' @ [NL]) else Works (show_nat \<circ> length) [])) ps) (\<lambda>f. []))
       (\<lambda>t. all_gone t \<and> nt_sinks t (Std 1) = show_nat 4)"
  using who_count_counts [of 64 1 "\<lambda>argv. if argv = [''ls''] then Flushes (''a b'' @ [NL]) else Works (show_nat \<circ> length) []" "\<lambda>f. []"]
  by (simp add: numeral_eq_Suc)

section \<open>\<open>fsort.c\<close>\<close>

text \<open>
  The parent is two processes of the network, one after the other: it copies the data file to the first pipe with the
  table it has then, and what comes on the second pipe to its standard output with the table it has
  afterwards.  The child is a program that reads everything before it writes.
\<close>

definition fsort_net :: "nat \<Rightarrow> (ofile \<Rightarrow> string) \<Rightarrow> (string \<Rightarrow> string) \<Rightarrow> fdtable \<Rightarrow> net option" where
  "fsort_net nofile files sort_program t =
     (case fsort_pipes nofile t of
        None \<Rightarrow> None
      | Some ((pfdout, pfdin), t2) \<Rightarrow>
          (let (r, t3) = open_fd nofile True (RdFile ''datafile'') (close_fd (snd pfdin) (close_fd (fst pfdout) t2));
               d = fd_of r
           in Some (start_net
                [\<lparr>pr_fds = t3, pr_in = d, pr_out = snd pfdout, pr_state = Works (\<lambda>x. x) []\<rparr>,
                 \<lparr>pr_fds = fsort_child pfdout pfdin t2, pr_in = STDIN_FILENO, pr_out = STDOUT_FILENO,
                  pr_state = Gathers sort_program []\<rparr>,
                 \<lparr>pr_fds = close_fd (snd pfdout) (close_fd d t3), pr_in = fst pfdin, pr_out = STDOUT_FILENO,
                  pr_state = Works (\<lambda>x. x) []\<rparr>] files)))"

text \<open>The parent reads only when it has sent everything.\<close>

definition fsort_step :: "nat \<Rightarrow> net \<Rightarrow> net \<Rightarrow> bool" where
  "fsort_step cap s t \<longleftrightarrow> (\<exists>i. net_move cap [] i s t \<and> (i = 2 \<longrightarrow> state_at s 0 = Done))"

abbreviation fsort_inp :: "nat \<Rightarrow> ofile" where
  "fsort_inp i \<equiv> (if i = 0 then RdFile ''datafile'' else PipeR (i - 1))"

abbreviation fsort_dst :: "nat \<Rightarrow> ofile" where
  "fsort_dst i \<equiv> (if i = 2 then Std 1 else PipeW i)"

definition fsort_tables :: "fdtable list" where
  "fsort_tables = [std_fds(3 \<mapsto> RdFile ''datafile'', 4 \<mapsto> PipeW 0, 5 \<mapsto> PipeR 1),
     [0 \<mapsto> PipeR 0, 1 \<mapsto> PipeW 1, 2 \<mapsto> Std 2], std_fds(5 \<mapsto> PipeR 1)]"

lemma less_3: "(i :: nat) < 3 \<longleftrightarrow> i = 0 \<or> i = 1 \<or> i = 2"
  by auto

lemma fsort_row: "row 3 fsort_inp fsort_dst"
  by (auto simp: row_def inj_on_def is_source_def is_sink_def less_3)

lemma fsort_net_std:
  assumes "7 \<le> nofile"
  shows "fsort_net nofile files f std_fds = Some (start_net
     [\<lparr>pr_fds = fsort_tables ! 0, pr_in = 3, pr_out = 4, pr_state = Works (\<lambda>x. x) []\<rparr>,
      \<lparr>pr_fds = fsort_tables ! 1, pr_in = 0, pr_out = 1, pr_state = Gathers f []\<rparr>,
      \<lparr>pr_fds = fsort_tables ! 2, pr_in = 5, pr_out = 1, pr_state = Works (\<lambda>x. x) []\<rparr>] files)"
proof -
  have "fsort_tables ! 0 = std_fds(3 \<mapsto> RdFile ''datafile'', 4 \<mapsto> PipeW 0, 5 \<mapsto> PipeR 1)"
    "fsort_tables ! 1 = [0 \<mapsto> PipeR 0, 1 \<mapsto> PipeW 1, 2 \<mapsto> Std 2]" "fsort_tables ! 2 = std_fds(5 \<mapsto> PipeR 1)"
    by (simp_all add: fsort_tables_def)
  then show ?thesis
    unfolding fsort_net_def fsort_pipes_std [OF assms] option.case prod.case fst_conv snd_conv fsort_files_std [OF assms] Let_def fd_of_def
      sum.case fsort_child_std
    by simp
qed

text \<open>As long as the parent sends, the child gathers.\<close>

definition fsort_inv :: "net \<Rightarrow> bool" where
  "fsort_inv s \<longleftrightarrow> in_row 3 fsort_inp fsort_dst s \<and> state_at s 0 \<noteq> Signalled
     \<and> (\<forall>i<3. pr_fds (proc_at s i) = fsort_tables ! i \<or> pr_fds (proc_at s i) = Map.empty)
     \<and> (gone (state_at s 0) \<or> (\<exists>f a. state_at s 1 = Gathers f a))"

lemma fsort_inv_step:
  assumes s: "fsort_inv s" and st: "fsort_step cap s t"
  shows "fsort_inv t"
proof -
  obtain i where m: "net_move cap [] i s t" and i2: "i = 2 \<longrightarrow> state_at s 0 = Done" using st by (auto simp: fsort_step_def)
  have r: "in_row 3 fsort_inp fsort_dst s" using s by (simp add: fsort_inv_def)
  have row: "in_row 3 fsort_inp fsort_dst t" using row_move(1) [OF fsort_row r m] .
  have n: "length (nt_procs s) = 3" using r by (simp add: in_row_def)
  have tab: "\<forall>j<3. pr_fds (proc_at t j) = fsort_tables ! j \<or> pr_fds (proc_at t j) = Map.empty"
    using s move_tables(2) [OF m] unfolding fsort_inv_def by metis
  have live1: "is_open [] s (PipeR 0)" if "\<not> gone (state_at s 0)"
    using s that in_row_live(3) [OF r, of 1 "[]"] by (auto simp: fsort_inv_def)
  have live0: "is_open [] s (PipeW 0)" if "\<not> gone (state_at s 0)"
    using that in_row_live(4) [OF r, of 0 "[]"] by simp
  have "state_at t 0 \<noteq> Signalled \<and> (gone (state_at t 0) \<or> (\<exists>f a. state_at t 1 = Gathers f a))"
  proof (cases "gone (state_at s 0)")
    case True
    have "i \<noteq> 0" using move_not_gone [OF m] True by metis
    then show ?thesis using True s move_tables(3) [OF m, of 0] by (simp add: fsort_inv_def)
  next
    case False
    then obtain f a where g: "state_at s 1 = Gathers f a" using s by (auto simp: fsort_inv_def)
    have "i \<noteq> 2" using False i2 by auto
    moreover have "i < 3" using m n by cases auto
    ultimately consider "i = 0" | "i = 1" by linarith
    then show ?thesis
    proof cases
      case 1
      have w: "writes_to s 0 = Some (PipeW 0)" using in_row_live(2) [OF r _ False] by simp
      have "state_at t 0 \<noteq> Signalled"
        using m w False live1 [OF False] n unfolding 1 by cases (auto elim: takesE stopsE simp: at_eof_cases gone_def)
      then show ?thesis using move_tables(3) [OF m, of 1] 1 g by simp
    next
      case 2
      have w: "reads_from s 1 = Some (PipeR 0)" using in_row_live(1) [OF r, of 1] g by simp
      have "\<exists>f a. state_at t 1 = Gathers f a"
        using m w live0 [OF False] n g unfolding 2 by cases (auto elim: takesE stopsE simp: at_end_def)
      then show ?thesis using move_tables(3) [OF m, of 0] 2 False by (auto simp: gone_def)
    qed
  qed
  with row tab show ?thesis by (simp add: fsort_inv_def)
qed

lemma fsort_tidy:
  assumes s: "fsort_inv s" and "gone (state_at s 0)"
  shows "tidy 3 fsort_dst [] s"
proof -
  have e: "pr_fds (proc_at s 0) = Map.empty" using assms by (simp add: fsort_inv_def in_row_def)
  have t: "pr_fds (proc_at s 1) = fsort_tables ! 1 \<or> pr_fds (proc_at s 1) = Map.empty"
    "pr_fds (proc_at s 2) = fsort_tables ! 2 \<or> pr_fds (proc_at s 2) = Map.empty"
    using s by (simp_all add: fsort_inv_def)
  have "PipeW k \<notin> ran (fsort_tables ! 2)" "PipeW 0 \<notin> ran (fsort_tables ! 1)" "PipeR 1 \<notin> ran (fsort_tables ! 1)" "PipeR 0 \<notin> ran (fsort_tables ! 2)" for k
    by (auto simp: fsort_tables_def ran_def std_fds_def split: if_splits)
  with e t show ?thesis by (auto simp: tidy_def less_3)
qed

lemma fsort_progress:
  assumes s: "fsort_inv s" and cap: "1 \<le> cap" and g: "\<not> all_gone s"
  shows "\<exists>t. fsort_step cap s t"
proof (cases "gone (state_at s 0)")
  case True
  have r: "in_row 3 fsort_inp fsort_dst s" using s by (simp add: fsort_inv_def)
  obtain j where "j < 3" "\<not> gone (state_at s j)" using g r by (auto simp: all_gone_def in_row_def in_set_conv_nth)
  then show ?thesis
    using row_no_deadlock [OF fsort_row r fsort_tidy [OF s True] cap] True s by (auto simp: fsort_step_def net_step_def fsort_inv_def gone_def)
next
  case False
  have r: "in_row 3 fsort_inp fsort_dst s" using s by (simp add: fsort_inv_def)
  then have n: "0 < length (nt_procs s)" "1 < length (nt_procs s)" by (simp_all add: in_row_def)
  obtain f a where a: "state_at s 1 = Gathers f a" using False s by (auto simp: fsort_inv_def)
  then have live: "reads_from s 0 = Some (RdFile ''datafile'')" "writes_to s 0 = Some (PipeW 0)" "reads_from s 1 = Some (PipeR 0)"
    "is_open [] s (PipeR 0)"
    using in_row_live [OF r, of 0] in_row_live [OF r, of 1] False by simp_all
  have "\<exists>t. net_move cap [] 0 s t \<or> net_move cap [] 1 s t"
    using False
  proof (rule not_gone_cases)
    assume w: "to_write (state_at s 0) \<noteq> []"
    show ?thesis
    proof (cases "nt_pipes s 0 = []")
      case True
      then have "accepts cap [] s (PipeW 0) [hd (to_write (state_at s 0))]" using live cap by (simp add: accepts_def is_sink_def)
      then show ?thesis using can_write [OF n(1) w live(2)] by blast
    next
      case False
      then have "content s (PipeR 0) \<noteq> []" by (simp add: content_def)
      then show ?thesis using can_read [OF n(2) _ live(3)] a by (auto simp: is_source_def)
    qed
  next
    assume w: "at_eof (state_at s 0) \<noteq> None"
    show ?thesis using can_read [OF n(1) w live(1)] by (auto simp: is_source_def at_end_def)
  next
    assume "state_at s 0 = Flushes []"
    then show ?thesis using m_exit [OF n(1)] by blast
  qed
  then obtain j t where "net_move cap [] j s t" "j \<noteq> 2" by fastforce
  then show ?thesis unfolding fsort_step_def by blast
qed

interpretation sorting: ranked_system "fsort_step cap"
  "\<lambda>t. fsort_inv t \<and> outcome 3 fsort_inp fsort_dst t = x" "row_rank 3 fsort_inp" for cap x
proof unfold_locales
  fix t u
  assume t: "fsort_inv t \<and> outcome 3 fsort_inp fsort_dst t = x" and st: "fsort_step cap t u"
  then obtain i where "net_move cap [] i t u" by (auto simp: fsort_step_def)
  from row_move [OF fsort_row _ this] fsort_inv_step [OF _ st] t
  show "fsort_inv u \<and> outcome 3 fsort_inp fsort_dst u = x" "row_rank 3 fsort_inp u < row_rank 3 fsort_inp t"
    by (simp_all add: fsort_inv_def)
qed

text \<open>
C11: \<open>fsort\<close> never deadlocks.  The parent writes the whole file before it reads a line back, over a pipe of any capacity, and does
not get stuck because the sort program gathers its input: every run of parent and child ends, the parent is not killed, and it has
copied what the sort program makes of the whole file to its standard output.
\<close>

theorem fsort_always_ends:
  assumes "7 \<le> nofile" and "1 \<le> cap"
  shows "\<exists>s. fsort_net nofile files sort_program std_fds = Some s
     \<and> always_ends (fsort_step cap) s
         (\<lambda>t. all_gone t \<and> state_at t 0 = Done \<and> nt_sinks t (Std 1) = sort_program (files (RdFile ''datafile'')))"
proof -
  let ?s = "the (fsort_net nofile files sort_program std_fds)"
  note s = fsort_net_std [OF assms(1), of files sort_program]
  let ?Q = "\<lambda>t. fsort_inv t \<and> outcome 3 fsort_inp fsort_dst t = sort_program (files (RdFile ''datafile''))"
  have r: "in_row 3 fsort_inp fsort_dst ?s"
    unfolding s option.sel by (simp add: in_row_def less_3 fsort_tables_def numeral_2_eq_2)
  have "fsort_inv ?s"
    using r unfolding s option.sel fsort_inv_def by (simp add: less_3 numeral_2_eq_2)
  moreover have "outcome 3 fsort_inp fsort_dst ?s = sort_program (files (RdFile ''datafile''))"
    unfolding s option.sel by (subst start_outcome [OF fsort_row]) (simp_all add: composed_def)
  ultimately have q: "?Q ?s" by simp
  have "always_ends (fsort_step cap) ?s (\<lambda>t. all_gone t \<and> state_at t 0 = Done \<and> nt_sinks t (Std 1) = sort_program (files (RdFile ''datafile'')))"
  proof (rule sorting.ends [OF q])
    fix t
    assume t: "?Q t" and "\<nexists>u. fsort_step cap t u"
    then have g: "all_gone t" using fsort_progress assms(2) by blast
    then have "gone (state_at t 2)" "gone (state_at t 0)" using t by (auto simp: all_gone_def fsort_inv_def in_row_def)
    with g t show "all_gone t \<and> state_at t 0 = Done \<and> nt_sinks t (Std 1) = sort_program (files (RdFile ''datafile''))"
      by (simp add: outcome_def states_def fsort_inv_def gone_def [of "state_at t 0"])
  qed
  then show ?thesis using s by auto
qed

lemma fsort_always_ends_witness:
  "\<exists>s. fsort_net 64 (\<lambda>f. ''b a'') rev std_fds = Some s
     \<and> always_ends (fsort_step 1) s (\<lambda>t. all_gone t \<and> state_at t 0 = Done \<and> nt_sinks t (Std 1) = ''a b'')"
  using fsort_always_ends [of 64 1 "\<lambda>f. ''b a''" rev] by simp

end
