(* ===== verification/Logf.thy ===== *)
theory Logf
  imports CLib
begin

text \<open>
  \<open>common/logf.c\<close>: the log file, its path and the switch; \<open>init\<close> and \<open>logfmt\<close> as the mutual recursion
  they are, the other three functions, and what a sequence of calls writes.  That \<open>fcntl\<close> and
  \<open>setbuf\<close> have no visible effect on what is written is assumed, and writes to the open file succeed.
\<close>

section \<open>Formats and the state\<close>

text \<open>
  A format with its string arguments: \<open>%s\<close> takes an argument, \<open>%%\<close> is one percent sign.  Every other
  conversion, or one without an argument, is undefined here (\<open>None\<close>), since the calls in the
  sources pass no argument of another type.
\<close>

fun vformat :: "string \<Rightarrow> string list \<Rightarrow> string option" where
  "vformat [] args = Some []"
| "vformat (c # f) args =
     (if c \<noteq> CHR ''%'' then map_option ((#) c) (vformat f args)
      else case f of
             [] \<Rightarrow> None
           | d # f' \<Rightarrow>
               if d = CHR ''%'' then map_option ((#) d) (vformat f' args)
               else if d = CHR ''s'' then
                 (case args of [] \<Rightarrow> None | a # as \<Rightarrow> map_option ((@) a) (vformat f' as))
               else None)"

text \<open>
  The static variables \<open>logfile\<close> (with the path it was opened by), \<open>logpath\<close> and
  \<open>enable_logging\<close>, what has been appended to each file, and a clock that counts the calls of
  \<open>time\<close>.  The environment says which paths \<open>fopen\<close> can append to, what \<open>strftime\<close> makes of the
  time, and the process id.
\<close>

record logst =
  logfile :: "string option"
  logpath :: string
  enable_logging :: bool
  lg_disk :: "string \<Rightarrow> string"
  lg_clock :: nat

record logenv =
  le_appendable :: "string \<Rightarrow> bool"
  le_timebuf :: "nat \<Rightarrow> string"
  le_pid :: int

datatype logres =
    Logged logst
  | Log_exit string logst   \<comment> \<open>the message on standard error, then \<open>exit (EXIT_FAILURE)\<close>\<close>
  | Log_undefined

definition log_init_state :: logst where
  "log_init_state = \<lparr>logfile = None, logpath = ''/tmp/auplog.tmp'', enable_logging = False,
     lg_disk = (\<lambda>p. []), lg_clock = 0\<rparr>"

definition log_put :: "string \<Rightarrow> logst \<Rightarrow> logst" where
  "log_put t s = (case logfile s of
       None \<Rightarrow> s
     | Some p \<Rightarrow> s\<lparr>lg_disk := (lg_disk s)(p := lg_disk s p @ t)\<rparr>)"

lemma log_put_fields [simp]:
  "logfile (log_put t s) = logfile s" "logpath (log_put t s) = logpath s"
  "enable_logging (log_put t s) = enable_logging s" "lg_clock (log_put t s) = lg_clock s"
  by (simp_all add: log_put_def split: option.splits)

section \<open>The functions of \<open>logf.c\<close>\<close>

text \<open>\<open>init\<close> and \<open>logfmt\<close> call each other; the second call of \<open>init\<close> finds the file open.\<close>

function log_init :: "logenv \<Rightarrow> logst \<Rightarrow> logres"
  and logfmt :: "logenv \<Rightarrow> string \<Rightarrow> string list \<Rightarrow> logst \<Rightarrow> logres" where
  "log_init e s =
     (if logfile s = None then
        if le_appendable e (logpath s) then
          logfmt e ''Log file %s opened'' [logpath s] (log_put [NL] (s\<lparr>logfile := Some (logpath s)\<rparr>))
        else Log_exit (''Can't open logfile '' @ [DQUOTE] @ logpath s @ [DQUOTE, NL]) s
      else Logged s)"
| "logfmt e format args s =
     (if enable_logging s then
        case log_init e s of
          Logged s1 \<Rightarrow>
            (let s2 = log_put (le_timebuf e (lg_clock s1) @ '' ['' @ show_int (le_pid e) @ '']: '')
                        (s1\<lparr>lg_clock := Suc (lg_clock s1)\<rparr>)
             in case vformat format args of
                  None \<Rightarrow> Log_undefined
                | Some t \<Rightarrow> Logged (log_put [NL] (log_put t s2)))
        | r \<Rightarrow> r
      else Logged s)"
  by pat_completeness auto
termination
  by (relation "measure (\<lambda>x. case x of Inl (e, s) \<Rightarrow> (if logfile s = None then 2 else 0)
                                    | Inr (e, f, a, s) \<Rightarrow> (if logfile s = None then 3 else 1))") auto

declare log_init.simps [simp del] logfmt.simps [simp del]

definition logfmt_setpath :: "logenv \<Rightarrow> string \<Rightarrow> logst \<Rightarrow> logres" where
  "logfmt_setpath e path s = log_init e (s\<lparr>logpath := path\<rparr>)"

fun has_l :: "string list \<Rightarrow> bool" where
  "has_l [] = False"
| "has_l (a # as) = (if a = ''-l'' then True else has_l as)"

definition logfmt_args :: "string list \<Rightarrow> logst \<Rightarrow> logst" where
  "logfmt_args argv s = (if has_l (drop 1 argv) then s\<lparr>enable_logging := True\<rparr> else s)"

definition logfmt_enable :: "bool \<Rightarrow> logst \<Rightarrow> logst" where
  "logfmt_enable enable s = s\<lparr>enable_logging := enable\<rparr>"

section \<open>Sequences of calls\<close>

datatype log_op = Op_fmt string "string list" | Op_setpath string | Op_args "string list" | Op_enable bool

fun log_step :: "logenv \<Rightarrow> log_op \<Rightarrow> logst \<Rightarrow> logres" where
  "log_step e (Op_fmt f as) s = logfmt e f as s"
| "log_step e (Op_setpath p) s = logfmt_setpath e p s"
| "log_step e (Op_args as) s = Logged (logfmt_args as s)"
| "log_step e (Op_enable b) s = Logged (logfmt_enable b s)"

fun log_run :: "logenv \<Rightarrow> log_op list \<Rightarrow> logst \<Rightarrow> logres" where
  "log_run e [] s = Logged s"
| "log_run e (c # cs) s = (case log_step e c s of Logged s1 \<Rightarrow> log_run e cs s1 | r \<Rightarrow> r)"

section \<open>The calls once the file is open\<close>

lemma vformat_plain: "CHR ''%'' \<notin> set t \<Longrightarrow> vformat t args = Some t"
  by (induction t) auto

lemma log_init_open [simp]: "logfile s = Some p \<Longrightarrow> log_init e s = Logged s"
  by (simp add: log_init.simps)

text \<open>The line \<open>logfmt\<close> writes.\<close>

definition log_line :: "logenv \<Rightarrow> nat \<Rightarrow> string \<Rightarrow> string" where
  "log_line e n t = le_timebuf e n @ '' ['' @ show_int (le_pid e) @ '']: '' @ t @ [NL]"

lemma logfmt_open:
  assumes "logfile s = Some p" and "enable_logging s" and "vformat f as = Some t"
  shows "logfmt e f as s = Logged (s\<lparr>lg_disk := (lg_disk s)(p := lg_disk s p @ log_line e (lg_clock s) t),
           lg_clock := Suc (lg_clock s)\<rparr>)"
  using assms by (simp add: logfmt.simps [of e f as s] log_put_def log_line_def)

lemma logfmt_disabled: "\<not> enable_logging s \<Longrightarrow> logfmt e f as s = Logged s"
  by (simp add: logfmt.simps)

lemma logfmt_bad_format:
  "logfile s = Some p \<Longrightarrow> enable_logging s \<Longrightarrow> vformat f as = None \<Longrightarrow> logfmt e f as s = Log_undefined"
  by (simp add: logfmt.simps [of e f as s])

lemma vformat_opened: "vformat ''Log file %s opened'' [p] = Some (''Log file '' @ p @ '' opened'')"
  by simp

text \<open>\<open>init\<close> on a file that is not open.\<close>

definition log_opened :: "logenv \<Rightarrow> logst \<Rightarrow> logst" where
  "log_opened e s =
     (let p = logpath s;
          t = [NL] @ (if enable_logging s then log_line e (lg_clock s) (''Log file '' @ p @ '' opened'') else [])
      in s\<lparr>logfile := Some p, lg_disk := (lg_disk s)(p := lg_disk s p @ t),
           lg_clock := (if enable_logging s then Suc (lg_clock s) else lg_clock s)\<rparr>)"

lemma log_init_closed:
  assumes "logfile s = None" and "le_appendable e (logpath s)"
  shows "log_init e s = Logged (log_opened e s)"
proof -
  let ?s = "log_put [NL] (s\<lparr>logfile := Some (logpath s)\<rparr>)"
  have "log_init e s = logfmt e ''Log file %s opened'' [logpath s] ?s"
    using assms by (simp add: log_init.simps)
  also have "\<dots> = Logged (log_opened e s)"
  proof (cases "enable_logging s")
    case True
    then show ?thesis
      by (subst logfmt_open [where p = "logpath s", OF _ _ vformat_opened])
         (simp_all add: log_opened_def log_put_def Let_def)
  next
    case False
    then show ?thesis by (simp add: logfmt_disabled log_opened_def log_put_def Let_def)
  qed
  finally show ?thesis .
qed

lemma log_init_cannot:
  "logfile s = None \<Longrightarrow> \<not> le_appendable e (logpath s) \<Longrightarrow>
   log_init e s = Log_exit (''Can't open logfile '' @ [DQUOTE] @ logpath s @ [DQUOTE, NL]) s"
  by (simp add: log_init.simps)

lemmas log_init_cases = log_init_open log_init_closed log_init_cannot

lemma logfmt_closed:
  assumes "logfile s = None" and "enable_logging s"
  shows "logfmt e f as s = (if le_appendable e (logpath s) then logfmt e f as (log_opened e s)
                            else log_init e s)"
proof (cases "le_appendable e (logpath s)")
  case True
  have "logfile (log_opened e s) = Some (logpath s)" "enable_logging (log_opened e s)"
    using assms by (simp_all add: log_opened_def Let_def)
  with assms True show ?thesis
    by (simp add: logfmt.simps [of e f as s] logfmt.simps [of e f as "log_opened e s"] log_init_closed)
next
  case False
  with assms show ?thesis by (simp add: logfmt.simps [of e f as s] log_init_cannot)
qed

section \<open>What a sequence of calls writes\<close>

text \<open>
  The specification: one line for every \<open>logfmt\<close> while logging is enabled; \<open>logfmt_setpath\<close> has no
  part in it once the file is open.
\<close>

fun log_lines :: "logenv \<Rightarrow> nat \<Rightarrow> bool \<Rightarrow> log_op list \<Rightarrow> string" where
  "log_lines e n en [] = []"
| "log_lines e n en (Op_fmt t as # cs) =
     (if en then log_line e n t @ log_lines e (Suc n) en cs else log_lines e n en cs)"
| "log_lines e n en (Op_setpath p # cs) = log_lines e n en cs"
| "log_lines e n en (Op_args as # cs) = log_lines e n (en \<or> has_l (drop 1 as)) cs"
| "log_lines e n en (Op_enable b # cs) = log_lines e n b cs"

fun plain_op :: "log_op \<Rightarrow> bool" where
  "plain_op (Op_fmt t as) \<longleftrightarrow> CHR ''%'' \<notin> set t"
| "plain_op c \<longleftrightarrow> True"

lemma log_run_lines:
  assumes "logfile s = Some p" and "\<forall>c\<in>set cs. plain_op c"
  shows "\<exists>s'. log_run e cs s = Logged s' \<and> logfile s' = Some p
     \<and> lg_disk s' = (lg_disk s)(p := lg_disk s p @ log_lines e (lg_clock s) (enable_logging s) cs)"
  using assms
proof (induction cs arbitrary: s)
  case (Cons c cs)
  have go: ?case if "log_step e c s = Logged s1" "logfile s1 = Some p"
    "lg_disk s1 = (lg_disk s)(p := lg_disk s p @ t)"
    "log_lines e (lg_clock s) (enable_logging s) (c # cs) = t @ log_lines e (lg_clock s1) (enable_logging s1) cs"
    for s1 t
    using that Cons.IH [of s1] Cons.prems(2) by fastforce
  show ?case
  proof (cases c)
    case (Op_fmt t as)
    show ?thesis
    proof (cases "enable_logging s")
      case True
      have "vformat t as = Some t" using Cons.prems(2) Op_fmt by (auto intro: vformat_plain)
      then show ?thesis using Cons.prems(1) True Op_fmt
        by (intro go [of "s\<lparr>lg_disk := (lg_disk s)(p := lg_disk s p @ log_line e (lg_clock s) t),
              lg_clock := Suc (lg_clock s)\<rparr>" "log_line e (lg_clock s) t"]) (auto simp: logfmt_open)
    next
      case False
      then show ?thesis using Cons.prems(1) Op_fmt
        by (intro go [of s "[]"]) (auto simp: logfmt_disabled)
    qed
  next
    case (Op_setpath q)
    then show ?thesis using Cons.prems(1)
      by (intro go [of "s\<lparr>logpath := q\<rparr>" "[]"]) (auto simp: logfmt_setpath_def)
  next
    case (Op_args as)
    then show ?thesis using Cons.prems(1)
      by (intro go [of "logfmt_args as s" "[]"]) (auto simp: logfmt_args_def)
  next
    case (Op_enable b)
    then show ?thesis using Cons.prems(1)
      by (intro go [of "logfmt_enable b s" "[]"]) (auto simp: logfmt_enable_def)
  qed
qed simp

text \<open>
C19: The log is the sequence of its lines, in one file: after \<open>logfmt_setpath\<close> has opened a file, any
sequence of calls whose formats hold no percent sign appends to that file one line, with its time
and process, for every \<open>logfmt\<close> made while logging was enabled, in order; no other file is touched,
and a later \<open>logfmt_setpath\<close> is without effect.
\<close>

theorem log_refines_lines:
  assumes "le_appendable e p" and "\<forall>c\<in>set cs. plain_op c"
  shows "\<exists>s'. log_run e (Op_setpath p # cs) log_init_state = Logged s'
     \<and> lg_disk s' = (\<lambda>q. if q = p then NL # log_lines e 0 False cs else [])"
proof -
  let ?s = "log_init_state\<lparr>logpath := p\<rparr>"
  have o: "logfmt_setpath e p log_init_state = Logged (log_opened e ?s)"
    using assms(1) by (simp add: logfmt_setpath_def log_init_closed log_init_state_def)
  have f: "logfile (log_opened e ?s) = Some p" "lg_clock (log_opened e ?s) = 0"
    "enable_logging (log_opened e ?s) = False" "lg_disk (log_opened e ?s) = (\<lambda>q. if q = p then [NL] else [])"
    by (auto simp: log_opened_def log_init_state_def Let_def fun_eq_iff)
  from log_run_lines [OF f(1) assms(2), of e] o f show ?thesis by (auto simp: fun_eq_iff)
qed

lemma log_refines_lines_witness:
  "let e = \<lparr>le_appendable = (\<lambda>p. p = ''a''), le_timebuf = (\<lambda>n. ''T'' @ show_nat n), le_pid = 7\<rparr> in
   \<exists>s'. log_run e [Op_setpath ''a'', Op_fmt ''x'' [], Op_args [''p'', ''-l''], Op_fmt ''y'' [],
                   Op_setpath ''b'', Op_fmt ''z'' []] log_init_state = Logged s'
     \<and> lg_disk s' ''a'' = [NL] @ ''T0 [7]: y'' @ [NL] @ ''T1 [7]: z'' @ [NL] \<and> lg_disk s' ''b'' = []"
proof -
  let ?e = "\<lparr>le_appendable = (\<lambda>p. p = ''a''), le_timebuf = (\<lambda>n. ''T'' @ show_nat n), le_pid = 7\<rparr>"
  have "show_nat 0 = ''0''" "show_nat (Suc 0) = ''1''" "show_int 7 = ''7''" by code_simp+
  then show ?thesis
    using log_refines_lines [of ?e "''a''" "[Op_fmt ''x'' [], Op_args [''p'', ''-l''], Op_fmt ''y'' [],
      Op_setpath ''b'', Op_fmt ''z'' []]"]
    by (auto simp: Let_def log_line_def)
qed

end
