(* ===== verification/Ec.thy ===== *)
theory Ec
  imports Logf
begin

text \<open>
  \<open>common/ec.c\<close>, the macros of \<open>common/ec.h\<close> and the stubs of \<open>common/pthreadstub.c\<close>: the list of errors as
  linked nodes in an explicit store, with the emergency node and string, the mutex and the exit
  handler.  Locking the mutex the thread holds, writing into or freeing what is not an allocated
  block, and following a pointer to freed memory are outcomes of their own.  \<open>process/ec.c\<close> and
  \<open>process/ec.h\<close> have only \<open>ec_warn\<close>.
\<close>

section \<open>Nodes, contexts and the state\<close>

datatype EC_ERRTYPE = EC_ERRNO | EC_EAI | EC_GETDATE | EC_NONE

text \<open>
  A node is a block \<open>calloc\<close> gave or the static emergency node; a context is a string \<open>calloc\<close>
  gave, the static emergency string, or the literal \<open>?\<close>, which may not be written.
\<close>

datatype nptr = Node nat | Emergency_node
datatype cptr = Ctx nat | Emergency_ctx | Literal_ctx

record ec_node =
  ec_next :: "nptr option"
  ec_errno :: int
  ec_type :: EC_ERRTYPE
  ec_context :: "cptr option"

definition zero_node :: ec_node where
  "zero_node = \<lparr>ec_next = None, ec_errno = 0, ec_type = EC_ERRNO, ec_context = None\<rparr>"

text \<open>
  The static variables of the file, the two kinds of allocated blocks (\<open>ec_brk\<close> is an address
  beyond all of them), the mutex, the exit handlers registered, standard error and the log.
  \<open>ec_tick\<close> counts the calls of the environment.
\<close>

record ecst =
  ec_heap :: "nat \<rightharpoonup> ec_node"
  ec_strings :: "nat \<rightharpoonup> string"
  ec_head :: "nptr option"
  ec_node_emergency :: ec_node
  ec_s_emergency :: string
  attexit_called :: bool
  ec_mtx :: bool
  ec_handlers :: nat
  ec_stderr :: string
  ec_log :: logst
  ec_brk :: nat
  ec_tick :: nat

text \<open>
  The environment: the results of the calls of \<open>pthread_mutex_lock\<close>/\<open>_unlock\<close>, \<open>calloc\<close> and
  \<open>atexit\<close>, \<open>errno\<close>, \<open>strerror\<close>, and \<open>syserrmsgtype\<close>, which is not in the repository.
\<close>

record ec_env =
  ev_mutex :: "nat \<Rightarrow> int"
  ev_calloc :: "nat \<Rightarrow> bool"
  ev_atexit :: "nat \<Rightarrow> int"
  ev_errno :: "nat \<Rightarrow> int"
  ev_strerror :: "int \<Rightarrow> string option"
  ev_syserrmsgtype :: "string \<Rightarrow> int \<Rightarrow> EC_ERRTYPE \<Rightarrow> string"
  ev_log :: logenv

definition ec_start :: "logst \<Rightarrow> ecst" where
  "ec_start l = \<lparr>ec_heap = Map.empty, ec_strings = Map.empty, ec_head = None,
     ec_node_emergency = zero_node, ec_s_emergency = [], attexit_called = False, ec_mtx = False,
     ec_handlers = 0, ec_stderr = [], ec_log = l, ec_brk = 0, ec_tick = 0\<rparr>"

datatype 'a ec_res =
    Ec_ok 'a
  | Ec_exit ecst        \<comment> \<open>\<open>exit (EXIT_FAILURE)\<close> is called\<close>
  | Ec_assert ecst      \<comment> \<open>an assertion fails\<close>
  | Ec_deadlock ecst    \<comment> \<open>the thread locks the mutex it holds\<close>
  | Ec_undefined
  | Ec_spins            \<comment> \<open>the list has a cycle\<close>

fun ec_bind :: "'a ec_res \<Rightarrow> ('a \<Rightarrow> 'b ec_res) \<Rightarrow> 'b ec_res" where
  "ec_bind (Ec_ok s) f = f s"
| "ec_bind (Ec_exit s) f = Ec_exit s"
| "ec_bind (Ec_assert s) f = Ec_assert s"
| "ec_bind (Ec_deadlock s) f = Ec_deadlock s"
| "ec_bind Ec_undefined f = Ec_undefined"
| "ec_bind Ec_spins f = Ec_spins"

lemma ec_bind_cong [fundef_cong]:
  "r = r' \<Longrightarrow> (\<And>s. r' = Ec_ok s \<Longrightarrow> f s = f' s) \<Longrightarrow> ec_bind r f = ec_bind r' f'"
  by (cases r') auto

definition eput :: "string \<Rightarrow> ecst \<Rightarrow> ecst" where
  "eput t s = s\<lparr>ec_stderr := ec_stderr s @ t\<rparr>"

definition tick :: "ecst \<Rightarrow> ecst" where
  "tick s = s\<lparr>ec_tick := Suc (ec_tick s)\<rparr>"

section \<open>The mutex\<close>

definition ec_mutex :: "ec_env \<Rightarrow> bool \<Rightarrow> ecst \<Rightarrow> ecst ec_res" where
  "ec_mutex ev lk s =
     (let errnum = ev_mutex ev (ec_tick s); s1 = tick s in
      if errnum = 0 then
        (if lk then (if ec_mtx s1 then Ec_deadlock s1 else Ec_ok (s1\<lparr>ec_mtx := True\<rparr>))
         else Ec_ok (s1\<lparr>ec_mtx := False\<rparr>))
      else Ec_exit (eput (''Mutex error in ec_* function: ''
             @ (case ev_strerror ev errnum of None \<Rightarrow> show_int errnum | Some m \<Rightarrow> m) @ [NL]) s1))"

section \<open>\<open>ec_push\<close>\<close>

fun node_at :: "ecst \<Rightarrow> nptr \<Rightarrow> ec_node option" where
  "node_at s (Node a) = ec_heap s a"
| "node_at s Emergency_node = Some (ec_node_emergency s)"

fun ctx_at :: "ecst \<Rightarrow> cptr \<Rightarrow> string option" where
  "ctx_at s (Ctx a) = ec_strings s a"
| "ctx_at s Emergency_ctx = Some (ec_s_emergency s)"
| "ctx_at s Literal_ctx = Some ''?''"

definition ec_text :: "string \<Rightarrow> string \<Rightarrow> int \<Rightarrow> string \<Rightarrow> string" where
  "ec_text fcn file line str = fcn @ '' ['' @ file @ '':'' @ show_int line @ ''] '' @ str"

definition ec_text_len :: "string \<Rightarrow> string \<Rightarrow> string \<Rightarrow> nat" where
  "ec_text_len fcn file str =
     length fcn + length '' ['' + length file + length '':'' + 6 + length ''] '' + length str + 1"

definition ec_s_emergency_size :: nat where "ec_s_emergency_size = 100"

text \<open>
  The context of the new node; \<open>None\<close> when \<open>snprintf\<close> would write into the literal \<open>?\<close>.
\<close>

definition new_context :: "ec_env \<Rightarrow> string \<Rightarrow> string \<Rightarrow> int \<Rightarrow> string \<Rightarrow> ecst \<Rightarrow> (cptr \<times> ecst) option" where
  "new_context ev fcn file line str s =
     (let len = ec_text_len fcn file str; t = ec_text fcn file line str; s1 = tick s in
      if ev_calloc ev (ec_tick s) then
        Some (Ctx (ec_brk s1), s1\<lparr>ec_strings := (ec_strings s1)(ec_brk s1 \<mapsto> snprintf len t), ec_brk := Suc (ec_brk s1)\<rparr>)
      else if ec_s_emergency s1 = [] then
        Some (Emergency_ctx, s1\<lparr>ec_s_emergency := snprintf ec_s_emergency_size t\<rparr>)
      else None)"

definition new_node :: "ec_env \<Rightarrow> ecst \<Rightarrow> nptr option \<times> ecst" where
  "new_node ev s =
     (let s1 = tick s in
      if ev_calloc ev (ec_tick s) then
        (Some (Node (ec_brk s1)), s1\<lparr>ec_heap := (ec_heap s1)(ec_brk s1 \<mapsto> zero_node), ec_brk := Suc (ec_brk s1)\<rparr>)
      else if ec_context (ec_node_emergency s1) = None then (Some Emergency_node, s1)
      else (None, s1))"

text \<open>\<open>*p = node\<close>.\<close>

fun store_node :: "nptr \<Rightarrow> ec_node \<Rightarrow> ecst \<Rightarrow> ecst" where
  "store_node (Node a) n s = s\<lparr>ec_heap := (ec_heap s)(a \<mapsto> n)\<rparr>"
| "store_node Emergency_node n s = s\<lparr>ec_node_emergency := n\<rparr>"

text \<open>What \<open>ec_push\<close> does while it holds the mutex.\<close>

definition ec_insert :: "ec_env \<Rightarrow> string \<Rightarrow> string \<Rightarrow> int \<Rightarrow> string option \<Rightarrow> int \<Rightarrow> EC_ERRTYPE \<Rightarrow> ecst \<Rightarrow> ecst ec_res" where
  "ec_insert ev fcn file line str errno_arg ty s =
     (case new_context ev fcn file line (case str of None \<Rightarrow> [] | Some t \<Rightarrow> t) s of
        None \<Rightarrow> Ec_undefined
      | Some (c, s1) \<Rightarrow>
          (case new_node ev s1 of
             (None, s2) \<Rightarrow> Ec_ok s2
           | (Some p, s2) \<Rightarrow>
               Ec_ok (store_node p \<lparr>ec_next = ec_head s2, ec_errno = errno_arg, ec_type = ty, ec_context = Some c\<rparr>
                        (s2\<lparr>ec_head := Some p\<rparr>))))"

section \<open>\<open>ec_print\<close>\<close>

definition trace_line :: "ec_env \<Rightarrow> nat \<Rightarrow> bool \<Rightarrow> string \<Rightarrow> int \<Rightarrow> EC_ERRTYPE \<Rightarrow> string" where
  "trace_line ev level last_one t errno_arg ty =
     (let buf = snprintf 200 (ev_syserrmsgtype ev t (if last_one then errno_arg else 0) ty)
      in snprintf (25 + 200) ((if level = 0 then ''ERROR:'' else []) @ [TAB] @ show_nat level @ '': '' @ buf))"

definition trace_incomplete :: string where
  "trace_incomplete = [TAB] @ ''*** Trace may be incomplete ***'' @ [NL]"

text \<open>The loop; the fuel is more than the nodes there can be, and running out of it means a cycle.\<close>

fun print_loop :: "ec_env \<Rightarrow> nat \<Rightarrow> nptr option \<Rightarrow> nat \<Rightarrow> ecst \<Rightarrow> ecst ec_res" where
  "print_loop ev fuel None level s = Ec_ok s"
| "print_loop ev 0 (Some p) level s = Ec_spins"
| "print_loop ev (Suc fuel) (Some p) level s =
     (case node_at s p of
        None \<Rightarrow> Ec_undefined
      | Some n \<Rightarrow>
          (case Option.bind (ec_context n) (ctx_at s) of
             None \<Rightarrow> Ec_undefined
           | Some t \<Rightarrow>
               (let s1 = (if p = Emergency_node then eput trace_incomplete s else s);
                    buf2 = trace_line ev level (ec_next n = None) t (ec_errno n) (ec_type n);
                    s2 = eput (buf2 @ [NL]) s1
                in case logfmt (ev_log ev) buf2 [] (ec_log s2) of
                     Logged l \<Rightarrow> print_loop ev fuel (ec_next n) (Suc level) (s2\<lparr>ec_log := l\<rparr>)
                   | Log_exit m l \<Rightarrow> Ec_exit (eput m (s2\<lparr>ec_log := l\<rparr>))
                   | Log_undefined \<Rightarrow> Ec_undefined)))"

definition ec_fuel :: "ecst \<Rightarrow> nat" where "ec_fuel s = Suc (ec_brk s)"

definition ec_print :: "ec_env \<Rightarrow> ecst \<Rightarrow> ecst ec_res" where
  "ec_print ev s = ec_bind (ec_mutex ev True s)
     (\<lambda>s1. ec_bind (print_loop ev (ec_fuel s1) (ec_head s1) 0 s1) (ec_mutex ev False))"

definition ec_atexit_fcn :: "ec_env \<Rightarrow> ecst \<Rightarrow> ecst ec_res" where
  "ec_atexit_fcn ev s = ec_print ev s"

text \<open>
  The function: when the handler cannot be registered, it pushes once more; \<open>attexit_called\<close> keeps
  that call from doing the same.
\<close>

lemma ec_mutex_attexit: "ec_mutex ev lk s = Ec_ok s' \<Longrightarrow> attexit_called s' = attexit_called s"
  by (auto simp: ec_mutex_def Let_def tick_def split: if_splits)

lemma new_context_attexit: "new_context ev f g l t s = Some (c, s') \<Longrightarrow> attexit_called s' = attexit_called s"
  by (auto simp: new_context_def Let_def tick_def split: if_splits)

lemma ec_insert_attexit: "ec_insert ev f g l t e ty s = Ec_ok s' \<Longrightarrow> attexit_called s' = attexit_called s"
  by (auto simp: ec_insert_def new_node_def Let_def tick_def
      split: option.splits prod.splits if_splits dest!: new_context_attexit)

function ec_push :: "ec_env \<Rightarrow> string \<Rightarrow> string \<Rightarrow> int \<Rightarrow> string option \<Rightarrow> int \<Rightarrow> EC_ERRTYPE \<Rightarrow> ecst \<Rightarrow> ecst ec_res" where
  "ec_push ev fcn file line str errno_arg ty s =
     ec_bind (ec_mutex ev True s) (\<lambda>s1.
     ec_bind (ec_insert ev fcn file line str errno_arg ty s1) (\<lambda>s2.
       if \<not> attexit_called s2 then
         ec_bind (ec_mutex ev False (s2\<lparr>attexit_called := True\<rparr>)) (\<lambda>s3.
           if ev_atexit ev (ec_tick s3) \<noteq> 0 then
             ec_bind (ec_push ev fcn file line (Some ''atexit failed'') (ev_errno ev (ec_tick s3)) EC_ERRNO (tick s3))
               (ec_print ev)
           else Ec_ok ((tick s3)\<lparr>ec_handlers := Suc (ec_handlers s3)\<rparr>))
       else ec_mutex ev False s2))"
  by pat_completeness auto

termination
  by (relation "measure (\<lambda>(ev, f, g, l, t, e, ty, s). if attexit_called s then 0 else 1)")
     (auto dest!: ec_mutex_attexit ec_insert_attexit simp: tick_def)

declare ec_push.simps [simp del]

section \<open>\<open>ec_reinit\<close> and \<open>ec_warn\<close>\<close>

text \<open>\<open>free\<close> of a string or a node; \<open>None\<close> when it is not an allocated block.\<close>

fun free_ctx :: "cptr option \<Rightarrow> ecst \<Rightarrow> ecst option" where
  "free_ctx None s = Some s"
| "free_ctx (Some (Ctx a)) s =
     (if ec_strings s a = None then None else Some (s\<lparr>ec_strings := (ec_strings s)(a := None)\<rparr>))"
| "free_ctx (Some Emergency_ctx) s = None"
| "free_ctx (Some Literal_ctx) s = None"

fun free_node :: "nptr \<Rightarrow> ecst \<Rightarrow> ecst option" where
  "free_node (Node a) s =
     (if ec_heap s a = None then None else Some (s\<lparr>ec_heap := (ec_heap s)(a := None)\<rparr>))"
| "free_node Emergency_node s = None"

fun reinit_loop :: "nat \<Rightarrow> nptr option \<Rightarrow> ecst \<Rightarrow> ecst ec_res" where
  "reinit_loop fuel None s = Ec_ok s"
| "reinit_loop 0 (Some p) s = Ec_spins"
| "reinit_loop (Suc fuel) (Some p) s =
     (case node_at s p of
        None \<Rightarrow> Ec_undefined
      | Some n \<Rightarrow>
          (case (if ec_context n \<noteq> Some Emergency_ctx then free_ctx (ec_context n) s else Some s) of
             None \<Rightarrow> Ec_undefined
           | Some s1 \<Rightarrow>
               (case (if p \<noteq> Emergency_node then free_node p s1 else Some s1) of
                  None \<Rightarrow> Ec_undefined
                | Some s2 \<Rightarrow> reinit_loop fuel (ec_next n) s2)))"

definition ec_reinit :: "ec_env \<Rightarrow> ecst \<Rightarrow> ecst ec_res" where
  "ec_reinit ev s = ec_bind (ec_mutex ev True s)
     (\<lambda>s1. ec_bind (reinit_loop (ec_fuel s1) (ec_head s1) s1)
       (\<lambda>s2. ec_mutex ev False (s2\<lparr>ec_head := None, ec_node_emergency := zero_node, ec_s_emergency := []\<rparr>)))"

definition ec_warn :: "ecst \<Rightarrow> ecst" where
  "ec_warn s = eput (''***WARNING: Control flowed into EC_CLEANUP_BGN'' @ [NL]) s"

text \<open>The end of the process: the handler runs as often as it was registered.\<close>

fun run_handlers :: "nat \<Rightarrow> ec_env \<Rightarrow> ecst \<Rightarrow> ecst ec_res" where
  "run_handlers 0 ev s = Ec_ok s"
| "run_handlers (Suc n) ev s = ec_bind (ec_atexit_fcn ev s) (run_handlers n ev)"

definition ec_at_exit :: "ec_env \<Rightarrow> ecst \<Rightarrow> ecst ec_res" where
  "ec_at_exit ev s = run_handlers (ec_handlers s) ev s"

section \<open>The macros of \<open>ec.h\<close>\<close>

text \<open>
  A use of a macro: the function, file and line it stands in and the text of its argument.  The
  control either goes on or jumps to the label \<open>ec_cleanup_bgn\<close>.
\<close>

record site =
  st_func :: string
  st_file :: string
  st_line :: int
  st_text :: string

datatype ec_ctl = Falls_through | Goto_cleanup

definition push_and_goto :: "ec_env \<Rightarrow> site \<Rightarrow> int \<Rightarrow> EC_ERRTYPE \<Rightarrow> ecst \<Rightarrow> (ec_ctl \<times> ecst) ec_res" where
  "push_and_goto ev x err ty s =
     ec_bind (ec_push ev (st_func x) (st_file x) (st_line x) (Some (st_text x)) err ty s)
       (\<lambda>s1. Ec_ok (Goto_cleanup, s1))"

definition to_intptr :: "int \<Rightarrow> 64 word" where "to_intptr v = word_of_int v"

definition ec_cmp :: "ec_env \<Rightarrow> bool \<Rightarrow> site \<Rightarrow> int \<Rightarrow> int \<Rightarrow> int \<Rightarrow> ecst \<Rightarrow> (ec_ctl \<times> ecst) ec_res" where
  "ec_cmp ev in_cleanup x var errrtn err s =
     (if in_cleanup then Ec_assert s
      else if to_intptr var = to_intptr errrtn then push_and_goto ev x err EC_ERRNO s
      else Ec_ok (Falls_through, s))"

definition ec_rv :: "ec_env \<Rightarrow> bool \<Rightarrow> site \<Rightarrow> int \<Rightarrow> ecst \<Rightarrow> (ec_ctl \<times> ecst) ec_res" where
  "ec_rv ev in_cleanup x var s =
     (if in_cleanup then Ec_assert s
      else if var \<noteq> 0 then push_and_goto ev x var EC_ERRNO s else Ec_ok (Falls_through, s))"

definition ec_ai :: "ec_env \<Rightarrow> bool \<Rightarrow> site \<Rightarrow> int \<Rightarrow> ecst \<Rightarrow> (ec_ctl \<times> ecst) ec_res" where
  "ec_ai ev in_cleanup x var s =
     (if in_cleanup then Ec_assert s
      else if var \<noteq> 0 then push_and_goto ev x var EC_EAI s else Ec_ok (Falls_through, s))"

definition ec_neg1 :: "ec_env \<Rightarrow> bool \<Rightarrow> site \<Rightarrow> int \<Rightarrow> int \<Rightarrow> ecst \<Rightarrow> (ec_ctl \<times> ecst) ec_res" where
  "ec_neg1 ev in_cleanup x var err s = ec_cmp ev in_cleanup x var (- 1) err s"

definition ec_null :: "ec_env \<Rightarrow> bool \<Rightarrow> site \<Rightarrow> int \<Rightarrow> int \<Rightarrow> ecst \<Rightarrow> (ec_ctl \<times> ecst) ec_res" where
  "ec_null ev in_cleanup x var err s = ec_cmp ev in_cleanup x var 0 err s"

text \<open>\<open>ec_zero\<close> is \<open>ec_null\<close>; \<open>false\<close> is 0 and \<open>EOF\<close> is -1.\<close>

definition ec_zero :: "ec_env \<Rightarrow> bool \<Rightarrow> site \<Rightarrow> int \<Rightarrow> int \<Rightarrow> ecst \<Rightarrow> (ec_ctl \<times> ecst) ec_res" where
  "ec_zero = ec_null"

definition ec_false :: "ec_env \<Rightarrow> bool \<Rightarrow> site \<Rightarrow> int \<Rightarrow> int \<Rightarrow> ecst \<Rightarrow> (ec_ctl \<times> ecst) ec_res" where
  "ec_false ev in_cleanup x var err s = ec_cmp ev in_cleanup x var 0 err s"

definition ec_eof :: "ec_env \<Rightarrow> bool \<Rightarrow> site \<Rightarrow> int \<Rightarrow> int \<Rightarrow> ecst \<Rightarrow> (ec_ctl \<times> ecst) ec_res" where
  "ec_eof ev in_cleanup x var err s = ec_cmp ev in_cleanup x var (- 1) err s"

text \<open>In \<open>EC_FAIL\<close> the text of the argument is \<open>0\<close>.\<close>

definition EC_FAIL :: "ec_env \<Rightarrow> bool \<Rightarrow> site \<Rightarrow> int \<Rightarrow> ecst \<Rightarrow> (ec_ctl \<times> ecst) ec_res" where
  "EC_FAIL ev in_cleanup x err s = ec_cmp ev in_cleanup (x\<lparr>st_text := ''0''\<rparr>) 0 0 err s"

definition ec_nzero :: "ec_env \<Rightarrow> bool \<Rightarrow> site \<Rightarrow> int \<Rightarrow> int \<Rightarrow> ecst \<Rightarrow> (ec_ctl \<times> ecst) ec_res" where
  "ec_nzero ev in_cleanup x var err s =
     (if var \<noteq> 0 then EC_FAIL ev in_cleanup x err s else Ec_ok (Falls_through, s))"

definition EC_FLUSH :: "ec_env \<Rightarrow> ecst \<Rightarrow> ecst ec_res" where
  "EC_FLUSH ev s = ec_bind (ec_print ev s) (ec_reinit ev)"

text \<open>
  \<open>EC_CLEANUP_BGN\<close> warns when the control reaches it without a jump; the variable \<open>ec_in_cleanup\<close>
  of the block it opens is true.
\<close>

definition EC_CLEANUP_BGN :: "ec_ctl \<Rightarrow> ecst \<Rightarrow> bool \<times> ecst" where
  "EC_CLEANUP_BGN c s = (True, case c of Falls_through \<Rightarrow> ec_warn s | Goto_cleanup \<Rightarrow> s)"

text \<open>Statements one after the other: the first jump skips the rest.\<close>

fun ec_seq :: "(ecst \<Rightarrow> (ec_ctl \<times> ecst) ec_res) list \<Rightarrow> ecst \<Rightarrow> (ec_ctl \<times> ecst) ec_res" where
  "ec_seq [] s = Ec_ok (Falls_through, s)"
| "ec_seq (f # fs) s = ec_bind (f s) (\<lambda>(c, s1).
     case c of Goto_cleanup \<Rightarrow> Ec_ok (Goto_cleanup, s1) | Falls_through \<Rightarrow> ec_seq fs s1)"

section \<open>\<open>pthreadstub.c\<close>\<close>

text \<open>The stubs for systems without threads; the mutex they are given is not looked at.\<close>

definition pthread_mutex_lock :: "'m \<Rightarrow> int" where "pthread_mutex_lock mutex = 0"
definition pthread_mutex_trylock :: "'m \<Rightarrow> int" where "pthread_mutex_trylock mutex = 0"
definition pthread_mutex_unlock :: "'m \<Rightarrow> int" where "pthread_mutex_unlock mutex = 0"

end
