(* ===== verification/EcStack.thy ===== *)
theory EcStack
  imports Ec
begin

text \<open>
  The list of \<open>common/ec.c\<close> as a stack: its invariant, what each operation does to it, and the simulation of
  any sequence of operations by an abstract stack of errors.
\<close>

section \<open>The list as an abstract stack\<close>

fun ec_chain :: "ecst \<Rightarrow> nptr option \<Rightarrow> nptr list \<Rightarrow> bool" where
  "ec_chain s e [] \<longleftrightarrow> e = None"
| "ec_chain s e (p # ps) \<longleftrightarrow> e = Some p \<and> (\<exists>n. node_at s p = Some n \<and> ec_chain s (ec_next n) ps)"

definition the_node :: "ecst \<Rightarrow> nptr \<Rightarrow> ec_node" where
  "the_node s p = the (node_at s p)"

abbreviation ctx_of :: "ecst \<Rightarrow> nptr \<Rightarrow> cptr option" where
  "ctx_of s p \<equiv> ec_context (the_node s p)"

text \<open>An error as the trace shows it: its context, error number and type.\<close>

type_synonym ec_entry = "string \<times> int \<times> EC_ERRTYPE"

definition ec_abs :: "ecst \<Rightarrow> nptr list \<Rightarrow> ec_entry list" where
  "ec_abs s ps = map (\<lambda>p. (the (ctx_at s (the (ctx_of s p))), ec_errno (the_node s p), ec_type (the_node s p))) ps"

text \<open>
  The invariant: the list is the chain of the nodes \<open>ps\<close>, each once; every node has a context of its
  own, which is not the literal; the emergency node is marked used exactly while it is in the
  list, the emergency string is not empty while a node has it; every allocated node is in the list.
\<close>

definition ec_inv :: "ecst \<Rightarrow> nptr list \<Rightarrow> bool" where
  "ec_inv s ps \<longleftrightarrow>
     ec_chain s (ec_head s) ps \<and> distinct ps
     \<and> (\<forall>p\<in>set ps. \<exists>c. ctx_of s p = Some c \<and> c \<noteq> Literal_ctx \<and> ctx_at s c \<noteq> None)
     \<and> distinct (map (ctx_of s) ps)
     \<and> (Emergency_node \<in> set ps \<longleftrightarrow> ec_context (ec_node_emergency s) \<noteq> None)
     \<and> (Some Emergency_ctx \<in> ctx_of s ` set ps \<longrightarrow> ec_s_emergency s \<noteq> [])
     \<and> (\<forall>a. ec_heap s a \<noteq> None \<longleftrightarrow> Node a \<in> set ps)
     \<and> (\<forall>a\<in>dom (ec_heap s) \<union> dom (ec_strings s). a < ec_brk s)"

lemma ec_inv_start: "ec_inv (ec_start l) []"
  by (simp add: ec_inv_def ec_start_def zero_node_def)

lemma ec_inv_next: "ec_inv s ps \<Longrightarrow> ec_chain s (ec_head s) ps" "ec_inv s ps \<Longrightarrow> distinct ps"
  by (simp_all add: ec_inv_def)

lemma ec_chain_nodes: "ec_chain s e ps \<Longrightarrow> p \<in> set ps \<Longrightarrow> node_at s p = Some (the_node s p)"
  by (induction ps arbitrary: e) (auto simp: the_node_def)

lemma ec_chain_cong:
  "(\<And>p. p \<in> set ps \<Longrightarrow> node_at s' p = node_at s p) \<Longrightarrow> ec_chain s' e ps = ec_chain s e ps"
  by (induction ps arbitrary: e) auto

text \<open>There is fuel for every node.\<close>

lemma ec_inv_length: "ec_inv s ps \<Longrightarrow> length ps \<le> ec_fuel s"
proof -
  assume inv: "ec_inv s ps"
  have "set ps \<subseteq> insert Emergency_node (Node ` {..<ec_brk s})"
  proof
    fix p assume p: "p \<in> set ps"
    show "p \<in> insert Emergency_node (Node ` {..<ec_brk s})"
      using inv p by (cases p) (auto simp: ec_inv_def dom_def)
  qed
  then have "card (set ps) \<le> card (insert Emergency_node (Node ` {..<ec_brk s}))"
    by (intro card_mono) auto
  also have "\<dots> \<le> Suc (card (Node ` {..<ec_brk s}))" by (rule card_insert_le_m1) auto
  also have "\<dots> \<le> ec_fuel s" using card_image_le [of "{..<ec_brk s}" Node] by (simp add: ec_fuel_def)
  finally show ?thesis using inv by (simp add: ec_inv_def distinct_card)
qed

text \<open>The fields the invariant does not depend on.\<close>

lemma ec_fields_at [simp]:
  "node_at (s\<lparr>ec_mtx := m\<rparr>) = node_at s" "node_at (s\<lparr>ec_tick := t\<rparr>) = node_at s"
  "node_at (s\<lparr>ec_stderr := x\<rparr>) = node_at s" "node_at (s\<lparr>ec_log := l\<rparr>) = node_at s"
  "node_at (s\<lparr>ec_handlers := h\<rparr>) = node_at s" "node_at (s\<lparr>attexit_called := b\<rparr>) = node_at s"
  "ctx_at (s\<lparr>ec_mtx := m\<rparr>) = ctx_at s" "ctx_at (s\<lparr>ec_tick := t\<rparr>) = ctx_at s"
  "ctx_at (s\<lparr>ec_stderr := x\<rparr>) = ctx_at s" "ctx_at (s\<lparr>ec_log := l\<rparr>) = ctx_at s"
  "ctx_at (s\<lparr>ec_handlers := h\<rparr>) = ctx_at s" "ctx_at (s\<lparr>attexit_called := b\<rparr>) = ctx_at s"
proof -
  have n: "node_at s' p = node_at s p" if "ec_heap s' = ec_heap s" "ec_node_emergency s' = ec_node_emergency s" for s' p
    using that by (cases p) simp_all
  have c: "ctx_at s' d = ctx_at s d" if "ec_strings s' = ec_strings s" "ec_s_emergency s' = ec_s_emergency s" for s' d
    using that by (cases d) simp_all
  show "node_at (s\<lparr>ec_mtx := m\<rparr>) = node_at s" "node_at (s\<lparr>ec_tick := t\<rparr>) = node_at s"
    "node_at (s\<lparr>ec_stderr := x\<rparr>) = node_at s" "node_at (s\<lparr>ec_log := l\<rparr>) = node_at s"
    "node_at (s\<lparr>ec_handlers := h\<rparr>) = node_at s" "node_at (s\<lparr>attexit_called := b\<rparr>) = node_at s"
    by (rule ext, rule n, simp_all)+
  show "ctx_at (s\<lparr>ec_mtx := m\<rparr>) = ctx_at s" "ctx_at (s\<lparr>ec_tick := t\<rparr>) = ctx_at s"
    "ctx_at (s\<lparr>ec_stderr := x\<rparr>) = ctx_at s" "ctx_at (s\<lparr>ec_log := l\<rparr>) = ctx_at s"
    "ctx_at (s\<lparr>ec_handlers := h\<rparr>) = ctx_at s" "ctx_at (s\<lparr>attexit_called := b\<rparr>) = ctx_at s"
    by (rule ext, rule c, simp_all)+
qed

text \<open>Two states with the same list.\<close>

definition same_list :: "ecst \<Rightarrow> ecst \<Rightarrow> bool" where
  "same_list s s' \<longleftrightarrow> ec_heap s' = ec_heap s \<and> ec_strings s' = ec_strings s \<and> ec_head s' = ec_head s
     \<and> ec_node_emergency s' = ec_node_emergency s \<and> ec_s_emergency s' = ec_s_emergency s \<and> ec_brk s' = ec_brk s"

lemma same_list_refl [simp]: "same_list s s"
  by (simp add: same_list_def)

lemma same_list_trans: "same_list s s' \<Longrightarrow> same_list s' s'' \<Longrightarrow> same_list s s''"
  by (simp add: same_list_def)

lemma same_list_at:
  assumes "same_list s s'"
  shows "node_at s' = node_at s" and "ctx_at s' = ctx_at s"
proof -
  show "node_at s' = node_at s"
  proof
    show "node_at s' p = node_at s p" for p using assms by (cases p) (simp_all add: same_list_def)
  qed
  show "ctx_at s' = ctx_at s"
  proof
    show "ctx_at s' c = ctx_at s c" for c using assms by (cases c) (simp_all add: same_list_def)
  qed
qed

lemma ec_inv_same:
  assumes "same_list s s'" and "ec_inv s ps"
  shows "ec_inv s' ps"
proof -
  note at = same_list_at [OF assms(1)]
  have "the_node s' = the_node s" by (simp add: the_node_def at fun_eq_iff)
  moreover have "ec_chain s' e ps = ec_chain s e ps" for e by (rule ec_chain_cong) (simp add: at)
  ultimately show ?thesis using assms unfolding ec_inv_def at same_list_def by simp
qed

lemma ec_abs_same:
  assumes "same_list s s'"
  shows "ec_abs s' ps = ec_abs s ps"
  using same_list_at [OF assms] by (simp add: ec_abs_def the_node_def)

lemma ec_inv_ctx:
  "ec_inv s ps \<Longrightarrow> p \<in> set ps \<Longrightarrow> \<exists>c. ctx_of s p = Some c \<and> c \<noteq> Literal_ctx \<and> ctx_at s c \<noteq> None"
  unfolding ec_inv_def by blast

lemma ec_inv_heap: "ec_inv s ps \<Longrightarrow> ec_heap s a = None \<longleftrightarrow> Node a \<notin> set ps"
  unfolding ec_inv_def by blast

lemma ec_inv_fresh:
  assumes "ec_inv s ps"
  shows "ec_heap s (ec_brk s) = None" and "ec_strings s (ec_brk s) = None"
  using assms by (auto simp: ec_inv_def dom_def)

lemma eput_eput [simp]: "eput a (eput b s) = eput (b @ a) s"
  by (simp add: eput_def)

lemma eput_nil [simp]: "eput [] s = s"
  by (simp add: eput_def)

lemma eput_at [simp]: "node_at (eput t s) = node_at s" "ctx_at (eput t s) = ctx_at s" "ec_abs (eput t s) ps = ec_abs s ps"
  by (simp_all add: eput_def ec_abs_def the_node_def)

lemma eput_fields [simp]:
  "ec_log (eput t s) = ec_log s" "ec_mtx (eput t s) = ec_mtx s" "ec_handlers (eput t s) = ec_handlers s"
  "attexit_called (eput t s) = attexit_called s" "ec_head (eput t s) = ec_head s" "ec_tick (eput t s) = ec_tick s"
  "(eput t s)\<lparr>ec_log := ec_log s\<rparr> = eput t s"
  by (simp_all add: eput_def)

text \<open>A node put in front.\<close>

lemma ec_inv_cons:
  assumes inv: "ec_inv s ps" and p: "p \<notin> set ps" "node_at s' p = Some n"
    and old: "\<And>q. q \<in> set ps \<Longrightarrow> node_at s' q = node_at s q"
    and head: "ec_head s' = Some p" "ec_next n = ec_head s"
    and c: "ec_context n = Some c" "c \<noteq> Literal_ctx" "ctx_at s' c = Some t" "Some c \<notin> ctx_of s ` set ps"
    and octx: "\<And>d. Some d \<in> ctx_of s ` set ps \<Longrightarrow> ctx_at s' d = ctx_at s d"
    and em: "ec_context (ec_node_emergency s') \<noteq> None \<longleftrightarrow> Emergency_node \<in> set (p # ps)"
    and es: "c = Emergency_ctx \<or> Some Emergency_ctx \<in> ctx_of s ` set ps \<Longrightarrow> ec_s_emergency s' \<noteq> []"
    and heap: "\<forall>a. ec_heap s' a \<noteq> None \<longleftrightarrow> Node a \<in> set (p # ps)"
    and brk: "\<forall>a\<in>dom (ec_heap s') \<union> dom (ec_strings s'). a < ec_brk s'"
  shows "ec_inv s' (p # ps)" and "ec_abs s' (p # ps) = (t, ec_errno n, ec_type n) # ec_abs s ps"
proof -
  have tn: "the_node s' p = n" using p(2) by (simp add: the_node_def)
  have to: "the_node s' q = the_node s q" if "q \<in> set ps" for q using old [OF that] by (simp add: the_node_def)
  have mt: "map (ctx_of s') ps = map (ctx_of s) ps" using to by simp
  have im: "ctx_of s' ` set ps = ctx_of s ` set ps" using to by simp
  have "ec_chain s' (ec_head s) ps" using inv ec_chain_cong [of ps s' s] old by (simp add: ec_inv_def)
  then have ch: "ec_chain s' (ec_head s') (p # ps)" using p(2) head by simp
  have ctxs: "\<exists>d. ctx_of s' q = Some d \<and> d \<noteq> Literal_ctx \<and> ctx_at s' d \<noteq> None" if q: "q \<in> set ps" for q
  proof -
    obtain d where d: "ctx_of s q = Some d" "d \<noteq> Literal_ctx" "ctx_at s d \<noteq> None"
      using ec_inv_ctx [OF inv q] by blast
    have "Some d \<in> ctx_of s ` set ps" using d(1) q by (metis imageI)
    with d octx [of d] to [OF q] show ?thesis by simp
  qed
  have "distinct (map (ctx_of s) ps)" using inv by (simp add: ec_inv_def)
  moreover have "map (ctx_of s') (p # ps) = Some c # map (ctx_of s) ps" using tn c(1) mt by simp
  ultimately have "distinct (map (ctx_of s') (p # ps))" using c(4) by (simp only: distinct.simps set_map) simp
  note dist = this
  show "ec_inv s' (p # ps)"
    unfolding ec_inv_def
  proof (intro conjI)
    show "ec_chain s' (ec_head s') (p # ps)" by (rule ch)
    show "distinct (p # ps)" using inv p(1) by (simp add: ec_inv_def)
    show "\<forall>q\<in>set (p # ps). \<exists>d. ctx_of s' q = Some d \<and> d \<noteq> Literal_ctx \<and> ctx_at s' d \<noteq> None"
      using ctxs tn c by simp
    show "Some Emergency_ctx \<in> ctx_of s' ` set (p # ps) \<longrightarrow> ec_s_emergency s' \<noteq> []"
      using es tn c(1) im by (simp only: list.set image_insert insert_iff option.inject) blast
  qed (fact dist, fact em [symmetric], fact heap, fact brk)
  have "(the (ctx_at s' (the (ctx_of s' q)))) = the (ctx_at s (the (ctx_of s q)))" if q: "q \<in> set ps" for q
  proof -
    obtain d where d: "ctx_of s q = Some d" using ec_inv_ctx [OF inv q] by blast
    then have "Some d \<in> ctx_of s ` set ps" using q by (metis imageI)
    with d show ?thesis using octx [of d] to [OF q] by simp
  qed
  with to have "ec_abs s' ps = ec_abs s ps" unfolding ec_abs_def by (intro map_cong refl) simp
  moreover have "ec_abs s' (p # ps) = (t, ec_errno n, ec_type n) # ec_abs s' ps"
    using c(1,3) tn by (simp add: ec_abs_def)
  ultimately show "ec_abs s' (p # ps) = (t, ec_errno n, ec_type n) # ec_abs s ps" by simp
qed

section \<open>Inserting a node\<close>

text \<open>A change of the strings that leaves the contexts in use.\<close>

lemma ec_inv_strings:
  assumes inv: "ec_inv s ps"
    and same: "ec_heap s' = ec_heap s" "ec_head s' = ec_head s" "ec_node_emergency s' = ec_node_emergency s"
    and octx: "\<And>d. Some d \<in> ctx_of s ` set ps \<Longrightarrow> ctx_at s' d = ctx_at s d"
    and es: "ec_s_emergency s \<noteq> [] \<Longrightarrow> ec_s_emergency s' \<noteq> []"
    and brk: "\<forall>a\<in>dom (ec_heap s') \<union> dom (ec_strings s'). a < ec_brk s'"
  shows "ec_inv s' ps" and "ec_abs s' ps = ec_abs s ps"
proof -
  have na: "node_at s' = node_at s"
  proof
    show "node_at s' p = node_at s p" for p using same by (cases p) simp_all
  qed
  have tn: "the_node s' = the_node s" by (simp add: the_node_def na fun_eq_iff)
  have ctxs: "\<exists>d. ctx_of s q = Some d \<and> d \<noteq> Literal_ctx \<and> ctx_at s' d \<noteq> None \<and> ctx_at s' d = ctx_at s d"
    if q: "q \<in> set ps" for q
  proof -
    obtain d where d: "ctx_of s q = Some d" "d \<noteq> Literal_ctx" "ctx_at s d \<noteq> None"
      using ec_inv_ctx [OF inv q] by blast
    have "Some d \<in> ctx_of s ` set ps" using d(1) q by (metis imageI)
    with d octx [of d] show ?thesis by simp
  qed
  have "ec_chain s' (ec_head s') ps"
    using inv ec_chain_cong [of ps s' s] same na by (simp add: ec_inv_def)
  then show "ec_inv s' ps"
    unfolding ec_inv_def tn
  proof (intro conjI)
    show "\<forall>p\<in>set ps. \<exists>c. ctx_of s p = Some c \<and> c \<noteq> Literal_ctx \<and> ctx_at s' c \<noteq> None"
      using ctxs by blast
    show "Some Emergency_ctx \<in> ctx_of s ` set ps \<longrightarrow> ec_s_emergency s' \<noteq> []"
      using inv es by (simp add: ec_inv_def)
  qed (use inv same brk in \<open>simp_all add: ec_inv_def\<close>)
  show "ec_abs s' ps = ec_abs s ps"
    unfolding ec_abs_def tn using ctxs by (intro map_cong refl) force
qed

text \<open>The parts of the state an insertion does not touch.\<close>

definition insert_frame :: "ecst \<Rightarrow> ecst \<Rightarrow> bool" where
  "insert_frame s s' \<longleftrightarrow> ec_mtx s' = ec_mtx s \<and> attexit_called s' = attexit_called s
     \<and> ec_handlers s' = ec_handlers s \<and> ec_stderr s' = ec_stderr s \<and> ec_log s' = ec_log s"

text \<open>The context an error gets.\<close>

definition stored_text :: "bool \<Rightarrow> string \<Rightarrow> string \<Rightarrow> int \<Rightarrow> string \<Rightarrow> string" where
  "stored_text ok fcn file line str =
     snprintf (if ok then ec_text_len fcn file str else ec_s_emergency_size) (ec_text fcn file line str)"

lemma stored_text_nonempty: "stored_text ok fcn file line str \<noteq> []"
  by (cases fcn) (auto simp: stored_text_def snprintf_def ec_text_def ec_text_len_def ec_s_emergency_size_def)

lemma stored_text_full:
  "length (show_int line) \<le> 6 \<Longrightarrow> stored_text True fcn file line str = ec_text fcn file line str"
  unfolding stored_text_def
  by (simp add: snprintf_fits ec_text_def ec_text_len_def)

text \<open>A state that differs in its strings, its emergency string and the clock, by a text that nobody uses yet.\<close>

lemma fresh_text_inv:
  assumes inv: "ec_inv s ps" and same: "ec_heap s1 = ec_heap s" "ec_head s1 = ec_head s" "ec_node_emergency s1 = ec_node_emergency s"
    and fresh: "Some c \<notin> ctx_of s ` set ps" and old: "\<And>d. d \<noteq> c \<Longrightarrow> ctx_at s1 d = ctx_at s d"
    and es: "c = Emergency_ctx \<longrightarrow> ec_s_emergency s1 \<noteq> []" "c \<noteq> Emergency_ctx \<longrightarrow> ec_s_emergency s1 = ec_s_emergency s"
    and brk: "\<forall>a\<in>dom (ec_heap s1) \<union> dom (ec_strings s1). a < ec_brk s1"
  shows "ec_inv s1 ps" "ec_abs s1 ps = ec_abs s ps" "node_at s1 = node_at s" "Some c \<notin> ctx_of s1 ` set ps"
proof -
  show na: "node_at s1 = node_at s" using same by (intro ext, case_tac x) simp_all
  show "Some c \<notin> ctx_of s1 ` set ps" using fresh by (simp add: the_node_def na)
  have octx: "ctx_at s1 d = ctx_at s d" if "Some d \<in> ctx_of s ` set ps" for d using old [of d] that fresh by metis
  have "ec_s_emergency s \<noteq> [] \<Longrightarrow> ec_s_emergency s1 \<noteq> []" using es by auto
  then show "ec_inv s1 ps" "ec_abs s1 ps = ec_abs s ps" using ec_inv_strings [OF inv same octx _ brk] by simp_all
qed

lemma new_context_inv:
  assumes inv: "ec_inv s ps" and n: "new_context ev fcn file line str s = Some (c, s1)"
  shows "ec_inv s1 ps" "ec_abs s1 ps = ec_abs s ps" "c \<noteq> Literal_ctx"
    "ctx_at s1 c = Some (stored_text (ev_calloc ev (ec_tick s)) fcn file line str)"
    "Some c \<notin> ctx_of s1 ` set ps" "c = Emergency_ctx \<longrightarrow> ec_s_emergency s1 \<noteq> []"
    "insert_frame s s1" "ec_tick s1 = Suc (ec_tick s)" "ec_node_emergency s1 = ec_node_emergency s"
    "node_at s1 = node_at s"
proof -
  let ?t = "stored_text (ev_calloc ev (ec_tick s)) fcn file line str" and ?b = "ec_brk s"
  have s1: "if ev_calloc ev (ec_tick s) then s1 = (tick s)\<lparr>ec_strings := (ec_strings (tick s))(?b \<mapsto> ?t), ec_brk := Suc ?b\<rparr> \<and> c = Ctx ?b
      else ec_s_emergency s = [] \<and> s1 = (tick s)\<lparr>ec_s_emergency := ?t\<rparr> \<and> c = Emergency_ctx"
    using n by (auto simp: new_context_def stored_text_def tick_def Let_def split: if_splits)
  then show "c \<noteq> Literal_ctx" "ctx_at s1 c = Some ?t" "c = Emergency_ctx \<longrightarrow> ec_s_emergency s1 \<noteq> []"
    "insert_frame s s1" "ec_tick s1 = Suc (ec_tick s)" and em: "ec_node_emergency s1 = ec_node_emergency s"
    by (auto simp: tick_def stored_text_nonempty insert_frame_def split: if_splits)
  have fresh: "Some c \<notin> ctx_of s ` set ps"
  proof
    assume "Some c \<in> ctx_of s ` set ps"
    then obtain q where "q \<in> set ps" "ctx_of s q = Some c" by auto
    with ec_inv_ctx [OF inv] have "ctx_at s c \<noteq> None" by fastforce
    moreover have "Some Emergency_ctx \<in> ctx_of s ` set ps \<longrightarrow> ec_s_emergency s \<noteq> []" using inv by (simp add: ec_inv_def)
    ultimately show False using s1 inv \<open>Some c \<in> _\<close> by (auto simp: ec_inv_def dom_def split: if_splits)
  qed
  have "ctx_at s1 d = ctx_at s d" if "d \<noteq> c" for d
    using s1 that by (cases d) (auto simp: tick_def split: if_splits)
  moreover have "\<forall>a\<in>dom (ec_heap s1) \<union> dom (ec_strings s1). a < ec_brk s1"
    using inv s1 by (auto simp: tick_def ec_inv_def less_Suc_eq split: if_splits)
  moreover have "ec_heap s1 = ec_heap s" "ec_head s1 = ec_head s" "c \<noteq> Emergency_ctx \<longrightarrow> ec_s_emergency s1 = ec_s_emergency s"
    using s1 by (auto simp: tick_def split: if_splits)
  ultimately show "ec_inv s1 ps" "ec_abs s1 ps = ec_abs s ps" "node_at s1 = node_at s" "Some c \<notin> ctx_of s1 ` set ps"
    using fresh_text_inv [OF inv _ _ em fresh] \<open>c = Emergency_ctx \<longrightarrow> _\<close> by blast+
qed

text \<open>Whether \<open>ec_push\<close> finds room: for the context, or else the error is undefined; for the node,
  or else it is lost.\<close>

definition context_room :: "ec_env \<Rightarrow> ecst \<Rightarrow> bool" where
  "context_room ev s \<longleftrightarrow> ev_calloc ev (ec_tick s) \<or> ec_s_emergency s = []"

definition node_room :: "ec_env \<Rightarrow> ecst \<Rightarrow> bool" where
  "node_room ev s \<longleftrightarrow> ev_calloc ev (Suc (ec_tick s)) \<or> ec_context (ec_node_emergency s) = None"

lemma ec_insert_undefined:
  "\<not> context_room ev s \<Longrightarrow> ec_insert ev f g l x e ty s = Ec_undefined"
  by (simp add: ec_insert_def new_context_def context_room_def tick_def Let_def)

lemma new_node_inv:
  assumes inv: "ec_inv s ps" and n: "new_node ev s = (Some p, s2)"
  shows "p \<notin> set ps" "ec_inv s ps"
    "s2 = (case p of Node a \<Rightarrow> (tick s)\<lparr>ec_heap := (ec_heap s)(a \<mapsto> zero_node), ec_brk := Suc (ec_brk s)\<rparr>
           | Emergency_node \<Rightarrow> tick s)"
    "p \<noteq> Emergency_node \<Longrightarrow> p = Node (ec_brk s)"
proof -
  have "Node (ec_brk s) \<notin> set ps" using ec_inv_heap [OF inv] ec_inv_fresh(1) [OF inv] by blast
  then show "p \<notin> set ps" using inv n
    by (auto simp: new_node_def tick_def Let_def ec_inv_def split: if_splits)
  show "s2 = (case p of Node a \<Rightarrow> (tick s)\<lparr>ec_heap := (ec_heap s)(a \<mapsto> zero_node), ec_brk := Suc (ec_brk s)\<rparr>
           | Emergency_node \<Rightarrow> tick s)" "p \<noteq> Emergency_node \<Longrightarrow> p = Node (ec_brk s)"
    using n by (auto simp: new_node_def tick_def Let_def split: if_splits)
qed (rule inv)

text \<open>No string is allocated but the contexts of the list.\<close>

definition ec_tight :: "ecst \<Rightarrow> nptr list \<Rightarrow> bool" where
  "ec_tight s ps \<longleftrightarrow> (\<forall>a. ec_strings s a \<noteq> None \<longrightarrow> Some (Ctx a) \<in> ctx_of s ` set ps)"

lemma ec_tight_same: "same_list s s' \<Longrightarrow> ec_tight s ps \<Longrightarrow> ec_tight s' ps"
  using same_list_at(1) [of s s'] by (simp add: ec_tight_def same_list_def the_node_def)

lemma ec_tight_start: "ec_tight (ec_start l) []"
  by (simp add: ec_tight_def ec_start_def)

text \<open>The state after a node was allocated, filled and made the head.\<close>

definition linked :: "nptr \<Rightarrow> cptr \<Rightarrow> int \<Rightarrow> EC_ERRTYPE \<Rightarrow> ecst \<Rightarrow> ecst" where
  "linked p c e ty s2 = store_node p \<lparr>ec_next = ec_head s2, ec_errno = e, ec_type = ty, ec_context = Some c\<rparr> (s2\<lparr>ec_head := Some p\<rparr>)"

lemma linked_fields:
  assumes inv: "ec_inv s1 ps" and r: "new_node ev s1 = (Some p, s2)"
  shows "ctx_at (linked p c e ty s2) = ctx_at s1" "ec_strings (linked p c e ty s2) = ec_strings s1"
    "ec_s_emergency (linked p c e ty s2) = ec_s_emergency s1" "insert_frame s1 (linked p c e ty s2)"
    "ec_tick (linked p c e ty s2) = Suc (ec_tick s1)" "q \<in> set ps \<Longrightarrow> node_at (linked p c e ty s2) q = node_at s1 q"
    "ec_head (linked p c e ty s2) = Some p"
    "node_at (linked p c e ty s2) p = Some \<lparr>ec_next = ec_head s1, ec_errno = e, ec_type = ty, ec_context = Some c\<rparr>"
proof -
  note p = new_node_inv [OF inv r]
  show "ctx_at (linked p c e ty s2) = ctx_at s1"
    by (rule ext, case_tac x) (cases p, simp_all add: linked_def p(3) tick_def)+
  show "ec_strings (linked p c e ty s2) = ec_strings s1" "ec_s_emergency (linked p c e ty s2) = ec_s_emergency s1"
    "insert_frame s1 (linked p c e ty s2)" "ec_tick (linked p c e ty s2) = Suc (ec_tick s1)" "ec_head (linked p c e ty s2) = Some p"
    "node_at (linked p c e ty s2) p = Some \<lparr>ec_next = ec_head s1, ec_errno = e, ec_type = ty, ec_context = Some c\<rparr>"
    by (cases p; simp add: linked_def p(3) tick_def insert_frame_def)+
  assume "q \<in> set ps"
  then have "p \<noteq> q" using p(1) by blast
  then show "node_at (linked p c e ty s2) q = node_at s1 q" by (cases p; cases q) (simp_all add: linked_def p(3) tick_def)
qed

lemma linked_inv:
  assumes inv: "ec_inv s1 ps" and r: "new_node ev s1 = (Some p, s2)" and c: "c \<noteq> Literal_ctx" "ctx_at s1 c = Some tx" "Some c \<notin> ctx_of s1 ` set ps"
    and esc: "c = Emergency_ctx \<longrightarrow> ec_s_emergency s1 \<noteq> []"
  shows "ec_inv (linked p c e ty s2) (p # ps)" "ec_abs (linked p c e ty s2) (p # ps) = (tx, e, ty) # ec_abs s1 ps"
proof -
  let ?s = "linked p c e ty s2"
  note p = new_node_inv [OF inv r]
  note F = linked_fields [OF inv r, where c = c and e = e and ty = ty]
  have em: "ec_context (ec_node_emergency ?s) \<noteq> None \<longleftrightarrow> Emergency_node \<in> set (p # ps)"
    using inv p(1) by (cases p) (auto simp: linked_def p(3) tick_def ec_inv_def)
  have heap: "\<forall>a. ec_heap ?s a \<noteq> None \<longleftrightarrow> Node a \<in> set (p # ps)"
    using inv p(1) by (cases p) (auto simp: linked_def p(3) tick_def ec_inv_def)
  have brk: "\<forall>a\<in>dom (ec_heap ?s) \<union> dom (ec_strings ?s). a < ec_brk ?s"
    using inv p(4) by (cases p) (auto simp: linked_def p(3) tick_def ec_inv_def less_Suc_eq)
  have es: "c = Emergency_ctx \<or> Some Emergency_ctx \<in> ctx_of s1 ` set ps \<Longrightarrow> ec_s_emergency ?s \<noteq> []"
    using inv esc unfolding F(3) ec_inv_def by blast
  show "ec_inv ?s (p # ps)" "ec_abs ?s (p # ps) = (tx, e, ty) # ec_abs s1 ps"
    using ec_inv_cons [OF inv p(1) F(8) F(6) F(7), of c tx] c F(1) em heap brk es by simp_all
qed

lemma linked_tight:
  assumes inv: "ec_inv s1 ps" and r: "new_node ev s1 = (Some p, s2)" and n: "new_context ev f g l x s = Some (c, s1)"
    and same: "node_at s1 = node_at s" and tight: "ec_tight s ps"
  shows "ec_tight (linked p c e ty s2) (p # ps)"
  unfolding ec_tight_def
proof (intro allI impI)
  let ?s = "linked p c e ty s2"
  note F = linked_fields [OF inv r, where c = c and e = e and ty = ty]
  fix a assume "ec_strings ?s a \<noteq> None"
  then have "c = Ctx a \<or> ec_strings s a \<noteq> None"
    using n F(2) by (auto simp: new_context_def tick_def Let_def split: if_splits)
  moreover have "ctx_of ?s p = Some c" using F(8) by (simp add: the_node_def)
  moreover have "Some (Ctx a) \<in> ctx_of ?s ` set ps" if "ec_strings s a \<noteq> None"
  proof -
    obtain q where q: "q \<in> set ps" "Some (Ctx a) = ctx_of s q" using tight \<open>ec_strings s a \<noteq> None\<close> by (auto simp: ec_tight_def)
    then have "Some (Ctx a) = ctx_of ?s q" using F(6) [OF q(1)] same by (simp add: the_node_def)
    then show ?thesis using q(1) by (rule image_eqI)
  qed
  ultimately show "Some (Ctx a) \<in> ctx_of ?s ` set (p # ps)" by auto
qed

lemma ec_insert_room:
  assumes inv: "ec_inv s ps" and cr: "context_room ev s"
  shows "\<exists>s' ps'. ec_insert ev f g l x e ty s = Ec_ok s' \<and> ec_inv s' ps' \<and> insert_frame s s'
    \<and> ec_tick s' = Suc (Suc (ec_tick s))
    \<and> ec_abs s' ps' = (if node_room ev s
         then (stored_text (ev_calloc ev (ec_tick s)) f g l (case x of None \<Rightarrow> [] | Some t \<Rightarrow> t), e, ty) # ec_abs s ps
         else ec_abs s ps)
    \<and> (node_room ev s \<longrightarrow> ec_tight s ps \<longrightarrow> ec_tight s' ps')
    \<and> (ev_calloc ev (Suc (ec_tick s)) \<longrightarrow> Emergency_node \<in> set ps' \<longrightarrow> Emergency_node \<in> set ps)"
proof -
  let ?x = "case x of None \<Rightarrow> [] | Some t \<Rightarrow> t"
  obtain c s1 where n: "new_context ev f g l ?x s = Some (c, s1)"
    using cr by (cases "ev_calloc ev (ec_tick s)") (simp_all add: new_context_def context_room_def tick_def Let_def)
  note c = new_context_inv [OF inv n]
  obtain r s2 where r: "new_node ev s1 = (r, s2)" by fastforce
  have room: "r = None \<longleftrightarrow> \<not> node_room ev s" using r c(8,9)
    by (auto simp: new_node_def node_room_def tick_def Let_def split: if_splits)
  show ?thesis
  proof (cases r)
    case None
    then have "s2 = tick s1" using r by (auto simp: new_node_def tick_def Let_def split: if_splits)
    moreover have "same_list s1 (tick s1)" by (simp add: same_list_def tick_def)
    moreover have "insert_frame s (tick s1)" "ec_tick (tick s1) = Suc (Suc (ec_tick s))"
      using c(7,8) by (simp_all add: insert_frame_def tick_def)
    ultimately show ?thesis using n r None room c(2) ec_inv_same [OF _ c(1)] ec_abs_same [of s1 "tick s1"]
      by (intro exI [of _ "tick s1"] exI [of _ ps]) (simp add: ec_insert_def)
  next
    case (Some p)
    let ?s = "linked p c e ty s2"
    note r' = r [unfolded Some]
    note F = linked_fields [OF c(1) r', where c = c and e = e and ty = ty]
    have "ec_insert ev f g l x e ty s = Ec_ok ?s" using n r' by (simp add: ec_insert_def linked_def)
    moreover have "insert_frame s ?s" "ec_tick ?s = Suc (Suc (ec_tick s))"
      using c(7,8) F(4,5) by (simp_all add: insert_frame_def)
    moreover have "Emergency_node \<in> set ps" if "ev_calloc ev (Suc (ec_tick s))" "Emergency_node \<in> set (p # ps)"
      using that r' c(8) by (auto simp: new_node_def tick_def Let_def split: if_splits)
    ultimately show ?thesis
      using linked_inv [OF c(1) r' c(3-6), where e = e and ty = ty] linked_tight [OF c(1) r' n c(10), where e = e and ty = ty] c(2) room Some
      by (intro exI [of _ ?s] exI [of _ "p # ps"]) (simp, blast)
  qed
qed

section \<open>The operations under the invariant\<close>

text \<open>The mutex works: no call fails.\<close>

definition mutex_works :: "ec_env \<Rightarrow> bool" where
  "mutex_works ev \<longleftrightarrow> (\<forall>n. ev_mutex ev n = 0)"

lemma ec_mutex_lock:
  "mutex_works ev \<Longrightarrow> \<not> ec_mtx s \<Longrightarrow> ec_mutex ev True s = Ec_ok ((tick s)\<lparr>ec_mtx := True\<rparr>)"
  by (simp add: ec_mutex_def mutex_works_def tick_def Let_def)

lemma ec_mutex_unlock:
  "mutex_works ev \<Longrightarrow> ec_mutex ev False s = Ec_ok ((tick s)\<lparr>ec_mtx := False\<rparr>)"
  by (simp add: ec_mutex_def mutex_works_def tick_def Let_def)

lemma ec_mutex_deadlock:
  "mutex_works ev \<Longrightarrow> ec_mtx s \<Longrightarrow> ec_mutex ev True s = Ec_deadlock (tick s)"
  by (simp add: ec_mutex_def mutex_works_def tick_def Let_def)

text \<open>The stubs work.\<close>

lemma stub_works: "mutex_works (ev\<lparr>ev_mutex := (\<lambda>n. pthread_mutex_lock n)\<rparr>)"
  by (simp add: mutex_works_def pthread_mutex_lock_def)

lemma same_list_env:
  "same_list s (tick s)" "same_list s (s\<lparr>ec_mtx := m\<rparr>)" "same_list s (eput t s)" "same_list s (s\<lparr>ec_log := l\<rparr>)"
  "same_list s (s\<lparr>attexit_called := b\<rparr>)" "same_list s (s\<lparr>ec_handlers := h\<rparr>)"
  by (simp_all add: same_list_def tick_def eput_def)

text \<open>What the trace of a list of errors is.\<close>

fun trace_lines :: "ec_env \<Rightarrow> nat \<Rightarrow> ec_entry list \<Rightarrow> string list" where
  "trace_lines ev level [] = []"
| "trace_lines ev level ((t, e, ty) # es) = trace_line ev level (es = []) t e ty # trace_lines ev (Suc level) es"

fun trace_text :: "ec_env \<Rightarrow> nat \<Rightarrow> nptr list \<Rightarrow> ec_entry list \<Rightarrow> string" where
  "trace_text ev level (p # ps) ((t, e, ty) # es) =
     (if p = Emergency_node then trace_incomplete else [])
     @ trace_line ev level (es = []) t e ty @ [NL] @ trace_text ev (Suc level) ps es"
| "trace_text ev level _ _ = []"

lemma print_loop_quiet:
  assumes "ec_chain s e ps" and "length ps \<le> fuel" and "\<not> enable_logging (ec_log s)"
    and "\<forall>p\<in>set ps. \<exists>c. ctx_of s p = Some c \<and> c \<noteq> Literal_ctx \<and> ctx_at s c \<noteq> None"
  shows "print_loop ev fuel e level s = Ec_ok (eput (trace_text ev level ps (ec_abs s ps)) s)"
  using assms
proof (induction ps arbitrary: fuel e level s)
  case Nil
  then show ?case by simp
next
  case (Cons p ps)
  obtain fl where fl: "fuel = Suc fl" using Cons.prems(2) by (cases fuel) auto
  obtain n where n: "e = Some p" "node_at s p = Some n" "ec_chain s (ec_next n) ps" using Cons.prems(1) by auto
  then have tn: "the_node s p = n" by (simp add: the_node_def)
  obtain c t where c: "ec_context n = Some c" "ctx_at s c = Some t" using Cons.prems(4) tn by fastforce
  let ?w = "if p = Emergency_node then trace_incomplete else []"
  let ?b = "trace_line ev level (ec_next n = None) t (ec_errno n) (ec_type n)"
  let ?s = "eput (?w @ ?b @ [NL]) s"
  have last: "ec_next n = None \<longleftrightarrow> ec_abs s ps = []"
    using n(3) by (cases ps) (auto simp: ec_abs_def)
  have "print_loop ev fuel e level s = print_loop ev fl (ec_next n) (Suc level) ?s"
    using fl n c Cons.prems(3) by (simp add: logfmt_disabled Let_def)
  also have "\<dots> = Ec_ok (eput (trace_text ev (Suc level) ps (ec_abs ?s ps)) ?s)"
  proof (rule Cons.IH)
    show "ec_chain ?s (ec_next n) ps" using n(3) ec_chain_cong [of ps ?s s] by simp
    show "\<forall>p\<in>set ps. \<exists>c. ctx_of ?s p = Some c \<and> c \<noteq> Literal_ctx \<and> ctx_at ?s c \<noteq> None"
      using Cons.prems(4) by (simp add: the_node_def)
  qed (use Cons.prems fl in simp_all)
  also have "\<dots> = Ec_ok (eput (trace_text ev level (p # ps) (ec_abs s (p # ps))) s)"
  proof -
    have "ec_abs s (p # ps) = (t, ec_errno n, ec_type n) # ec_abs s ps"
      using c tn by (simp add: ec_abs_def)
    then show ?thesis using last by simp
  qed
  finally show ?case .
qed

lemma ec_print_quiet:
  assumes "mutex_works ev" and "\<not> ec_mtx s" and "\<not> enable_logging (ec_log s)" and inv: "ec_inv s ps"
  shows "\<exists>n. ec_print ev s = Ec_ok ((eput (trace_text ev 0 ps (ec_abs s ps)) s)\<lparr>ec_tick := n, ec_mtx := False\<rparr>)"
proof -
  let ?s = "(tick s)\<lparr>ec_mtx := True\<rparr>"
  have same: "same_list s ?s" by (simp add: same_list_def tick_def)
  note inv' = ec_inv_same [OF same inv]
  have "print_loop ev (ec_fuel ?s) (ec_head ?s) 0 ?s = Ec_ok (eput (trace_text ev 0 ps (ec_abs ?s ps)) ?s)"
    using ec_inv_next(1) [OF inv'] ec_inv_length [OF inv'] ec_inv_ctx [OF inv'] assms(3)
    by (intro print_loop_quiet) (auto simp: tick_def)
  then show ?thesis using assms(1,2)
    by (simp add: ec_print_def ec_mutex_lock ec_mutex_unlock ec_abs_same [OF same])
       (auto simp: eput_def tick_def)
qed

text \<open>The trace without the mark for the emergency node.\<close>

lemma trace_text_plain:
  "Emergency_node \<notin> set ps \<Longrightarrow> length ps = length es \<Longrightarrow>
   trace_text ev level ps es = concat (map (\<lambda>t. t @ [NL]) (trace_lines ev level es))"
proof (induction ev level es arbitrary: ps rule: trace_lines.induct)
  case (2 ev level t e ty es)
  then show ?case by (cases ps) auto
qed (simp add: trace_text.simps)

lemma ec_abs_length [simp]: "length (ec_abs s ps) = length ps"
  by (simp add: ec_abs_def)

section \<open>Freeing the list\<close>

text \<open>One turn of the loop of \<open>ec_reinit\<close>.\<close>

abbreviation freed :: "nptr \<Rightarrow> cptr \<Rightarrow> ecst \<Rightarrow> ecst" where
  "freed p c s \<equiv> s\<lparr>ec_heap := (\<lambda>a. if p = Node a then None else ec_heap s a),
     ec_strings := (\<lambda>a. if c = Ctx a then None else ec_strings s a)\<rparr>"

lemma reinit_loop_turn:
  assumes "node_at s p = Some n" and c: "ec_context n = Some c" "c \<noteq> Literal_ctx" "ctx_at s c \<noteq> None"
  shows "reinit_loop (Suc fuel) (Some p) s = reinit_loop fuel (ec_next n) (freed p c s)"
proof -
  let ?s1 = "s\<lparr>ec_strings := (\<lambda>a. if c = Ctx a then None else ec_strings s a)\<rparr>"
  have "(if ec_context n \<noteq> Some Emergency_ctx then free_ctx (ec_context n) s else Some s) = Some ?s1"
    using c by (cases c) (auto intro!: arg_cong [where f = "\<lambda>x. s\<lparr>ec_strings := x\<rparr>"] simp: fun_eq_iff)
  moreover have "(if p \<noteq> Emergency_node then free_node p ?s1 else Some ?s1) = Some (freed p c s)"
    using assms(1) by (cases p) (auto intro!: arg_cong [where f = "\<lambda>x. ?s1\<lparr>ec_heap := x\<rparr>"] simp: fun_eq_iff)
  ultimately show ?thesis using assms(1) by simp
qed

lemma freed_others: "q \<noteq> p \<Longrightarrow> node_at (freed p c s) q = node_at s q" "d \<noteq> c \<Longrightarrow> ctx_at (freed p c s) d = ctx_at s d"
  by (cases q; auto) (cases d; auto)

lemma reinit_loop_frees:
  assumes "ec_chain s e ps" and "length ps \<le> fuel" and "distinct ps"
    and "\<forall>p\<in>set ps. \<exists>c. ctx_of s p = Some c \<and> c \<noteq> Literal_ctx \<and> ctx_at s c \<noteq> None"
    and "distinct (map (ctx_of s) ps)"
  shows "reinit_loop fuel e s = Ec_ok (s\<lparr>
     ec_heap := (\<lambda>a. if Node a \<in> set ps then None else ec_heap s a),
     ec_strings := (\<lambda>a. if Some (Ctx a) \<in> ctx_of s ` set ps then None else ec_strings s a)\<rparr>)"
  using assms
proof (induction ps arbitrary: fuel e s)
  case Nil
  then show ?case by simp
next
  case (Cons p ps)
  obtain fl where fl: "fuel = Suc fl" using Cons.prems(2) by (cases fuel) auto
  obtain n where n: "e = Some p" "node_at s p = Some n" "ec_chain s (ec_next n) ps" using Cons.prems(1) by auto
  then have tn: "the_node s p = n" by (simp add: the_node_def)
  obtain c where c: "ec_context n = Some c" "c \<noteq> Literal_ctx" "ctx_at s c \<noteq> None"
    using Cons.prems(4) tn by fastforce
  let ?s = "freed p c s"
  have na: "node_at ?s q = node_at s q" if "q \<in> set ps" for q
    by (rule freed_others(1)) (use that Cons.prems(3) in auto)
  then have tq: "the_node ?s q = the_node s q" if "q \<in> set ps" for q using that by (simp only: the_node_def)
  have im: "ctx_of ?s ` set ps = ctx_of s ` set ps" "map (ctx_of ?s) ps = map (ctx_of s) ps" using tq by simp_all
  have cp: "Some c \<notin> ctx_of s ` set ps" using Cons.prems(5) tn c(1) by simp
  have "reinit_loop fuel e s = reinit_loop fl (ec_next n) ?s" unfolding fl n(1) by (rule reinit_loop_turn [OF n(2) c])
  also have "\<dots> = Ec_ok (?s\<lparr>
     ec_heap := (\<lambda>a. if Node a \<in> set ps then None else ec_heap ?s a),
     ec_strings := (\<lambda>a. if Some (Ctx a) \<in> ctx_of ?s ` set ps then None else ec_strings ?s a)\<rparr>)"
  proof (rule Cons.IH)
    show "ec_chain ?s (ec_next n) ps" using n(3) ec_chain_cong [OF na, of ps] by simp
    show "\<forall>q\<in>set ps. \<exists>d. ctx_of ?s q = Some d \<and> d \<noteq> Literal_ctx \<and> ctx_at ?s d \<noteq> None"
    proof
      fix q assume q: "q \<in> set ps"
      then obtain d where d: "ctx_of s q = Some d" "d \<noteq> Literal_ctx" "ctx_at s d \<noteq> None"
        using Cons.prems(4) by auto
      moreover have "d \<noteq> c" using d(1) q cp by (metis imageI)
      ultimately show "\<exists>d. ctx_of ?s q = Some d \<and> d \<noteq> Literal_ctx \<and> ctx_at ?s d \<noteq> None"
        using tq [OF q] freed_others(2) [of d c s p] by simp
    qed
    show "distinct (map (ctx_of ?s) ps)" using Cons.prems(5) unfolding im by (simp only: list.map distinct.simps)
  qed (use Cons.prems fl in simp_all)
  also have "(\<lambda>a. if Node a \<in> set ps then None else ec_heap ?s a) = (\<lambda>a. if Node a \<in> set (p # ps) then None else ec_heap s a)" by auto
  also have "(\<lambda>a. if Some (Ctx a) \<in> ctx_of ?s ` set ps then None else ec_strings ?s a)
        = (\<lambda>a. if Some (Ctx a) \<in> ctx_of s ` set (p # ps) then None else ec_strings s a)"
    unfolding im using tn c(1) by auto
  finally show ?case by simp
qed

text \<open>\<open>ec_reinit\<close> empties the list and frees all of it.\<close>

lemma ec_reinit_empties:
  assumes "mutex_works ev" and "\<not> ec_mtx s" and inv: "ec_inv s ps"
  shows "\<exists>s'. ec_reinit ev s = Ec_ok s' \<and> ec_inv s' [] \<and> ec_heap s' = Map.empty
     \<and> ec_node_emergency s' = zero_node \<and> ec_s_emergency s' = [] \<and> (ec_tight s ps \<longrightarrow> ec_tight s' [])
     \<and> \<not> ec_mtx s' \<and> ec_stderr s' = ec_stderr s \<and> ec_log s' = ec_log s
     \<and> attexit_called s' = attexit_called s \<and> ec_handlers s' = ec_handlers s"
proof -
  let ?s = "(tick s)\<lparr>ec_mtx := True\<rparr>"
  have same: "same_list s ?s" by (simp add: same_list_def tick_def)
  note inv' = ec_inv_same [OF same inv]
  have "reinit_loop (ec_fuel ?s) (ec_head ?s) ?s = Ec_ok (?s\<lparr>
     ec_heap := (\<lambda>a. if Node a \<in> set ps then None else ec_heap ?s a),
     ec_strings := (\<lambda>a. if Some (Ctx a) \<in> ctx_of ?s ` set ps then None else ec_strings ?s a)\<rparr>)" (is "_ = Ec_ok ?t")
    using inv' ec_inv_length [OF inv'] ec_inv_ctx [OF inv']
    by (intro reinit_loop_frees) (simp_all add: ec_inv_def)
  then have r: "ec_reinit ev s = Ec_ok ((tick (?t\<lparr>ec_head := None, ec_node_emergency := zero_node, ec_s_emergency := []\<rparr>))\<lparr>ec_mtx := False\<rparr>)"
    using assms(1,2) by (simp add: ec_reinit_def ec_mutex_lock ec_mutex_unlock)
  let ?u = "(tick (?t\<lparr>ec_head := None, ec_node_emergency := zero_node, ec_s_emergency := []\<rparr>))\<lparr>ec_mtx := False\<rparr>"
  have h: "ec_heap ?u = Map.empty"
    using ec_inv_heap [OF inv] by (auto simp: tick_def fun_eq_iff)
  moreover have "\<forall>a\<in>dom (ec_strings ?u). a < ec_brk ?u"
    using inv by (auto simp: tick_def ec_inv_def split: if_splits)
  ultimately have "ec_inv ?u []" by (simp add: ec_inv_def zero_node_def tick_def)
  moreover have "ec_tight ?u []" if "ec_tight s ps"
    using ec_tight_same [OF same that] by (auto simp: ec_tight_def tick_def)
  ultimately show ?thesis using r h
    by (intro exI [of _ ?u]) (simp add: tick_def)
qed

section \<open>\<open>ec_push\<close>\<close>

text \<open>The state after the mutex is taken.\<close>

definition locked :: "ecst \<Rightarrow> ecst" where
  "locked s = (tick s)\<lparr>ec_mtx := True\<rparr>"

lemma locked_same: "same_list s (locked s)"
  by (simp add: locked_def same_list_def tick_def)

lemma locked_fields [simp]:
  "ec_stderr (locked s) = ec_stderr s" "ec_log (locked s) = ec_log s" "ec_mtx (locked s)"
  "attexit_called (locked s) = attexit_called s" "ec_handlers (locked s) = ec_handlers s"
  "ec_tick (locked s) = Suc (ec_tick s)"
  by (simp_all add: locked_def tick_def)

lemma ec_mutex_locked:
  "mutex_works ev \<Longrightarrow> \<not> ec_mtx s \<Longrightarrow> ec_mutex ev True s = Ec_ok (locked s)"
  by (simp add: ec_mutex_lock locked_def)

lemma ec_push_undefined:
  "mutex_works ev \<Longrightarrow> \<not> ec_mtx s \<Longrightarrow> \<not> context_room ev (locked s) \<Longrightarrow> ec_push ev f g l x e ty s = Ec_undefined"
  by (subst ec_push.simps) (simp add: ec_mutex_locked ec_insert_undefined)

text \<open>The end of \<open>ec_push\<close>: the first call registers the exit handler.\<close>

definition pushed :: "ecst \<Rightarrow> ecst \<Rightarrow> bool" where
  "pushed s s' \<longleftrightarrow> \<not> ec_mtx s' \<and> ec_stderr s' = ec_stderr s \<and> ec_log s' = ec_log s \<and> attexit_called s'
     \<and> ec_handlers s' = (if attexit_called s then ec_handlers s else Suc (ec_handlers s))"

lemma ec_push_room:
  assumes works: "mutex_works ev" "\<not> ec_mtx s" and inv: "ec_inv s ps"
    and cr: "context_room ev (locked s)" and ax: "attexit_called s \<or> (\<forall>n. ev_atexit ev n = 0)"
  shows "\<exists>s' ps'. ec_push ev f g l x e ty s = Ec_ok s' \<and> ec_inv s' ps' \<and> pushed s s'
     \<and> ec_abs s' ps' = (if node_room ev (locked s)
          then (stored_text (ev_calloc ev (Suc (ec_tick s))) f g l (case x of None \<Rightarrow> [] | Some t \<Rightarrow> t), e, ty) # ec_abs s ps
          else ec_abs s ps)
     \<and> (node_room ev (locked s) \<longrightarrow> ec_tight s ps \<longrightarrow> ec_tight s' ps')
     \<and> (ev_calloc ev (Suc (Suc (ec_tick s))) \<longrightarrow> Emergency_node \<in> set ps' \<longrightarrow> Emergency_node \<in> set ps)"
proof -
  from ec_insert_room [OF ec_inv_same [OF locked_same inv] cr, of f g l x e ty]
  obtain s2 ps' where ins: "ec_insert ev f g l x e ty (locked s) = Ec_ok s2" "ec_inv s2 ps'" "insert_frame (locked s) s2"
    and abs2: "ec_abs s2 ps' = (if node_room ev (locked s)
          then (stored_text (ev_calloc ev (Suc (ec_tick s))) f g l (case x of None \<Rightarrow> [] | Some t \<Rightarrow> t), e, ty) # ec_abs (locked s) ps
          else ec_abs (locked s) ps)"
    and ti: "node_room ev (locked s) \<longrightarrow> ec_tight (locked s) ps \<longrightarrow> ec_tight s2 ps'"
    and em: "ev_calloc ev (Suc (Suc (ec_tick s))) \<longrightarrow> Emergency_node \<in> set ps' \<longrightarrow> Emergency_node \<in> set ps"
    by auto
  note fr = ins(3) [unfolded insert_frame_def]
  define s' where "s' = (if attexit_called s then (tick s2)\<lparr>ec_mtx := False\<rparr>
     else (tick ((tick (s2\<lparr>attexit_called := True\<rparr>))\<lparr>ec_mtx := False\<rparr>))\<lparr>ec_handlers := Suc (ec_handlers s2)\<rparr>)"
  have "ec_push ev f g l x e ty s = Ec_ok s'"
    using works ax ins(1) fr
    by (subst ec_push.simps) (auto simp: ec_mutex_locked ec_mutex_unlock s'_def tick_def)
  moreover have same: "same_list s2 s'" by (simp add: s'_def same_list_def tick_def)
  moreover have "pushed s s'" using fr by (simp add: s'_def pushed_def tick_def)
  ultimately show ?thesis
    using ec_inv_same [OF same ins(2)] abs2 em ti ec_tight_same [OF same] ec_tight_same [OF locked_same]
    by (intro exI [of _ s'] exI [of _ ps']) (simp add: ec_abs_same [OF same] ec_abs_same [OF locked_same])
qed

section \<open>Sequences of calls\<close>

datatype ec_call =
    Push string string int "string option" int EC_ERRTYPE
  | Print
  | Reinit

fun ec_step :: "ec_env \<Rightarrow> ec_call \<Rightarrow> ecst \<Rightarrow> ecst ec_res" where
  "ec_step ev (Push f g l x e ty) s = ec_push ev f g l x e ty s"
| "ec_step ev Print s = ec_print ev s"
| "ec_step ev Reinit s = ec_reinit ev s"

fun ec_run :: "ec_env \<Rightarrow> ec_call list \<Rightarrow> ecst \<Rightarrow> ecst ec_res" where
  "ec_run ev [] s = Ec_ok s"
| "ec_run ev (c # cs) s = ec_bind (ec_step ev c s) (ec_run ev cs)"

text \<open>The specification: a stack of errors and the text printed so far.\<close>

definition print_stack :: "ec_env \<Rightarrow> ec_entry list \<Rightarrow> string" where
  "print_stack ev es = concat (map (\<lambda>t. t @ [NL]) (trace_lines ev 0 es))"

fun stack_step :: "ec_env \<Rightarrow> ec_call \<Rightarrow> ec_entry list \<times> string \<Rightarrow> ec_entry list \<times> string" where
  "stack_step ev (Push f g l x e ty) (es, out1) =
     ((stored_text True f g l (case x of None \<Rightarrow> [] | Some t \<Rightarrow> t), e, ty) # es, out1)"
| "stack_step ev Print (es, out1) = (es, out1 @ print_stack ev es)"
| "stack_step ev Reinit (es, out1) = ([], out1)"

definition stack_run :: "ec_env \<Rightarrow> ec_call list \<Rightarrow> ec_entry list \<times> string" where
  "stack_run ev cs = fold (stack_step ev) cs ([], [])"

fun is_push :: "ec_call \<Rightarrow> bool" where
  "is_push (Push f g l x e ty) = True"
| "is_push Print = False"
| "is_push Reinit = False"

text \<open>An environment in which every call succeeds.\<close>

definition all_works :: "ec_env \<Rightarrow> bool" where
  "all_works ev \<longleftrightarrow> mutex_works ev \<and> (\<forall>n. ev_calloc ev n) \<and> (\<forall>n. ev_atexit ev n = 0)"

definition ec_sim :: "ecst \<Rightarrow> nptr list \<Rightarrow> ec_entry list \<times> string \<Rightarrow> bool" where
  "ec_sim s ps a \<longleftrightarrow> ec_inv s ps \<and> ec_tight s ps \<and> Emergency_node \<notin> set ps \<and> \<not> ec_mtx s
     \<and> \<not> enable_logging (ec_log s) \<and> ec_handlers s = (if attexit_called s then 1 else 0)
     \<and> a = (ec_abs s ps, ec_stderr s)"

lemma ec_step_sim:
  assumes "all_works ev" and sim: "ec_sim s ps a"
  shows "\<exists>s' ps'. ec_step ev c s = Ec_ok s' \<and> ec_sim s' ps' (stack_step ev c a)
     \<and> (attexit_called s' \<longleftrightarrow> attexit_called s \<or> is_push c)"
proof (cases c)
  case (Push f g l x e ty)
  have room: "context_room ev (locked s)" "node_room ev (locked s)"
    using assms(1) by (simp_all add: all_works_def context_room_def node_room_def)
  from ec_push_room [of ev s ps f g l x e ty] room assms
  obtain s' ps' where "ec_push ev f g l x e ty s = Ec_ok s'" "ec_inv s' ps'" "pushed s s'" "ec_tight s' ps'"
    "Emergency_node \<in> set ps' \<longrightarrow> Emergency_node \<in> set ps"
    "ec_abs s' ps' = (stored_text True f g l (case x of None \<Rightarrow> [] | Some t \<Rightarrow> t), e, ty) # ec_abs s ps"
    by (auto simp: all_works_def ec_sim_def)
  with sim Push show ?thesis
    by (intro exI [of _ s'] exI [of _ ps']) (auto simp: ec_sim_def pushed_def)
next
  case Print
  from sim assms(1) have "mutex_works ev" "\<not> ec_mtx s" "\<not> enable_logging (ec_log s)" "ec_inv s ps"
    by (simp_all add: ec_sim_def all_works_def)
  from ec_print_quiet [OF this] obtain n where
    r: "ec_print ev s = Ec_ok ((eput (trace_text ev 0 ps (ec_abs s ps)) s)\<lparr>ec_tick := n, ec_mtx := False\<rparr>)" by blast
  let ?s = "(eput (trace_text ev 0 ps (ec_abs s ps)) s)\<lparr>ec_tick := n, ec_mtx := False\<rparr>"
  have same: "same_list s ?s" by (simp add: same_list_def eput_def)
  have "trace_text ev 0 ps (ec_abs s ps) = print_stack ev (ec_abs s ps)"
    using sim trace_text_plain by (simp add: ec_sim_def print_stack_def)
  then have "ec_sim ?s ps (stack_step ev Print a)"
    using sim ec_inv_same [OF same] ec_tight_same [OF same] ec_abs_same [OF same]
    by (simp add: ec_sim_def) (simp add: eput_def)
  with r Print show ?thesis by (intro exI [of _ ?s] exI [of _ ps]) (simp add: eput_def)
next
  case Reinit
  from sim assms(1) have "mutex_works ev" "\<not> ec_mtx s" "ec_inv s ps"
    by (simp_all add: ec_sim_def all_works_def)
  from ec_reinit_empties [OF this] obtain s' where s': "ec_reinit ev s = Ec_ok s'" "ec_inv s' []" "ec_tight s' []"
    "\<not> ec_mtx s'" "ec_stderr s' = ec_stderr s" "ec_log s' = ec_log s"
    "attexit_called s' = attexit_called s" "ec_handlers s' = ec_handlers s"
    using sim by (auto simp: ec_sim_def)
  then have "ec_sim s' [] (stack_step ev Reinit a)"
    using sim by (simp add: ec_sim_def ec_abs_def)
  with s' Reinit show ?thesis by (intro exI [of _ s'] exI [of _ "[]"]) simp
qed

lemma ec_run_sim:
  assumes "all_works ev"
  shows "ec_sim s ps a \<Longrightarrow> \<exists>s' ps'. ec_run ev cs s = Ec_ok s' \<and> ec_sim s' ps' (fold (stack_step ev) cs a)
     \<and> (attexit_called s' \<longleftrightarrow> attexit_called s \<or> (\<exists>c\<in>set cs. is_push c))"
proof (induction cs arbitrary: s ps a)
  case (Cons c cs)
  from ec_step_sim [OF assms Cons.prems, of c] obtain s1 ps1 where
    1: "ec_step ev c s = Ec_ok s1" "ec_sim s1 ps1 (stack_step ev c a)"
    "attexit_called s1 \<longleftrightarrow> attexit_called s \<or> is_push c" by blast
  from Cons.IH [OF 1(2)] 1 show ?case by force
qed auto

lemma ec_sim_start: "\<not> enable_logging l \<Longrightarrow> ec_sim (ec_start l) [] ([], [])"
  using ec_inv_start ec_tight_start by (simp add: ec_sim_def ec_abs_def) (simp add: ec_start_def)
section \<open>A concrete environment\<close>

definition ec_easy :: ec_env where
  "ec_easy = \<lparr>ev_mutex = (\<lambda>n. pthread_mutex_lock n), ev_calloc = (\<lambda>n. True), ev_atexit = (\<lambda>n. 0),
     ev_errno = (\<lambda>n. 2), ev_strerror = (\<lambda>e. None),
     ev_syserrmsgtype = (\<lambda>t e ty. t @ (if e = 0 then [] else ''*** '' @ show_int e)),
     ev_log = \<lparr>le_appendable = (\<lambda>p. False), le_timebuf = (\<lambda>n. []), le_pid = 1\<rparr>\<rparr>"

lemma ec_easy_works: "all_works ec_easy"
  by (simp add: all_works_def mutex_works_def ec_easy_def pthread_mutex_lock_def)

lemma start_fields [simp]:
  "ec_log (ec_start l) = l" "\<not> ec_mtx (ec_start l)" "\<not> attexit_called (ec_start l)"
  "ec_handlers (ec_start l) = 0" "ec_stderr (ec_start l) = []" "ec_s_emergency (ec_start l) = []"
  "ec_tick (ec_start l) = 0"
  by (simp_all add: ec_start_def)

section \<open>The interface\<close>

text \<open>
  What a program that reports errors relies on: an error that is pushed is the first of the list, clearing leaves none, and neither
  prints.  The state stands for the errors and what was printed.
\<close>

locale error_stack =
  fixes holds :: "'s \<Rightarrow> 'e list \<times> string \<Rightarrow> bool"
    and push :: "'a \<Rightarrow> 's \<Rightarrow> 's option"
    and clear :: "'s \<Rightarrow> 's option"
    and entry :: "'a \<Rightarrow> 'e"
  assumes push_holds: "holds s (es, t) \<Longrightarrow> \<exists>s'. push a s = Some s' \<and> holds s' (entry a # es, t)"
    and clear_holds: "holds s (es, t) \<Longrightarrow> \<exists>s'. clear s = Some s' \<and> holds s' ([], t)"
begin

lemma push_all:
  "holds s (es, t) \<Longrightarrow> \<exists>s'. fold (\<lambda>a r. Option.bind r (push a)) as (Some s) = Some s' \<and> holds s' (rev (map entry as) @ es, t)"
proof (induction as arbitrary: s es)
  case (Cons a as)
  from push_holds [OF Cons.prems, of a] obtain s1 where "push a s = Some s1" "holds s1 (entry a # es, t)" by blast
  with Cons.IH [of s1] show ?case by simp
qed simp

lemma clear_all:
  assumes "holds s (es, t)"
  shows "\<exists>s'. Option.bind (fold (\<lambda>a r. Option.bind r (push a)) as (Some s)) clear = Some s' \<and> holds s' ([], t)"
proof -
  obtain s1 where "fold (\<lambda>a r. Option.bind r (push a)) as (Some s) = Some s1" "holds s1 (rev (map entry as) @ es, t)"
    using push_all [OF assms, of as] by blast
  with clear_holds [of s1] show ?thesis by simp
qed

end

text \<open>The provider: \<open>ec_push\<close> and \<open>ec_reinit\<close> in an environment in which every call succeeds.\<close>

fun ec_done :: "'a ec_res \<Rightarrow> 'a option" where
  "ec_done (Ec_ok x) = Some x"
| "ec_done r = None"

lemma ec_done_Some [simp]: "ec_done r = Some x \<longleftrightarrow> r = Ec_ok x"
  by (cases r) auto

definition ec_holds :: "ec_env \<times> ecst \<Rightarrow> ec_entry list \<times> string \<Rightarrow> bool" where
  "ec_holds = (\<lambda>(ev, s) (es, t). all_works ev \<and> \<not> ec_mtx s \<and> ec_stderr s = t \<and> (\<exists>ps. ec_inv s ps \<and> ec_abs s ps = es))"

type_synonym ec_args = "string \<times> string \<times> int \<times> string \<times> int \<times> EC_ERRTYPE"

definition push_args :: "ec_args \<Rightarrow> ec_env \<times> ecst \<Rightarrow> (ec_env \<times> ecst) option" where
  "push_args = (\<lambda>(f, g, l, x, e, ty) (ev, s). map_option (Pair ev) (ec_done (ec_push ev f g l (Some x) e ty s)))"

definition clear_errors :: "ec_env \<times> ecst \<Rightarrow> (ec_env \<times> ecst) option" where
  "clear_errors = (\<lambda>(ev, s). map_option (Pair ev) (ec_done (ec_reinit ev s)))"

definition entry_of :: "ec_args \<Rightarrow> ec_entry" where
  "entry_of = (\<lambda>(f, g, l, x, e, ty). (stored_text True f g l x, e, ty))"

lemma push_args_holds:
  assumes "ec_holds (ev, s) (es, t)"
  shows "\<exists>s'. ec_push ev f g l (Some x) e ty s = Ec_ok s' \<and> ec_holds (ev, s') (entry_of (f, g, l, x, e, ty) # es, t)"
proof -
  obtain ps where s: "all_works ev" "\<not> ec_mtx s" "ec_stderr s = t" "ec_inv s ps" "ec_abs s ps = es"
    using assms by (auto simp: ec_holds_def)
  have room: "context_room ev (locked s)" "node_room ev (locked s)" "ev_calloc ev (Suc (ec_tick s))"
    "mutex_works ev" "attexit_called s \<or> (\<forall>n. ev_atexit ev n = 0)"
    using s(1) by (simp_all add: all_works_def context_room_def node_room_def)
  from ec_push_room [OF room(4) s(2,4) room(1,5), of f g l "Some x" e ty] room(2,3) s
  show ?thesis by (auto simp: ec_holds_def entry_of_def pushed_def)
qed

lemma clear_errors_holds:
  assumes "ec_holds (ev, s) (es, t)"
  shows "\<exists>s'. ec_reinit ev s = Ec_ok s' \<and> ec_holds (ev, s') ([], t)"
proof -
  obtain ps where s: "all_works ev" "\<not> ec_mtx s" "ec_stderr s = t" "ec_inv s ps"
    using assms by (auto simp: ec_holds_def)
  then have "mutex_works ev" by (simp add: all_works_def)
  from ec_reinit_empties [OF this s(2,4)] s(1,3) show ?thesis
    by (auto simp: ec_holds_def ec_abs_def)
qed

interpretation errors: error_stack ec_holds push_args clear_errors entry_of
proof unfold_locales
  fix s es t a
  assume h: "ec_holds s (es, t)"
  obtain ev s0 where s: "s = (ev, s0)" by (cases s)
  show "\<exists>s'. push_args a s = Some s' \<and> ec_holds s' (entry_of a # es, t)"
    using push_args_holds [OF h [unfolded s]] unfolding s by (cases a) (fastforce simp: push_args_def)
  show "\<exists>s'. clear_errors s = Some s' \<and> ec_holds s' ([], t)"
    using clear_errors_holds [OF h [unfolded s]] unfolding s by (fastforce simp: clear_errors_def)
qed

lemma ec_holds_start: "all_works ev \<Longrightarrow> ec_holds (ev, ec_start l) ([], [])"
  by (auto simp: ec_holds_def ec_start_def ec_abs_def intro!: exI [of _ "[]"] ec_inv_start [unfolded ec_start_def])

text \<open>A client: a macro of \<open>ec.h\<close> that finds an error pushes it and jumps.\<close>

definition site_args :: "site \<Rightarrow> int \<Rightarrow> EC_ERRTYPE \<Rightarrow> ec_args" where
  "site_args x err ty = (st_func x, st_file x, st_line x, st_text x, err, ty)"

lemma push_and_goto_holds:
  assumes "ec_holds (ev, s) (es, t)"
  shows "\<exists>s'. push_and_goto ev x err ty s = Ec_ok (Goto_cleanup, s') \<and> ec_holds (ev, s') (entry_of (site_args x err ty) # es, t)"
  using errors.push_holds [OF assms, of "site_args x err ty"]
  by (auto simp: push_args_def site_args_def push_and_goto_def)

end
