(* ===== verification/EcTheorems.thy ===== *)
theory EcTheorems
  imports EcStack
begin

text \<open>
  The properties of \<open>common/ec.c\<close>.
\<close>

section \<open>The stack of errors\<close>

text \<open>
C5: \<open>ec.c\<close> implements a stack of errors: when its calls of the system succeed, any sequence of \<open>ec_push\<close>,
\<open>ec_print\<close> and \<open>ec_reinit\<close> ends normally, without deadlock or undefined behaviour; the linked list
holds the errors of the abstract stack, standard error what the specification prints; when the
stack is empty nothing is left allocated; and at the exit of the process the trace is printed once,
if and only if an error was ever pushed.
\<close>

theorem ec_refines_stack:
  assumes "all_works ev" and "\<not> enable_logging l"
  shows "\<exists>s ps. ec_run ev cs (ec_start l) = Ec_ok s \<and> ec_inv s ps
     \<and> ec_abs s ps = fst (stack_run ev cs) \<and> ec_stderr s = snd (stack_run ev cs)
     \<and> (fst (stack_run ev cs) = [] \<longrightarrow> ec_heap s = Map.empty \<and> ec_strings s = Map.empty)
     \<and> (\<exists>s'. ec_at_exit ev s = Ec_ok s' \<and> ec_stderr s' = snd (stack_run ev cs)
          @ (if \<exists>c\<in>set cs. is_push c then print_stack ev (fst (stack_run ev cs)) else []))"
proof -
  obtain s ps where r: "ec_run ev cs (ec_start l) = Ec_ok s" and sim: "ec_sim s ps (stack_run ev cs)"
    and at: "attexit_called s \<longleftrightarrow> (\<exists>c\<in>set cs. is_push c)"
    using ec_run_sim [OF assms(1) ec_sim_start [OF assms(2)], of cs] by (simp add: stack_run_def) blast
  have a: "fst (stack_run ev cs) = ec_abs s ps" "snd (stack_run ev cs) = ec_stderr s"
    using sim by (simp_all add: ec_sim_def)
  have inv: "ec_inv s ps" using sim by (simp add: ec_sim_def)
  have empty: "ec_heap s = Map.empty \<and> ec_strings s = Map.empty" if "ec_abs s ps = []"
  proof -
    have "ps = []" using that by (simp add: ec_abs_def)
    with sim inv show ?thesis by (auto simp: ec_sim_def ec_tight_def ec_inv_heap fun_eq_iff)
  qed
  have "\<exists>s'. ec_at_exit ev s = Ec_ok s' \<and> ec_stderr s' = ec_stderr s @ (if attexit_called s then print_stack ev (ec_abs s ps) else [])"
  proof (cases "attexit_called s")
    case True
    obtain s' ps' where p: "ec_print ev s = Ec_ok s'" "ec_sim s' ps' (stack_step ev Print (stack_run ev cs))"
      using ec_step_sim [OF assms(1) sim, of Print] by auto
    have "ec_stderr s' = ec_stderr s @ print_stack ev (ec_abs s ps)"
      using p(2) a by (cases "stack_run ev cs") (simp add: ec_sim_def)
    moreover have "ec_handlers s = Suc 0" using sim True by (simp add: ec_sim_def)
    ultimately show ?thesis using True p(1) by (simp add: ec_at_exit_def ec_atexit_fcn_def)
  next
    case False
    with sim show ?thesis by (simp add: ec_at_exit_def ec_sim_def)
  qed
  then show ?thesis unfolding a using r inv empty at by (intro exI [of _ s] exI [of _ ps]) simp
qed

lemma ec_refines_stack_witness:
  "\<exists>s s'. ec_run ec_easy [Push ''f'' ''a.c'' 3 (Some ''open'') 2 EC_ERRNO, Push ''g'' ''a.c'' 9 None 0 EC_NONE]
        (ec_start log_init_state) = Ec_ok s
     \<and> ec_at_exit ec_easy s = Ec_ok s'
     \<and> ec_stderr s' = ''ERROR:'' @ [TAB] @ ''0: g [a.c:9] '' @ [NL] @ [TAB] @ ''1: f [a.c:3] open*** 2'' @ [NL]"
proof -
  let ?cs = "[Push ''f'' ''a.c'' 3 (Some ''open'') 2 EC_ERRNO, Push ''g'' ''a.c'' 9 None 0 EC_NONE]"
  have l: "\<not> enable_logging log_init_state" by (simp add: log_init_state_def)
  have "snd (stack_run ec_easy ?cs) = []" by code_simp
  moreover have "print_stack ec_easy (fst (stack_run ec_easy ?cs))
    = ''ERROR:'' @ [TAB] @ ''0: g [a.c:9] '' @ [NL] @ [TAB] @ ''1: f [a.c:3] open*** 2'' @ [NL]" by code_simp
  ultimately show ?thesis using ec_refines_stack [OF ec_easy_works l, of ?cs] by auto
qed

section \<open>When there is no memory\<close>

text \<open>
C21: In every state of the list \<open>ec_push\<close> is undefined exactly when the context cannot be allocated while
the emergency string is in use: it then writes into the string literal \<open>?\<close>.  Otherwise it returns
with the mutex free and the list intact, one error longer unless neither \<open>calloc\<close> nor the emergency
node gives a node.
\<close>

theorem ec_push_undefined_iff:
  assumes "mutex_works ev" and "\<not> ec_mtx s" and "ec_inv s ps"
    and "attexit_called s \<or> (\<forall>n. ev_atexit ev n = 0)"
  shows "(ec_push ev f g l x e ty s = Ec_undefined
          \<longleftrightarrow> \<not> ev_calloc ev (Suc (ec_tick s)) \<and> ec_s_emergency s \<noteq> [])
     \<and> (ec_push ev f g l x e ty s \<noteq> Ec_undefined \<longrightarrow>
          (\<exists>s' ps'. ec_push ev f g l x e ty s = Ec_ok s' \<and> \<not> ec_mtx s' \<and> ec_inv s' ps'
             \<and> length ps' = (if ev_calloc ev (Suc (Suc (ec_tick s))) \<or> Emergency_node \<notin> set ps
                             then Suc (length ps) else length ps)))"
proof -
  have cr: "context_room ev (locked s) \<longleftrightarrow> ev_calloc ev (Suc (ec_tick s)) \<or> ec_s_emergency s = []"
    by (simp add: context_room_def locked_def tick_def)
  have nr: "node_room ev (locked s) \<longleftrightarrow> ev_calloc ev (Suc (Suc (ec_tick s))) \<or> Emergency_node \<notin> set ps"
    using assms(3) by (simp add: node_room_def locked_def tick_def ec_inv_def)
  show ?thesis
  proof (cases "context_room ev (locked s)")
    case False
    with ec_push_undefined [OF assms(1,2)] cr show ?thesis by blast
  next
    case True
    from ec_push_room [OF assms(1-3) True assms(4), of f g l x e ty]
    obtain s' ps' where r: "ec_push ev f g l x e ty s = Ec_ok s'" "ec_inv s' ps'" "pushed s s'"
      and a: "ec_abs s' ps' = (if node_room ev (locked s)
          then (stored_text (ev_calloc ev (Suc (ec_tick s))) f g l (case x of None \<Rightarrow> [] | Some t \<Rightarrow> t), e, ty) # ec_abs s ps
          else ec_abs s ps)" by blast
    from arg_cong [OF a, of length] nr
    have "length ps' = (if ev_calloc ev (Suc (Suc (ec_tick s))) \<or> Emergency_node \<notin> set ps
       then Suc (length ps) else length ps)" by simp
    with r True cr show ?thesis by (auto simp: pushed_def)
  qed
qed

lemma ec_push_undefined_iff_witness:
  "let ev = ec_easy\<lparr>ev_calloc := (\<lambda>n. False)\<rparr> in
   \<exists>s. ec_push ev ''f'' ''a.c'' 3 None 2 EC_ERRNO (ec_start log_init_state) = Ec_ok s
     \<and> ec_push ev ''g'' ''a.c'' 9 None 2 EC_ERRNO s = Ec_undefined"
proof -
  let ?ev = "ec_easy\<lparr>ev_calloc := (\<lambda>n. False)\<rparr>"
  have w: "mutex_works ?ev" "\<forall>n. ev_atexit ?ev n = 0"
    by (simp_all add: mutex_works_def ec_easy_def pthread_mutex_lock_def)
  let ?push = "ec_push ?ev ''f'' ''a.c'' 3 None 2 EC_ERRNO (ec_start log_init_state)"
  have "?push \<noteq> Ec_undefined"
    using ec_push_undefined_iff [OF w(1) _ ec_inv_start, of log_init_state] w(2) by simp
  then obtain s ps where s: "?push = Ec_ok s" "\<not> ec_mtx s" "ec_inv s ps"
    using ec_push_undefined_iff [OF w(1) _ ec_inv_start, of log_init_state] w(2) by fastforce
  have "ec_s_emergency (case ?push of Ec_ok s \<Rightarrow> s | _ \<Rightarrow> ec_start log_init_state) \<noteq> []" by code_simp
  with s(1) have "ec_s_emergency s \<noteq> []" by simp
  with ec_push_undefined_iff [OF w(1) s(2,3)] w(2) s(1) show ?thesis by (auto simp: Let_def)
qed

section \<open>Printing with the log enabled\<close>

lemma print_loop_first:
  assumes inv: "ec_inv s ps" and a: "ec_abs s ps = (t, e, ty) # es" and "0 < fuel"
    and l: "logfmt (ev_log ev) (trace_line ev 0 (es = []) t e ty) [] (ec_log s) = r" "\<And>l. r \<noteq> Logged l"
  shows "\<exists>s'. print_loop ev fuel (ec_head s) 0 s
     = (case r of Log_exit m k \<Rightarrow> Ec_exit s' | _ \<Rightarrow> Ec_undefined) \<and> ec_mtx s' = ec_mtx s \<and> ec_handlers s' = ec_handlers s"
proof -
  obtain p qs where ps: "ps = p # qs" using a by (cases ps) (auto simp: ec_abs_def)
  obtain fl where fl: "fuel = Suc fl" using assms(3) by (cases fuel) auto
  have ch: "ec_head s = Some p" "node_at s p = Some (the_node s p)" "ec_chain s (ec_next (the_node s p)) qs"
    using ec_inv_next(1) [OF inv] ps by (auto simp: the_node_def)
  obtain c x where c: "ctx_of s p = Some c" "ctx_at s c = Some x"
    using ec_inv_ctx [OF inv, of p] ps by auto
  have ent: "t = x" "e = ec_errno (the_node s p)" "ty = ec_type (the_node s p)" "es = ec_abs s qs"
    using a ps c by (simp_all add: ec_abs_def)
  have "ec_next (the_node s p) = None \<longleftrightarrow> es = []"
    using ch(3) ent(4) by (cases qs) (auto simp: ec_abs_def)
  with fl ch c ent l show ?thesis
    by (cases r) (auto simp: Let_def eput_def cong: if_cong)
qed

text \<open>
C36: Printing the trace is not safe when logging is enabled: if the log file cannot be opened, \<open>logfmt\<close>
exits while \<open>ec_print\<close> holds its mutex, and the exit handler, which prints the trace again, waits for
ever for that mutex; and since the line is given to \<open>logfmt\<close> as its format, a context with a
conversion in it, such as the text of a call of \<open>printf\<close>, is undefined behaviour.
\<close>

theorem ec_print_with_log:
  assumes "mutex_works ev" and "\<not> ec_mtx s" and "ec_inv s ps" and "ec_abs s ps = (t, e, ty) # es"
    and "enable_logging (ec_log s)" and "0 < ec_handlers s"
  shows "(logfile (ec_log s) = None \<and> \<not> le_appendable (ev_log ev) (logpath (ec_log s)) \<longrightarrow>
            (\<exists>s' s''. ec_print ev s = Ec_exit s' \<and> ec_at_exit ev s' = Ec_deadlock s''))
     \<and> (logfile (ec_log s) \<noteq> None \<and> vformat (trace_line ev 0 (es = []) t e ty) [] = None \<longrightarrow>
            ec_print ev s = Ec_undefined)"
proof -
  let ?s = "locked s" and ?line = "trace_line ev 0 (es = []) t e ty"
  have inv: "ec_inv ?s ps" by (rule ec_inv_same [OF locked_same assms(3)])
  have a: "ec_abs ?s ps = (t, e, ty) # es" using assms(4) by (simp add: ec_abs_same [OF locked_same])
  have fu: "0 < ec_fuel ?s" by (simp add: ec_fuel_def)
  have pr: "ec_print ev s = ec_bind (print_loop ev (ec_fuel ?s) (ec_head ?s) 0 ?s) (ec_mutex ev False)"
    using assms(1,2) by (simp add: ec_print_def ec_mutex_locked)
  show ?thesis
  proof (intro conjI impI)
    assume h: "logfile (ec_log s) = None \<and> \<not> le_appendable (ev_log ev) (logpath (ec_log s))"
    then obtain m k where "logfmt (ev_log ev) ?line [] (ec_log ?s) = Log_exit m k"
      using assms(5) by (simp add: logfmt_closed log_init_cannot)
    from print_loop_first [OF inv a fu this] obtain s' where
      s': "print_loop ev (ec_fuel ?s) (ec_head ?s) 0 ?s = Ec_exit s'" "ec_mtx s'" "0 < ec_handlers s'"
      using assms(6) by auto
    obtain n where n: "ec_handlers s' = Suc n" using s'(3) by (cases "ec_handlers s'") auto
    have "ec_at_exit ev s' = Ec_deadlock (tick s')"
      using s'(2) assms(1) by (simp add: ec_at_exit_def n ec_atexit_fcn_def ec_print_def ec_mutex_deadlock)
    with pr s'(1) show "\<exists>s' s''. ec_print ev s = Ec_exit s' \<and> ec_at_exit ev s' = Ec_deadlock s''" by auto
  next
    assume h: "logfile (ec_log s) \<noteq> None \<and> vformat ?line [] = None"
    then have "logfmt (ev_log ev) ?line [] (ec_log ?s) = Log_undefined"
      using assms(5) by (auto simp: logfmt_bad_format)
    from print_loop_first [OF inv a fu this] pr show "ec_print ev s = Ec_undefined" by auto
  qed
qed

text \<open>The state after one push, with logging enabled.\<close>

lemma ec_print_with_log_witness:
  "let l = logfmt_enable True log_init_state in
   \<exists>s s' s''. ec_push ec_easy ''f'' ''a.c'' 3 (Some ''open'') 2 EC_ERRNO (ec_start l) = Ec_ok s
     \<and> ec_print ec_easy s = Ec_exit s' \<and> ec_at_exit ec_easy s' = Ec_deadlock s''"
proof -
  let ?l = "logfmt_enable True log_init_state"
  have w: "mutex_works ec_easy" using ec_easy_works by (simp add: all_works_def)
  have room: "context_room ec_easy (locked (ec_start ?l))" "node_room ec_easy (locked (ec_start ?l))"
    using ec_easy_works by (simp_all add: all_works_def context_room_def node_room_def)
  from ec_push_room [OF w _ ec_inv_start room(1), of "''f''" "''a.c''" 3 "Some ''open''" 2 EC_ERRNO] room(2)
  obtain s ps x where s: "ec_push ec_easy ''f'' ''a.c'' 3 (Some ''open'') 2 EC_ERRNO (ec_start ?l) = Ec_ok s"
    "ec_inv s ps" "pushed (ec_start ?l) s" "ec_abs s ps = (x, 2, EC_ERRNO) # ec_abs (ec_start ?l) []"
    using ec_easy_works by (auto simp: all_works_def)
  have "logfile (ec_log s) = None" "enable_logging (ec_log s)" "\<not> ec_mtx s" "0 < ec_handlers s"
    using s(3) by (simp_all add: pushed_def logfmt_enable_def log_init_state_def)
  with ec_print_with_log [OF w _ s(2,4)] s(1) show ?thesis
    by (auto simp: Let_def ec_easy_def)
qed

section \<open>The sizes of the buffers\<close>

text \<open>
C28: The buffers are large enough: for a line number of at most six digits the context holds the whole
text, whatever the lengths of the function, file and argument; and a line of the trace is never cut
at \<open>buf2\<close>, for any level an \<open>int\<close> can have, so that only \<open>buf\<close> limits the message, to 199 characters.
\<close>

theorem ec_buffers_suffice:
  assumes "0 \<le> line" and "line < 10 ^ 6" and "level < 2 ^ 31"
  shows "stored_text True fcn file line str = ec_text fcn file line str
    \<and> trace_line ev level last_one t e ty = (if level = 0 then ''ERROR:'' else []) @ [TAB] @ show_nat level @ '': ''
        @ take 199 (ev_syserrmsgtype ev t (if last_one then e else 0) ty)"
proof
  have "nat line < 10 ^ 6" using assms(1,2) by simp
  then have "length (show_nat (nat line)) \<le> 6" by (intro show_nat_length) simp_all
  then have "length (show_int line) \<le> 6" using assms(1) by (simp add: show_int_def)
  then show "stored_text True fcn file line str = ec_text fcn file line str" by (rule stored_text_full)
  have "level < 10 ^ 10" using assms(3) by simp
  then have l: "length (show_nat level) \<le> 10" by (intro show_nat_length) simp_all
  let ?m = "ev_syserrmsgtype ev t (if last_one then e else 0) ty"
  let ?b = "(if level = 0 then ''ERROR:'' else []) @ [TAB] @ show_nat level @ '': '' @ take 199 ?m"
  have "length ?b < 225" using l by (cases "level = 0") auto
  then have "snprintf 225 ?b = ?b" by (rule snprintf_fits)
  then show "trace_line ev level last_one t e ty = ?b"
    by (simp add: trace_line_def Let_def snprintf_def [of 200])
qed

lemma ec_buffers_suffice_witness:
  "stored_text True ''f'' ''a.c'' 999999 ''x'' = ec_text ''f'' ''a.c'' 999999 ''x''"
  using ec_buffers_suffice [of 999999 0 "''f''" "''a.c''" "''x''"] by simp

end
