(* ===== verification/CTable.thy ===== *)
theory CTable
  imports CLib
begin

text \<open>
  What a C compiler reads in a table of initialisers like \<open>common/macrostr.incl\<close>: string literals with their
  simple escape sequences, the rows that are written one to a line, and the conditional groups of the
  preprocessor.  What lies beyond this part of the language (octal and hexadecimal escapes, lines
  continued by a backslash, other directives) is answered like an error, with \<open>None\<close>; trigraphs are not
  replaced (the default mode of GCC).
\<close>

section \<open>String literals\<close>

definition simple_escape :: "char \<Rightarrow> char option" where
  "simple_escape = map_of
     [(BSLASH, BSLASH), (DQUOTE, DQUOTE), (CHR 0x27, CHR 0x27), (CHR ''?'', CHR ''?''), (CHR ''a'', CHR 0x07),
      (CHR ''b'', CHR 0x08), (CHR ''f'', CHR 0x0C), (CHR ''n'', NL), (CHR ''r'', CHR 0x0D), (CHR ''t'', TAB),
      (CHR ''v'', CHR 0x0B)]"

text \<open>The characters up to the closing quote, and what follows it.\<close>

fun read_literal :: "string \<Rightarrow> (string \<times> string) option" where
  "read_literal [] = None"
| "read_literal (c # s) =
     (if c = DQUOTE then Some ([], s)
      else if c = NL then None
      else if c = BSLASH
      then (case s of
              [] \<Rightarrow> None
            | e # s' \<Rightarrow>
                (case simple_escape e of
                   None \<Rightarrow> None
                 | Some x \<Rightarrow> map_option (\<lambda>(t, r). (x # t, r)) (read_literal s')))
      else map_option (\<lambda>(t, r). (c # t, r)) (read_literal s))"

text \<open>The value of a literal with the text \<open>t\<close> between its quotes.\<close>

definition literal :: "string \<Rightarrow> string option" where
  "literal t = (case read_literal (t @ [DQUOTE]) of Some (u, []) \<Rightarrow> Some u | _ \<Rightarrow> None)"

lemma read_literal_append: "read_literal s = Some (t, r) \<Longrightarrow> read_literal (s @ x) = Some (t, r @ x)"
  by (induction s arbitrary: t rule: read_literal.induct) (auto split: if_splits list.splits option.splits)

lemma read_literal_literal: "literal t = Some u \<Longrightarrow> read_literal (t @ DQUOTE # r) = Some (u, r)"
  using read_literal_append [of "t @ [DQUOTE]" u "[]" r]
  by (auto simp: literal_def split: option.splits list.splits)

lemma literal_plain: "set t \<inter> {DQUOTE, NL, BSLASH} = {} \<Longrightarrow> literal t = Some t"
proof -
  assume "set t \<inter> {DQUOTE, NL, BSLASH} = {}"
  then have "read_literal (t @ [DQUOTE]) = Some (t, [])" by (induction t) auto
  then show ?thesis by (simp add: literal_def)
qed

section \<open>A row\<close>

definition ident_char :: "char \<Rightarrow> bool" where
  "ident_char c \<longleftrightarrow> (let n = of_char c :: nat in
     48 \<le> n \<and> n \<le> 57 \<or> 65 \<le> n \<and> n \<le> 90 \<or> n = 95 \<or> 97 \<le> n \<and> n \<le> 122)"

definition c_ident :: "string \<Rightarrow> bool" where
  "c_ident t \<longleftrightarrow> t \<noteq> [] \<and> list_all ident_char t \<and> \<not> is_digit (hd t)"

definition expect :: "string \<Rightarrow> string \<Rightarrow> string option" where
  "expect p s = (if take (length p) s = p then Some (drop (length p) s) else None)"

lemma expect_append [simp]: "expect p (p @ s) = Some s"
  by (simp add: expect_def)

text \<open>The initialiser of a row: the category, the expression that is cast, the name and the description.\<close>

definition read_row :: "string \<Rightarrow> (string \<times> string \<times> string \<times> string) option" where
  "read_row l =
     Option.bind (expect (''{'' @ [DQUOTE]) l) (\<lambda>s1.
     Option.bind (read_literal s1) (\<lambda>(c, s2).
     Option.bind (expect '', (intptr_t)'' s2) (\<lambda>s3.
     if \<not> c_ident (takeWhile ident_char s3) then None else
     Option.bind (expect ('', '' @ [DQUOTE]) (dropWhile ident_char s3)) (\<lambda>s4.
     Option.bind (read_literal s4) (\<lambda>(m, s5).
     Option.bind (expect ('', '' @ [DQUOTE]) s5) (\<lambda>s6.
     Option.bind (read_literal s6) (\<lambda>(d, s7).
     if s7 = ''},'' then Some (c, takeWhile ident_char s3, m, d) else None)))))))"

lemma ident_char_plain: "ident_char c \<Longrightarrow> c \<notin> {DQUOTE, NL, BSLASH, NUL, SPC, TAB, CHR ''#'', CHR '':''}"
  by (auto simp: ident_char_def)

lemma c_ident_plain: "c_ident m \<Longrightarrow> set m \<inter> {DQUOTE, NL, BSLASH, NUL, SPC, TAB, CHR ''#'', CHR '':''} = {}"
  using ident_char_plain unfolding c_ident_def list_all_iff by blast

lemma c_ident_word:
  assumes "c_ident m"
  shows "m \<noteq> []" and "hd m \<noteq> CHR ''#''" and "last m \<noteq> CHR '':''" and "ctype_defined (last m)"
    and "\<forall>x\<in>set m. \<not> isspace x" and "NUL \<notin> set m" and "NL \<notin> set m" and "\<not> isspace (last m)"
proof -
  note p = c_ident_plain [OF assms]
  show m: "m \<noteq> []" using assms by (simp add: c_ident_def)
  show "hd m \<noteq> CHR ''#''" "last m \<noteq> CHR '':''" using p hd_in_set [OF m] last_in_set [OF m] by (metis disjoint_iff insertCI)+
  show "NUL \<notin> set m" "NL \<notin> set m" using p by auto
  have i: "\<forall>x\<in>set m. ident_char x" using assms by (simp add: c_ident_def list_all_iff)
  have "ident_char x \<Longrightarrow> \<not> isspace x \<and> ctype_defined x" for x
    by (auto simp: ident_char_def isspace_def ctype_defined_def Let_def)
  with i last_in_set [OF m] show "ctype_defined (last m)" "\<forall>x\<in>set m. \<not> isspace x" "\<not> isspace (last m)" by blast+
qed

lemma read_row_written:
  assumes "literal c = Some c'" and "c_ident m" and "literal d = Some d'"
  shows "read_row (''{'' @ [DQUOTE] @ c @ [DQUOTE] @ '', (intptr_t)'' @ m @ '', '' @ [DQUOTE] @ m @ [DQUOTE]
     @ '', '' @ [DQUOTE] @ d @ [DQUOTE] @ ''},'') = Some (c', m, m, d')"
proof -
  have m: "literal m = Some m" using c_ident_plain [OF assms(2)] by (intro literal_plain) auto
  have all: "\<forall>x\<in>set m. ident_char x" using assms(2) by (simp add: c_ident_def list_all_iff)
  have comma: "\<not> ident_char (CHR '','')" by (simp add: ident_char_def)
  let ?r = "'', '' @ [DQUOTE] @ m @ [DQUOTE] @ '', '' @ [DQUOTE] @ d @ [DQUOTE] @ ''},''"
  have id: "takeWhile ident_char (m @ ?r) = m" "dropWhile ident_char (m @ ?r) = ?r"
    using all comma by (simp_all add: takeWhile_append2 dropWhile_append2)
  have e: "expect (''{'' @ [DQUOTE]) (''{'' @ [DQUOTE] @ c @ DQUOTE # s) = Some (c @ DQUOTE # s)"
    "expect ('', '' @ [DQUOTE]) ('', '' @ [DQUOTE] @ x @ DQUOTE # s) = Some (x @ DQUOTE # s)"
    "expect '', (intptr_t)'' ('', (intptr_t)'' @ s) = Some s" for s x
    using expect_append [of "''{'' @ [DQUOTE]"] expect_append [of "'', '' @ [DQUOTE]"]
      expect_append [of "'', (intptr_t)''"] by simp_all
  note lit = assms(1,3) [THEN read_literal_literal] m [THEN read_literal_literal]
  show ?thesis
    using assms(2) id lit e by (simp add: read_row_def)
qed

section \<open>Conditional groups\<close>

text \<open>A group that is open: whether its current part is read, whether one has been, and whether \<open>#else\<close> has come.\<close>

record cond_group =
  cg_active :: bool
  cg_done :: bool
  cg_else :: bool

definition reading :: "cond_group list \<Rightarrow> bool" where
  "reading st \<longleftrightarrow> list_all cg_active st"

text \<open>A comment is read as a space; one that is still open at the end of a line is not modelled.\<close>

fun uncomment :: "bool \<Rightarrow> string \<Rightarrow> string option" where
  "uncomment inside [] = (if inside then None else Some [])"
| "uncomment False (a # b # s) =
     (if a = CHR ''/'' \<and> b = CHR ''*'' then uncomment True s else map_option ((#) a) (uncomment False (b # s)))"
| "uncomment False [a] = Some [a]"
| "uncomment True (a # b # s) =
     (if a = CHR ''*'' \<and> b = CHR ''/'' then map_option ((#) SPC) (uncomment False s) else uncomment True (b # s))"
| "uncomment True [a] = None"

text \<open>
  A directive, where \<open>holds\<close> says of the line of an \<open>#if\<close>, \<open>#ifdef\<close>, \<open>#ifndef\<close> or \<open>#elif\<close> whether its condition is
  true (the table defines no macro, so that this does not change).
\<close>

definition pp_step :: "(string \<Rightarrow> bool) \<Rightarrow> cond_group list \<Rightarrow> string \<Rightarrow> cond_group list option" where
  "pp_step holds st l =
     (case uncomment False l of
        None \<Rightarrow> None
      | Some u \<Rightarrow>
          (let w = takeWhile ident_char (dropWhile (\<lambda>c. c = SPC \<or> c = TAB) (tl u))
           in if w \<in> set [''if'', ''ifdef'', ''ifndef'']
              then Some (\<lparr>cg_active = holds u, cg_done = holds u, cg_else = False\<rparr> # st)
              else if w \<in> set [''elif'', ''else'', ''endif'']
              then (case st of
                      [] \<Rightarrow> None
                    | g # gs \<Rightarrow>
                        if w = ''endif'' then Some gs
                        else if cg_else g then None
                        else if w = ''else''
                        then Some (\<lparr>cg_active = (\<not> cg_done g), cg_done = True, cg_else = True\<rparr> # gs)
                        else Some (\<lparr>cg_active = (\<not> cg_done g \<and> holds u), cg_done = (cg_done g \<or> holds u), cg_else = False\<rparr> # gs))
              else if reading st then None else Some st))"

text \<open>
  The lines of the table, where \<open>val\<close> says which macros stand for a value: \<open>None\<close> when the compiler refuses
  it, else the rows.
\<close>

fun compile_lines :: "(string \<Rightarrow> bool) \<Rightarrow> (string \<Rightarrow> int option) \<Rightarrow> cond_group list \<Rightarrow> string list
    \<Rightarrow> (string \<times> int \<times> string \<times> string) list option" where
  "compile_lines holds val st [] = (if st = [] then Some [] else None)"
| "compile_lines holds val st (l # ls) =
     (if l = [] then compile_lines holds val st ls
      else if last l = BSLASH then None
      else if hd l = CHR ''#''
      then Option.bind (pp_step holds st l) (\<lambda>st'. compile_lines holds val st' ls)
      else if \<not> reading st then compile_lines holds val st ls
      else Option.bind (read_row l) (\<lambda>(c, e, m, d).
           Option.bind (val e) (\<lambda>v. map_option ((#) (c, v, m, d)) (compile_lines holds val st ls))))"

fun split_on :: "char \<Rightarrow> string \<Rightarrow> string list" where
  "split_on x [] = [[]]"
| "split_on x (c # s) = (if c = x then [] # split_on x s
     else (case split_on x s of [] \<Rightarrow> [[c]] | a # as \<Rightarrow> (c # a) # as))"

definition compile_table :: "(string \<Rightarrow> bool) \<Rightarrow> (string \<Rightarrow> int option) \<Rightarrow> string
    \<Rightarrow> (string \<times> int \<times> string \<times> string) list option" where
  "compile_table holds val t = compile_lines holds val [] (split_on NL t)"

lemma split_on_append: "x \<notin> set a \<Longrightarrow> split_on x (a @ x # b) = a # split_on x b"
  by (induction a) auto

end
