(* ===== verification/Macrostr.thy ===== *)
theory Macrostr
  imports EcStack CTable
begin

text \<open>
  \<open>common/macrostr.c\<close>, the lookup of the name of a value, and \<open>common/mkmacrostr.c\<close>, the program that compiles
  \<open>macrostr.txt\<close> into the table.  \<open>isspace\<close> gets a signed \<open>char\<close>: the model has undefined behaviour where
  that is a negative number.
\<close>

section \<open>\<open>macrostr.c\<close>\<close>



section \<open>\<open>mkmacrostr.c\<close>\<close>

definition mk_s_size :: nat where "mk_s_size = 100"

text \<open>The loop that cuts white space off the end of a line of length \<open>len\<close>.\<close>

fun trim_len :: "string \<Rightarrow> nat \<Rightarrow> nat" where
  "trim_len s 0 = 0"
| "trim_len s (Suc k) = (if isspace (s ! k) then trim_len s k else Suc k)"

text \<open>The line written for a macro.\<close>

definition row_text :: "string \<Rightarrow> string \<Rightarrow> string \<Rightarrow> string" where
  "row_text cat macro desc =
     ''{'' @ [DQUOTE] @ cat @ [DQUOTE] @ '', (intptr_t)'' @ macro @ '', '' @ [DQUOTE] @ macro @ [DQUOTE]
     @ '', '' @ [DQUOTE] @ desc @ [DQUOTE] @ ''},'' @ [NL]"

text \<open>
  One line: the category after it and what is written; \<open>None\<close> is undefined behaviour: \<open>s[-1]\<close> is read
  when nothing is left of the line, \<open>cat\<close> is printed before it was assigned, or \<open>isspace\<close> is called on a byte
  it is not defined for, at the end of the line or of the white space before a description.
\<close>

definition mk_line :: "string \<Rightarrow> string option \<Rightarrow> (string option \<times> string) option" where
  "mk_line s0 cat =
     (let s = take (trim_len s0 (length s0)) s0 in
      if s = [] \<or> \<not> ctype_defined (last s) then None
      else if hd s = CHR ''#'' then Some (cat, s @ [NL])
      else if last s = CHR '':'' then Some (Some (butlast s), [])
      else case strtok s [SPC, TAB] of
             None \<Rightarrow> Some (cat, [])
           | Some (macro, rest) \<Rightarrow>
               (let desc = (case strtok rest [TAB] of None \<Rightarrow> [] | Some (d, r) \<Rightarrow> dropWhile isspace d)
                in if desc \<noteq> [] \<and> \<not> ctype_defined (hd desc) then None
                   else case cat of None \<Rightarrow> None | Some c \<Rightarrow> Some (cat, row_text c macro desc)))"

text \<open>The loop over the lines; the input of \<open>fgets\<close> gets shorter.\<close>

function mk_loop :: "string \<Rightarrow> string option \<Rightarrow> string \<Rightarrow> string option" where
  "mk_loop inp cat written =
     (case fgets mk_s_size False inp of
        (None, r) \<Rightarrow> Some written
      | (Some s, r) \<Rightarrow>
          (case mk_line (takeWhile (\<lambda>c. c \<noteq> NUL) s) cat of
             None \<Rightarrow> None
           | Some (cat', t) \<Rightarrow> mk_loop r cat' (written @ t)))"
  by pat_completeness auto
termination
  by (relation "measure (\<lambda>(inp, cat, w). length inp)")
     (auto intro: fgets_Some_shorter [OF sym] simp: mk_s_size_def)

declare mk_loop.simps [simp del]

text \<open>
  \<open>main\<close>: the two files, then the loop; a file that cannot be opened is an error that \<open>ec_null\<close> pushes
  before it jumps to the exit with a failure.  The result is the exit status and what was written.
\<close>

record mk_world =
  mw_file :: "string \<Rightarrow> string option"   \<comment> \<open>the files that can be read\<close>
  mw_writable :: bool                   \<comment> \<open>whether \<open>macrostr.incl\<close> can be opened\<close>
  mw_errno :: int

definition mk_site :: "int \<Rightarrow> string \<Rightarrow> site" where
  "mk_site line text1 = \<lparr>st_func = ''main'', st_file = ''mkmacrostr.c'', st_line = line, st_text = text1\<rparr>"

definition mk_macro :: "ec_env \<Rightarrow> mk_world \<Rightarrow> string list \<Rightarrow> ecst \<Rightarrow> ((int \<times> string) \<times> ecst) ec_res" where
  "mk_macro ev w argv s =
     (let file = (if length argv < 2 then ''/aup/common/macrostr.txt'' else argv ! 1);
          opened = mw_file w file;
          fp = (\<lambda>b. if b then 1 else 0)
      in ec_bind (ec_seq
           [ec_null ev False (mk_site 33 (''in = fopen(file, '' @ [DQUOTE] @ ''r'' @ [DQUOTE] @ '')'')) (fp (opened \<noteq> None)) (mw_errno w),
            ec_null ev False 
               (mk_site 34 (''out = fopen('' @ [DQUOTE] @ ''/aup/common/macrostr.incl'' @ [DQUOTE] @ '', '' @ [DQUOTE] @ ''w'' @ [DQUOTE] @ '')''))
                (fp (mw_writable w)) (mw_errno w)] s)
           (\<lambda>(c, s1).
              case c of
                Goto_cleanup \<Rightarrow> Ec_ok ((1, []), snd (EC_CLEANUP_BGN c s1))
              | Falls_through \<Rightarrow>
                  (case mk_loop (the opened) None [] of
                     None \<Rightarrow> Ec_undefined
                   | Some t \<Rightarrow> Ec_ok ((0, t), s1))))"

text \<open>A file that cannot be opened: the exit status 1, one error on the stack, and nothing is written.\<close>

lemma mk_macro_no_input:
  assumes "ec_holds (ev, s) (es, t)" and "mw_file w (if length argv < 2 then ''/aup/common/macrostr.txt'' else argv ! 1) = None"
  shows "\<exists>s' e. mk_macro ev w argv s = Ec_ok ((1, []), s') \<and> ec_holds (ev, s') (e # es, t)"
proof -
  let ?x = "mk_site 33 (''in = fopen(file, '' @ [DQUOTE] @ ''r'' @ [DQUOTE] @ '')'')"
  obtain s' e where "push_and_goto ev ?x (mw_errno w) EC_ERRNO s = Ec_ok (Goto_cleanup, s')" "ec_holds (ev, s') (e # es, t)"
    using push_and_goto_holds [OF assms(1)] by blast
  with assms(2) show ?thesis
    by (intro exI [of _ s'] exI [of _ e]) (simp add: mk_macro_def ec_null_def ec_cmp_def EC_CLEANUP_BGN_def Let_def)
qed

section \<open>The lines of a table\<close>

text \<open>
  What \<open>macrostr.txt\<close> holds: a category, a macro with its description, or a line for the preprocessor.  The
  category and the description are put between quotes as they are: they must be what may stand there.
\<close>

datatype mk_item = Category string | Macro string string | Cond string

fun item_line :: "mk_item \<Rightarrow> string" where
  "item_line (Category c) = c @ '':''"
| "item_line (Macro m d) = m @ (if d = [] then [] else SPC # d)"
| "item_line (Cond t) = CHR ''#'' # t"

definition plain_field :: "string \<Rightarrow> bool" where
  "plain_field t \<longleftrightarrow> NUL \<notin> set t \<and> NL \<notin> set t"

fun good_item :: "mk_item \<Rightarrow> bool" where
  "good_item (Category c) \<longleftrightarrow> plain_field c \<and> literal c \<noteq> None \<and> length c < 97 \<and> (c \<noteq> [] \<longrightarrow> hd c \<noteq> CHR ''#'')"
| "good_item (Macro m d) \<longleftrightarrow> c_ident m \<and> plain_field d \<and> literal d \<noteq> None \<and> length m + length d < 97
     \<and> TAB \<notin> set d \<and> (d \<noteq> [] \<longrightarrow> \<not> isspace (hd d) \<and> \<not> isspace (last d) \<and> last d \<noteq> CHR '':''
          \<and> ctype_defined (hd d) \<and> ctype_defined (last d))"
| "good_item (Cond t) \<longleftrightarrow> plain_field t \<and> length t < 97
     \<and> (t \<noteq> [] \<longrightarrow> \<not> isspace (last t) \<and> ctype_defined (last t) \<and> last t \<noteq> BSLASH)"

definition render :: "mk_item list \<Rightarrow> string" where
  "render its = concat (map (\<lambda>i. item_line i @ [NL]) its)"

text \<open>The text to be written.\<close>

fun item_text :: "string \<Rightarrow> mk_item list \<Rightarrow> string" where
  "item_text c [] = []"
| "item_text c (Category c' # its) = item_text c' its"
| "item_text c (Macro m d # its) = row_text c m d @ item_text c its"
| "item_text c (Cond t # its) = CHR ''#'' # t @ [NL] @ item_text c its"

lemma trim_len_stop: "n \<le> length s \<Longrightarrow> n \<noteq> 0 \<Longrightarrow> \<not> isspace (s ! (n - 1)) \<Longrightarrow> trim_len s n = n"
  by (cases n) auto

lemma trim_line:
  assumes "s \<noteq> []" and "\<not> isspace (last s)"
  shows "take (trim_len (s @ [NL]) (length (s @ [NL]))) (s @ [NL]) = s"
proof -
  have "isspace NL" by (simp add: isspace_def)
  then have "trim_len (s @ [NL]) (length (s @ [NL])) = trim_len (s @ [NL]) (length s)"
    by (simp add: nth_append)
  also have "\<dots> = length s"
    using assms by (intro trim_len_stop) (auto simp: nth_append last_conv_nth)
  finally show ?thesis by simp
qed

lemma item_line_ends: "good_item i \<Longrightarrow> item_line i \<noteq> [] \<and> \<not> isspace (last (item_line i))"
  by (cases i) (auto simp: c_ident_word, simp_all add: isspace_def)

lemma item_line_plain: "good_item i \<Longrightarrow> set (item_line i) \<inter> {NUL, NL} = {} \<and> length (item_line i) < 99"
  by (cases i) (auto simp: plain_field_def c_ident_word)

lemma ctype_colon [simp]: "ctype_defined (CHR '':'')" "ctype_defined (CHR ''#'')"
  by (simp_all add: ctype_defined_def)

lemma strtok_macro:
  assumes "m \<noteq> []" and "\<forall>x\<in>set m. \<not> isspace x"
  shows "strtok (m @ (if d = [] then [] else SPC # d)) [SPC, TAB] = Some (m, d)"
proof -
  have m: "set m \<inter> set [SPC, TAB] = {}" using assms(2) by (auto simp: isspace_def)
  show ?thesis using strtok_first [OF assms(1) m, of SPC d] strtok_last [OF assms(1) m] by simp
qed

lemma strtok_desc:
  assumes "TAB \<notin> set d" and "d \<noteq> [] \<longrightarrow> \<not> isspace (hd d)"
  shows "(case strtok d [TAB] of None \<Rightarrow> [] | Some (e, r) \<Rightarrow> dropWhile isspace e) = d"
proof (cases d)
  case Nil
  then show ?thesis by (simp add: strtok_def)
next
  case (Cons x y)
  with assms strtok_last [of d "[TAB]"] show ?thesis by (auto simp: isspace_def)
qed

lemma mk_line_item:
  assumes "good_item i"
  shows "mk_line (item_line i @ [NL]) (Some c) =
    (case i of Category c' \<Rightarrow> Some (Some c', []) | Macro m d \<Rightarrow> Some (Some c, row_text c m d)
     | Cond t \<Rightarrow> Some (Some c, CHR ''#'' # t @ [NL]))"
proof -
  note e = item_line_ends [OF assms]
  note t = trim_line [OF e [THEN conjunct1] e [THEN conjunct2]]
  show ?thesis
  proof (cases i)
    case (Category c')
    with assms t show ?thesis by (cases c') (auto simp: mk_line_def Let_def)
  next
    case (Macro m d)
    then have g: "c_ident m" using assms by simp
    have l: "last (item_line i) \<noteq> CHR '':''" "hd (item_line i) \<noteq> CHR ''#''" "ctype_defined (last (item_line i))"
      using assms Macro c_ident_word [OF g] by auto
    have d: "d = [] \<or> ctype_defined (hd d)" using assms Macro by auto
    have "mk_line (item_line i @ [NL]) (Some c) = (case strtok (item_line i) [SPC, TAB] of
             None \<Rightarrow> Some (Some c, [])
           | Some (macro, rest) \<Rightarrow>
               (let desc = (case strtok rest [TAB] of None \<Rightarrow> [] | Some (d, r) \<Rightarrow> dropWhile isspace d)
                in if desc \<noteq> [] \<and> \<not> ctype_defined (hd desc) then None else Some (Some c, row_text c macro desc)))"
      unfolding mk_line_def t Let_def using l e by (simp only: not_True_eq_False not_False_eq_True if_False simp_thms option.case)
    then show ?thesis using d Macro assms strtok_macro [of m d] strtok_desc [of d] c_ident_word [OF g]
      by (simp add: Let_def)
  next
    case (Cond x)
    with t assms show ?thesis by (auto simp: mk_line_def Let_def)
  qed
qed

lemma mk_line_category: "good_item (Category c) \<Longrightarrow> mk_line (item_line (Category c) @ [NL]) cat = Some (Some c, [])"
proof -
  assume g: "good_item (Category c)"
  note t = trim_line [of "item_line (Category c)"]
  show ?thesis using g t item_line_ends [OF g] by (cases c) (auto simp: mk_line_def Let_def)
qed

text \<open>One turn of the loop on a line.\<close>

lemma mk_loop_line:
  assumes "good_item i"
  shows "mk_loop (item_line i @ NL # r) cat w =
    (case mk_line (item_line i @ [NL]) cat of None \<Rightarrow> None | Some (cat', t) \<Rightarrow> mk_loop r cat' (w @ t))"
proof -
  have p: "NL \<notin> set (item_line i)" "length (item_line i) < mk_s_size - 1" "NUL \<notin> set (item_line i)"
    using item_line_plain [OF assms] by (auto simp: mk_s_size_def)
  have f: "fgets mk_s_size False (item_line i @ NL # r) = (Some (item_line i @ [NL]), r)"
    by (rule fgets_line) (use p in auto)
  have "takeWhile (\<lambda>c. c \<noteq> NUL) (item_line i @ [NL]) = item_line i @ [NL]"
    using p(3) by (auto simp: takeWhile_eq_all_conv)
  then show ?thesis by (subst mk_loop.simps) (simp add: f)
qed


text \<open>The category after the items.\<close>

fun last_category :: "string \<Rightarrow> mk_item list \<Rightarrow> string" where
  "last_category c [] = c"
| "last_category c (Category c' # its) = last_category c' its"
| "last_category c (i # its) = last_category c its"

lemma mk_loop_items:
  "\<forall>i\<in>set its. good_item i \<Longrightarrow>
   mk_loop (render its @ r) (Some c) w = mk_loop r (Some (last_category c its)) (w @ item_text c its)"
proof (induction its arbitrary: c w)
  case Nil
  then show ?case by (simp add: render_def)
next
  case (Cons i its)
  have g: "good_item i"
    and IH: "mk_loop (render its @ r) (Some c) w = mk_loop r (Some (last_category c its)) (w @ item_text c its)" for c w
    using Cons by simp_all
  have "mk_loop (render (i # its) @ r) (Some c) w
     = (case mk_line (item_line i @ [NL]) (Some c) of None \<Rightarrow> None | Some (cat', t) \<Rightarrow> mk_loop (render its @ r) cat' (w @ t))"
    using mk_loop_line [OF g, of "render its @ r"] by (simp add: render_def)
  then show ?case unfolding mk_line_item [OF g] by (cases i) (simp_all add: IH)
qed

lemma mk_loop_table:
  assumes "\<forall>i\<in>set its. good_item i" and "good_item (Category c)"
  shows "mk_loop (render (Category c # its) @ r) None [] = mk_loop r (Some (last_category c its)) (item_text c its)"
proof -
  have s: "render (Category c # its) @ r = item_line (Category c) @ NL # render its @ r" by (simp add: render_def)
  show ?thesis
    using mk_loop_line [OF assms(2), of "render its @ r" None "[]"] mk_line_category [OF assms(2), of None]
      mk_loop_items [OF assms(1), of r c "[]"] unfolding s by simp
qed

text \<open>A line of white space only.\<close>

lemma trim_len_blank: "\<forall>x\<in>set s. isspace x \<Longrightarrow> n \<le> length s \<Longrightarrow> trim_len s n = 0"
  by (induction n) auto

lemma mk_loop_blank:
  assumes "\<forall>x\<in>set b. x = SPC \<or> x = TAB" and "length b < 99"
  shows "mk_loop (b @ NL # r) cat w = None"
proof -
  have n: "NL \<notin> set b" "NUL \<notin> set b" using assms(1) by fastforce+
  have f: "fgets mk_s_size False (b @ NL # r) = (Some (b @ [NL]), r)"
    by (rule fgets_line) (use n assms(2) in \<open>auto simp: mk_s_size_def\<close>)
  have t: "takeWhile (\<lambda>c. c \<noteq> NUL) (b @ [NL]) = b @ [NL]" using n by (auto simp: takeWhile_eq_all_conv)
  have sp: "\<forall>x\<in>set (b @ [NL]). isspace x"
  proof
    fix x assume "x \<in> set (b @ [NL])"
    then have "x = SPC \<or> x = TAB \<or> x = NL" using assms(1) by auto
    then show "isspace x" by (elim disjE) (simp_all add: isspace_def)
  qed
  have "mk_line (b @ [NL]) cat = None"
    unfolding mk_line_def Let_def trim_len_blank [OF sp order.refl] by simp
  then show ?thesis using f t by (subst mk_loop.simps) simp
qed

section \<open>Reading the written table\<close>





section \<open>Looking macros up\<close>















text \<open>
\<open>mkmacrostr\<close> does not survive a blank line: after any table, a line of white space only makes \<open>main\<close>
read \<open>s[-1]\<close>, the byte before its array.
\<close>

theorem mkmacrostr_blank_line:
  assumes "1 < length argv" and "mw_file w (argv ! 1) = Some (render (Category c # its) @ b @ NL # r)" and "mw_writable w"
    and "\<forall>i\<in>set (Category c # its). good_item i" and "\<forall>x\<in>set b. x = SPC \<or> x = TAB" and "length b < 99"
  shows "mk_macro ev w argv s = Ec_undefined"
  using assms mk_loop_table [of its c "b @ NL # r"] mk_loop_blank [OF assms(5,6)]
  by (simp add: mk_macro_def Let_def ec_null_def ec_cmp_def to_intptr_def)

lemma mkmacrostr_blank_line_witness:
  "mk_macro ec_easy \<lparr>mw_file = (\<lambda>f. Some (''errno:'' @ [NL] @ ''EPERM'' @ [NL] @ [NL] @ ''eai:'' @ [NL])),
      mw_writable = True, mw_errno = 0\<rparr> [''mk'', ''f''] (ec_start log_init_state) = Ec_undefined"
  by (rule mkmacrostr_blank_line [where c = "''errno''" and its = "[Macro ''EPERM'' []]" and b = "[]"])
     (simp_all add: render_def plain_field_def isspace_def literal_def c_ident_def ident_char_def is_digit_def)

end
