(* ===== verification/Options.thy ===== *)
theory Options
  imports EcStack
begin

text \<open>
  \<open>common/options.c\<close>: whether a path supports synchronized or asynchronous input and output.  The conditions of the
  preprocessor are conditions on a record of macros, \<open>pathconf\<close> is a parameter, and a failure goes through the macros of
  \<open>common/ec.h\<close> to the error stack.
\<close>

section \<open>The macros of the system\<close>

datatype OPT_RETURN = OPT_NO | OPT_YES | OPT_ERROR

text \<open>
  What \<open>unistd.h\<close> and the command line of the compiler define: a macro with a number, or nothing.  In a
  condition of the preprocessor an undefined name is 0.
\<close>

record posix_macros =
  POSIX_SYNCHRONIZED_IO :: "int option"
  POSIX_ASYNCHRONOUS_IO :: "int option"
  XOPEN_VERSION :: "int option"
  POSIX_VERSION :: "int option"
  POSIX_SYNC_IO :: "int option"
  POSIX_ASYNC_IO :: "int option"
  LINUX_defined :: bool

definition pp :: "int option \<Rightarrow> int" where
  "pp m = (case m of None \<Rightarrow> 0 | Some v \<Rightarrow> v)"

text \<open>The result of \<open>pathconf\<close>, and what it sets \<open>errno\<close> to, if anything.\<close>

datatype pc_name = PC_SYNC_IO | PC_ASYNC_IO

type_synonym pathconf_fn = "string \<Rightarrow> pc_name \<Rightarrow> int \<times> int option"

definition EINVAL :: int where "EINVAL = 22"

section \<open>The two questions\<close>

text \<open>
  \<open>s\<close> is the state of the error stack and \<open>e\<close> is \<open>errno\<close>; the macro \<open>EC_FAIL\<close> stands at the place \<open>x\<close>.  The result is
  the value returned, \<open>errno\<close> and the error stack; after \<open>ec_push\<close>, \<open>errno\<close> is taken to be as \<open>pathconf\<close> left it.
\<close>

definition option_sync_io ::
  "posix_macros \<Rightarrow> pathconf_fn \<Rightarrow> ec_env \<Rightarrow> site \<Rightarrow> string \<Rightarrow> int \<Rightarrow> ecst \<Rightarrow> (OPT_RETURN \<times> int \<times> ecst) ec_res" where
  "option_sync_io pm pathconf ev x path e s =
     (if pp (POSIX_SYNCHRONIZED_IO pm) \<le> 0 then Ec_ok (OPT_NO, e, s)
      else if 500 \<le> pp (XOPEN_VERSION pm) \<and> \<not> LINUX_defined pm then
        (case POSIX_SYNC_IO pm of
           None \<Rightarrow>
             (let e0 = 0;
                  (r, se) = pathconf path PC_SYNC_IO;
                  e1 = (case se of None \<Rightarrow> e0 | Some n \<Rightarrow> n) in
              if r = - 1 then
                (if e1 = 0 then Ec_ok (OPT_NO, e1, s)
                 else ec_bind (EC_FAIL ev False x e1 s) (\<lambda>(c, s1). Ec_ok (OPT_ERROR, e1, snd (EC_CLEANUP_BGN c s1))))
              else Ec_ok (OPT_YES, e1, s))
         | Some v \<Rightarrow> if v = - 1 then Ec_ok (OPT_NO, e, s) else Ec_ok (OPT_YES, e, s))
      else if 199309 \<le> pp (POSIX_VERSION pm) then Ec_ok (OPT_YES, e, s)
      else Ec_ok (OPT_ERROR, EINVAL, s))"

definition option_async_io ::
  "posix_macros \<Rightarrow> pathconf_fn \<Rightarrow> ec_env \<Rightarrow> site \<Rightarrow> string \<Rightarrow> int \<Rightarrow> ecst \<Rightarrow> (OPT_RETURN \<times> int \<times> ecst) ec_res" where
  "option_async_io pm pathconf ev x path e s =
     (if pp (POSIX_ASYNCHRONOUS_IO pm) \<le> 0 then Ec_ok (OPT_NO, e, s)
      else if 500 \<le> pp (XOPEN_VERSION pm) \<and> \<not> LINUX_defined pm then
        (case POSIX_ASYNC_IO pm of
           None \<Rightarrow>
             (let e0 = 0;
                  (r, se) = pathconf path PC_ASYNC_IO;
                  e1 = (case se of None \<Rightarrow> e0 | Some n \<Rightarrow> n) in
              if r = - 1 then
                (if e1 = 0 then Ec_ok (OPT_NO, e1, s)
                 else ec_bind (EC_FAIL ev False x e1 s) (\<lambda>(c, s1). Ec_ok (OPT_ERROR, e1, snd (EC_CLEANUP_BGN c s1))))
              else Ec_ok (OPT_YES, e1, s))
         | Some v \<Rightarrow> if v = - 1 then Ec_ok (OPT_NO, e, s) else Ec_ok (OPT_YES, e, s))
      else if 199309 \<le> pp (POSIX_VERSION pm) then Ec_ok (OPT_YES, e, s)
      else Ec_ok (OPT_ERROR, EINVAL, s))"

section \<open>What they promise\<close>

text \<open>
  POSIX: the option is there, it is not, it depends on the path, or the system is too old to say.
\<close>

datatype support = Never | Always | Per_path | Unknown

definition support :: "posix_macros \<Rightarrow> int option \<Rightarrow> int option \<Rightarrow> support" where
  "support pm sys per_path =
     (if pp sys \<le> 0 then Never
      else if 500 \<le> pp (XOPEN_VERSION pm) \<and> \<not> LINUX_defined pm then
        (case per_path of None \<Rightarrow> Per_path | Some v \<Rightarrow> if v = - 1 then Never else Always)
      else if 199309 \<le> pp (POSIX_VERSION pm) then Always else Unknown)"

text \<open>The answer, the error pushed with it, and \<open>errno\<close>.\<close>

definition answer :: "support \<Rightarrow> int \<times> int option \<Rightarrow> int \<Rightarrow> OPT_RETURN \<times> int option \<times> int" where
  "answer u rs e =
     (case u of
        Never \<Rightarrow> (OPT_NO, None, e)
      | Always \<Rightarrow> (OPT_YES, None, e)
      | Unknown \<Rightarrow> (OPT_ERROR, None, EINVAL)
      | Per_path \<Rightarrow>
          (case rs of (r, se) \<Rightarrow>
             let e1 = (case se of None \<Rightarrow> 0 | Some n \<Rightarrow> n) in
             if r \<noteq> - 1 then (OPT_YES, None, e1)
             else if e1 = 0 then (OPT_NO, None, e1)
             else (OPT_ERROR, Some e1, e1)))"

definition fail_entry :: "site \<Rightarrow> int \<Rightarrow> ec_entry" where
  "fail_entry x n = (stored_text True (st_func x) (st_file x) (st_line x) ''0'', n, EC_ERRNO)"

definition answers :: "(OPT_RETURN \<times> int \<times> ecst) ec_res \<Rightarrow> site \<Rightarrow> ec_env \<Rightarrow> ec_entry list \<times> string \<Rightarrow> OPT_RETURN \<times> int option \<times> int \<Rightarrow> bool" where
  "answers res x ev st a \<longleftrightarrow>
     (case a of (o1, err, e) \<Rightarrow>
        \<exists>s'. res = Ec_ok (o1, e, s')
          \<and> ec_holds (ev, s') ((case err of None \<Rightarrow> [] | Some n \<Rightarrow> [fail_entry x n]) @ fst st, snd st))"

lemma answers_same: "ec_holds (ev, s) st \<Longrightarrow> answers (Ec_ok (o1, e, s)) x ev st (o1, None, e)"
  by (simp add: answers_def)

text \<open>The jump to the cleanup block: one error more, and no warning.\<close>

lemma answers_fail:
  assumes "ec_holds (ev, s) st"
  shows "answers (ec_bind (EC_FAIL ev False x n s) (\<lambda>(c, s1). Ec_ok (OPT_ERROR, e, snd (EC_CLEANUP_BGN c s1)))) x ev st
    (OPT_ERROR, Some n, e)"
proof -
  let ?x = "x\<lparr>st_text := ''0''\<rparr>"
  obtain s' where p: "push_and_goto ev ?x n EC_ERRNO s = Ec_ok (Goto_cleanup, s')"
    "ec_holds (ev, s') (entry_of (site_args ?x n EC_ERRNO) # fst st, snd st)"
    using push_and_goto_holds [of ev s "fst st" "snd st" ?x n EC_ERRNO] assms by auto
  moreover have "entry_of (site_args ?x n EC_ERRNO) = fail_entry x n"
    by (simp add: entry_of_def site_args_def fail_entry_def)
  ultimately show ?thesis by (simp add: EC_FAIL_def ec_cmp_def answers_def EC_CLEANUP_BGN_def)
qed

text \<open>
\<open>option_sync_io\<close> and \<open>option_async_io\<close> are the same function of their own macros and their own \<open>pathconf\<close> name, and
that function is the specification: no or yes as the macros say, the answer of \<open>pathconf\<close> where it depends
on the path, and an error when \<open>pathconf\<close> fails or the system is too old.  A failure of \<open>pathconf\<close> puts exactly one
entry, with the \<open>errno\<close> of \<open>pathconf\<close>, on the error stack; nothing else does; the mutex is free again, and the warning of a
cleanup block that is entered without a jump is never printed.
\<close>

theorem option_io_answers:
  assumes "ec_holds (ev, s) st"
  shows "answers (option_sync_io pm pathconf ev x path e s) x ev st
       (answer (support pm (POSIX_SYNCHRONIZED_IO pm) (POSIX_SYNC_IO pm)) (pathconf path PC_SYNC_IO) e)
     \<and> answers (option_async_io pm pathconf ev x path e s) x ev st
       (answer (support pm (POSIX_ASYNCHRONOUS_IO pm) (POSIX_ASYNC_IO pm)) (pathconf path PC_ASYNC_IO) e)"
  unfolding option_sync_io_def option_async_io_def support_def answer_def
  using answers_same [OF assms] answers_fail [OF assms]
  by (simp add: Let_def split: option.split prod.split)

definition a_unix :: posix_macros where
  "a_unix = \<lparr>POSIX_SYNCHRONIZED_IO = Some 200112, POSIX_ASYNCHRONOUS_IO = None, XOPEN_VERSION = Some 600,
     POSIX_VERSION = Some 200112, POSIX_SYNC_IO = None, POSIX_ASYNC_IO = None, LINUX_defined = False\<rparr>"

lemma option_io_answers_witness:
  "let s = ec_start log_init_state;
       x = \<lparr>st_func = ''f'', st_file = ''a.c'', st_line = 7, st_text = []\<rparr> in
   answers (option_sync_io a_unix (\<lambda>p n. (- 1, Some 2)) ec_easy x ''/nowhere'' 0 s) x ec_easy ([], [])
     (OPT_ERROR, Some 2, 2)"
proof -
  have a: "answer (support a_unix (POSIX_SYNCHRONIZED_IO a_unix) (POSIX_SYNC_IO a_unix)) (- 1, Some 2) 0 = (OPT_ERROR, Some 2, 2)"
    by code_simp
  from conjunct1 [OF option_io_answers [OF ec_holds_start [OF ec_easy_works], of a_unix "\<lambda>p n. (- 1, Some 2)" _ "''/nowhere''" 0]]
  show ?thesis unfolding Let_def a .
qed

end
