(* ===== verification/Fifo.thy ===== *)
theory Fifo
  imports Posix Display
begin

text \<open>
  \<open>ad_comm/fifo_app.c\<close> and \<open>ad_comm/fifo_app_client.c\<close> with \<open>ad_comm/fifo_header.h\<close>: a server that turns words into upper case and its
  clients, as processes over FIFOs with blocking \<open>open\<close> and \<open>read\<close>.  Every step of the relation is one call of the system; the
  calls between two of them, which only touch the process itself, belong to the step before.  Of the output only the
  line \<open>word --> data\<close> of the client is kept.  \<open>mkfifo\<close> fails only because the name exists, and the closing \<open>close\<close>s
  and \<open>unlink\<close> of a client are one step.
\<close>

section \<open>Messages and names\<close>

definition SERVER_FIFO_NAME :: string where "SERVER_FIFO_NAME = ''fifo_server''"

record simple_message =
  sm_clientpid :: pid
  sm_data :: cbuf

definition sm_data_size :: nat where "sm_data_size = 200"

text \<open>\<open>make_fifo_name\<close>, into the array of 100 characters both programs have for it.\<close>

definition make_fifo_name :: "pid \<Rightarrow> nat \<Rightarrow> string" where
  "make_fifo_name pid name_max = snprintf name_max (''fifo'' @ show_int pid)"

definition fifo_name :: "pid \<Rightarrow> string" where
  "fifo_name pid = make_fifo_name pid 100"

text \<open>\<open>strcpy\<close> into an array, and the server's loop over the characters; \<open>None\<close> is undefined: the string
  does not fit, or no NUL is found before a cell that is indeterminate or the end.\<close>

definition strcpy :: "string \<Rightarrow> cbuf \<Rightarrow> cbuf option" where
  "strcpy s b = (if length s < length b then Some (map Some s @ Some NUL # drop (Suc (length s)) b) else None)"

fun upper_buf :: "cbuf \<Rightarrow> cbuf option" where
  "upper_buf [] = None"
| "upper_buf (None # b) = None"
| "upper_buf (Some c # b) =
     (if c = NUL then Some (Some c # b) else if \<not> ctype_defined c then None else map_option ((#) (Some (toupper c))) (upper_buf b))"

definition fifo_words :: "string list" where
  "fifo_words = [''applesauce'', ''tiger'', ''mountain'']"

section \<open>FIFOs and processes\<close>

text \<open>
  A FIFO: whether its name exists, the messages in it, and who has it open for reading and for
  writing.  A message is written and read as a whole, since it is shorter than \<open>PIPE_BUF\<close>.
\<close>

datatype holder = Server | Client pid

record fifo =
  ff_linked :: bool
  ff_buf :: "simple_message list"
  ff_readers :: "holder set"
  ff_writers :: "holder set"

text \<open>
  Where the processes are: each constructor is the call of the system that comes next.  The server
  exits when its FIFO ends, and is killed when it writes to a FIFO without readers.  The number of a
  client's point is that of its word.
\<close>

datatype server_pc = S_Mkfifo | S_OpenR | S_OpenW | S_Read | S_OpenClient | S_Write | S_Close
  | S_Exit | S_Killed | S_Undefined

datatype client_pc = C_Mkfifo | C_OpenServer | C_Write nat | C_OpenR nat | C_OpenW nat | C_Read nat
  | C_Print nat | C_Close | C_Exit int | C_Killed | C_Undefined

record fifo_server =
  sv_pc :: server_pc
  sv_msg :: simple_message
  sv_fd :: "string option"     \<comment> \<open>the FIFO behind \<open>fd_client\<close>; none for -1\<close>

record fifo_client =
  fc_pc :: client_pc
  fc_msg :: simple_message
  fc_fd :: bool                \<comment> \<open>whether \<open>fd_client\<close> is open\<close>
  fc_fdw :: bool               \<comment> \<open>whether \<open>fd_client_w\<close> is open\<close>
  fc_out :: "(string \<times> string) list"  \<comment> \<open>the lines \<open>word --> data\<close>\<close>

record fifo_state =
  fi_fifos :: "string \<Rightarrow> fifo"
  fi_server :: fifo_server
  fi_clients :: "pid \<rightharpoonup> fifo_client"

definition fifo_new :: fifo where
  "fifo_new = \<lparr>ff_linked = True, ff_buf = [], ff_readers = {}, ff_writers = {}\<rparr>"

definition fifo_absent :: fifo where
  "fifo_absent = fifo_new\<lparr>ff_linked := False\<rparr>"

text \<open>\<open>mkfifo\<close>: nothing happens when the name exists.\<close>

definition mkfifo_at :: "string \<Rightarrow> fifo_state \<Rightarrow> fifo_state" where
  "mkfifo_at n s = (if ff_linked (fi_fifos s n) then s else s\<lparr>fi_fifos := (fi_fifos s)(n := fifo_new)\<rparr>)"

definition on_fifo :: "string \<Rightarrow> (fifo \<Rightarrow> fifo) \<Rightarrow> fifo_state \<Rightarrow> fifo_state" where
  "on_fifo n f s = s\<lparr>fi_fifos := (fi_fifos s)(n := f (fi_fifos s n))\<rparr>"

definition open_rd :: "holder \<Rightarrow> fifo \<Rightarrow> fifo" where
  "open_rd h f = f\<lparr>ff_readers := insert h (ff_readers f)\<rparr>"

definition open_wr :: "holder \<Rightarrow> fifo \<Rightarrow> fifo" where
  "open_wr h f = f\<lparr>ff_writers := insert h (ff_writers f)\<rparr>"

definition close_ends :: "holder \<Rightarrow> fifo \<Rightarrow> fifo" where
  "close_ends h f = f\<lparr>ff_readers := ff_readers f - {h}, ff_writers := ff_writers f - {h}\<rparr>"

definition put_msg :: "simple_message \<Rightarrow> fifo \<Rightarrow> fifo" where
  "put_msg m f = f\<lparr>ff_buf := ff_buf f @ [m]\<rparr>"

definition take_msg :: "fifo \<Rightarrow> fifo" where
  "take_msg f = f\<lparr>ff_buf := tl (ff_buf f)\<rparr>"

definition server_at :: "server_pc \<Rightarrow> fifo_state \<Rightarrow> fifo_state" where
  "server_at pc s = s\<lparr>fi_server := (fi_server s)\<lparr>sv_pc := pc\<rparr>\<rparr>"

definition set_client :: "pid \<Rightarrow> fifo_client \<Rightarrow> fifo_state \<Rightarrow> fifo_state" where
  "set_client p c s = s\<lparr>fi_clients := (fi_clients s)(p \<mapsto> c)\<rparr>"

abbreviation server_fifo :: "fifo_state \<Rightarrow> fifo" where
  "server_fifo s \<equiv> fi_fifos s SERVER_FIFO_NAME"

section \<open>The server\<close>

text \<open>
  \<open>open\<close> for reading waits for a writer, \<open>open\<close> for writing waits for a reader; a process that waits in
  the opposite \<open>open\<close> is as good, and then both go on (\<open>meet_step\<close> below).  On a name that does not
  exist \<open>open\<close> fails at once.
\<close>

definition reply_fifo :: "fifo_server \<Rightarrow> string" where
  "reply_fifo v = fifo_name (sm_clientpid (sv_msg v))"

inductive server_step :: "fifo_state \<Rightarrow> fifo_state \<Rightarrow> bool" where
  s_mkfifo: "sv_pc (fi_server s) = S_Mkfifo \<Longrightarrow>
     server_step s (server_at S_OpenR (mkfifo_at SERVER_FIFO_NAME s))"
| s_open_r: "sv_pc (fi_server s) = S_OpenR \<Longrightarrow> ff_writers (server_fifo s) \<noteq> {} \<Longrightarrow>
     server_step s (server_at S_OpenW (on_fifo SERVER_FIFO_NAME (open_rd Server) s))"
| s_open_w: "sv_pc (fi_server s) = S_OpenW \<Longrightarrow> ff_readers (server_fifo s) \<noteq> {} \<Longrightarrow>
     server_step s (server_at S_Read (on_fifo SERVER_FIFO_NAME (open_wr Server) s))"
| s_read: "sv_pc (fi_server s) = S_Read \<Longrightarrow> ff_buf (server_fifo s) = m # ms \<Longrightarrow> upper_buf (sm_data m) = Some d \<Longrightarrow>
     server_step s ((on_fifo SERVER_FIFO_NAME take_msg s)\<lparr>fi_server := (fi_server s)\<lparr>sv_pc := S_OpenClient, sv_msg := m\<lparr>sm_data := d\<rparr>\<rparr>\<rparr>)"
| s_read_bad: "sv_pc (fi_server s) = S_Read \<Longrightarrow> ff_buf (server_fifo s) = m # ms \<Longrightarrow> upper_buf (sm_data m) = None \<Longrightarrow>
     server_step s (server_at S_Undefined s)"
| s_eof: "sv_pc (fi_server s) = S_Read \<Longrightarrow> ff_buf (server_fifo s) = [] \<Longrightarrow> ff_writers (server_fifo s) = {} \<Longrightarrow>
     server_step s (server_at S_Exit (on_fifo SERVER_FIFO_NAME (close_ends Server) s))"
| s_open_none: "sv_pc (fi_server s) = S_OpenClient \<Longrightarrow> \<not> ff_linked (fi_fifos s (reply_fifo (fi_server s))) \<Longrightarrow>
     server_step s (s\<lparr>fi_server := (fi_server s)\<lparr>sv_pc := S_Write, sv_fd := None\<rparr>\<rparr>)"
| s_open_client: "sv_pc (fi_server s) = S_OpenClient \<Longrightarrow> n = reply_fifo (fi_server s) \<Longrightarrow> ff_linked (fi_fifos s n) \<Longrightarrow>
     ff_readers (fi_fifos s n) \<noteq> {} \<Longrightarrow>
     server_step s ((on_fifo n (open_wr Server) s)\<lparr>fi_server := (fi_server s)\<lparr>sv_pc := S_Write, sv_fd := Some n\<rparr>\<rparr>)"
| s_write_none: "sv_pc (fi_server s) = S_Write \<Longrightarrow> sv_fd (fi_server s) = None \<Longrightarrow>
     server_step s (server_at S_Close s)"
| s_write: "sv_pc (fi_server s) = S_Write \<Longrightarrow> sv_fd (fi_server s) = Some n \<Longrightarrow> ff_readers (fi_fifos s n) \<noteq> {} \<Longrightarrow>
     server_step s (server_at S_Close (on_fifo n (put_msg (sv_msg (fi_server s))) s))"
| s_sigpipe: "sv_pc (fi_server s) = S_Write \<Longrightarrow> sv_fd (fi_server s) = Some n \<Longrightarrow> ff_readers (fi_fifos s n) = {} \<Longrightarrow>
     server_step s (server_at S_Killed (on_fifo n (close_ends Server) (on_fifo SERVER_FIFO_NAME (close_ends Server) s)))"
| s_close_none: "sv_pc (fi_server s) = S_Close \<Longrightarrow> sv_fd (fi_server s) = None \<Longrightarrow>
     server_step s (server_at S_Read s)"
| s_close: "sv_pc (fi_server s) = S_Close \<Longrightarrow> sv_fd (fi_server s) = Some n \<Longrightarrow>
     server_step s ((on_fifo n (close_ends Server) s)\<lparr>fi_server := (fi_server s)\<lparr>sv_pc := S_Read, sv_fd := None\<rparr>\<rparr>)"

section \<open>The clients\<close>

text \<open>
  The body of the loop for the word \<open>i\<close>: \<open>strcpy\<close> and \<open>write\<close>, the two \<open>open\<close>s when the descriptors are -1, \<open>read\<close>
  and the line that is printed.  A \<open>read\<close> on -1 fails, which is not 0, and leaves the message.
\<close>

definition close_client :: "pid \<Rightarrow> fifo_state \<Rightarrow> fifo_state" where
  "close_client p s = on_fifo (fifo_name p) (close_ends (Client p)) (on_fifo SERVER_FIFO_NAME (close_ends (Client p)) s)"

definition next_word :: "nat \<Rightarrow> client_pc" where
  "next_word i = (if i < length fifo_words then C_Write i else C_Close)"

inductive client_step :: "pid \<Rightarrow> fifo_state \<Rightarrow> fifo_state \<Rightarrow> bool" where
  c_mkfifo: "fi_clients s p = Some c \<Longrightarrow> fc_pc c = C_Mkfifo \<Longrightarrow>
     client_step p s (set_client p (c\<lparr>fc_pc := C_OpenServer\<rparr>) (mkfifo_at SERVER_FIFO_NAME s))"
| c_open_server: "fi_clients s p = Some c \<Longrightarrow> fc_pc c = C_OpenServer \<Longrightarrow> ff_readers (server_fifo s) \<noteq> {} \<Longrightarrow>
     client_step p s (set_client p (c\<lparr>fc_pc := next_word 0\<rparr>) (on_fifo SERVER_FIFO_NAME (open_wr (Client p)) s))"
| c_write: "fi_clients s p = Some c \<Longrightarrow> fc_pc c = C_Write i \<Longrightarrow> strcpy (fifo_words ! i) (sm_data (fc_msg c)) = Some d \<Longrightarrow>
     m = (fc_msg c)\<lparr>sm_data := d\<rparr> \<Longrightarrow> ff_readers (server_fifo s) \<noteq> {} \<Longrightarrow>
     client_step p s (set_client p (c\<lparr>fc_pc := C_OpenR i, fc_msg := m\<rparr>) (on_fifo SERVER_FIFO_NAME (put_msg m) s))"
| c_overflow: "fi_clients s p = Some c \<Longrightarrow> fc_pc c = C_Write i \<Longrightarrow> strcpy (fifo_words ! i) (sm_data (fc_msg c)) = None \<Longrightarrow>
     client_step p s (set_client p (c\<lparr>fc_pc := C_Undefined\<rparr>) s)"
| c_sigpipe: "fi_clients s p = Some c \<Longrightarrow> fc_pc c = C_Write i \<Longrightarrow> ff_readers (server_fifo s) = {} \<Longrightarrow>
     client_step p s (set_client p (c\<lparr>fc_pc := C_Killed\<rparr>) (close_client p s))"
| c_have_r: "fi_clients s p = Some c \<Longrightarrow> fc_pc c = C_OpenR i \<Longrightarrow> fc_fd c \<or> \<not> ff_linked (fi_fifos s (fifo_name p)) \<Longrightarrow>
     client_step p s (set_client p (c\<lparr>fc_pc := C_OpenW i\<rparr>) s)"
| c_open_r: "fi_clients s p = Some c \<Longrightarrow> fc_pc c = C_OpenR i \<Longrightarrow> \<not> fc_fd c \<Longrightarrow> ff_linked (fi_fifos s (fifo_name p)) \<Longrightarrow>
     ff_writers (fi_fifos s (fifo_name p)) \<noteq> {} \<Longrightarrow>
     client_step p s (set_client p (c\<lparr>fc_pc := C_OpenW i, fc_fd := True\<rparr>) (on_fifo (fifo_name p) (open_rd (Client p)) s))"
| c_have_w: "fi_clients s p = Some c \<Longrightarrow> fc_pc c = C_OpenW i \<Longrightarrow> fc_fdw c \<or> \<not> ff_linked (fi_fifos s (fifo_name p)) \<Longrightarrow>
     client_step p s (set_client p (c\<lparr>fc_pc := C_Read i\<rparr>) s)"
| c_open_w: "fi_clients s p = Some c \<Longrightarrow> fc_pc c = C_OpenW i \<Longrightarrow> \<not> fc_fdw c \<Longrightarrow> ff_linked (fi_fifos s (fifo_name p)) \<Longrightarrow>
     ff_readers (fi_fifos s (fifo_name p)) \<noteq> {} \<Longrightarrow>
     client_step p s (set_client p (c\<lparr>fc_pc := C_Read i, fc_fdw := True\<rparr>) (on_fifo (fifo_name p) (open_wr (Client p)) s))"
| c_read_bad: "fi_clients s p = Some c \<Longrightarrow> fc_pc c = C_Read i \<Longrightarrow> \<not> fc_fd c \<Longrightarrow>
     client_step p s (set_client p (c\<lparr>fc_pc := C_Print i\<rparr>) s)"
| c_read: "fi_clients s p = Some c \<Longrightarrow> fc_pc c = C_Read i \<Longrightarrow> fc_fd c \<Longrightarrow> ff_buf (fi_fifos s (fifo_name p)) = m # ms \<Longrightarrow>
     client_step p s (set_client p (c\<lparr>fc_pc := C_Print i, fc_msg := m\<rparr>) (on_fifo (fifo_name p) take_msg s))"
| c_eof: "fi_clients s p = Some c \<Longrightarrow> fc_pc c = C_Read i \<Longrightarrow> fc_fd c \<Longrightarrow> ff_buf (fi_fifos s (fifo_name p)) = [] \<Longrightarrow>
     ff_writers (fi_fifos s (fifo_name p)) = {} \<Longrightarrow>
     client_step p s (set_client p (c\<lparr>fc_pc := C_Exit 1\<rparr>) (close_client p s))"
| c_print: "fi_clients s p = Some c \<Longrightarrow> fc_pc c = C_Print i \<Longrightarrow> cstr (sm_data (fc_msg c)) = Some t \<Longrightarrow>
     client_step p s (set_client p (c\<lparr>fc_pc := next_word (Suc i), fc_out := fc_out c @ [(fifo_words ! i, t)]\<rparr>) s)"
| c_print_bad: "fi_clients s p = Some c \<Longrightarrow> fc_pc c = C_Print i \<Longrightarrow> cstr (sm_data (fc_msg c)) = None \<Longrightarrow>
     client_step p s (set_client p (c\<lparr>fc_pc := C_Undefined\<rparr>) s)"
| c_close: "fi_clients s p = Some c \<Longrightarrow> fc_pc c = C_Close \<Longrightarrow>
     client_step p s (set_client p (c\<lparr>fc_pc := C_Exit 0, fc_fd := False, fc_fdw := False\<rparr>)
       (on_fifo (fifo_name p) (\<lambda>f. f\<lparr>ff_linked := False\<rparr>) (close_client p s)))"

section \<open>Meeting in \<open>open\<close>\<close>

inductive meet_step :: "pid \<Rightarrow> fifo_state \<Rightarrow> fifo_state \<Rightarrow> bool" where
  meet_server: "sv_pc (fi_server s) = S_OpenR \<Longrightarrow> fi_clients s p = Some c \<Longrightarrow> fc_pc c = C_OpenServer \<Longrightarrow>
     meet_step p s (server_at S_OpenW (set_client p (c\<lparr>fc_pc := next_word 0\<rparr>)
       (on_fifo SERVER_FIFO_NAME (open_rd Server) (on_fifo SERVER_FIFO_NAME (open_wr (Client p)) s))))"
| meet_client: "sv_pc (fi_server s) = S_OpenClient \<Longrightarrow> fi_clients s p = Some c \<Longrightarrow> fc_pc c = C_OpenR i \<Longrightarrow> \<not> fc_fd c \<Longrightarrow>
     n = reply_fifo (fi_server s) \<Longrightarrow> n = fifo_name p \<Longrightarrow> ff_linked (fi_fifos s n) \<Longrightarrow>
     meet_step p s ((set_client p (c\<lparr>fc_pc := C_OpenW i, fc_fd := True\<rparr>)
       (on_fifo n (open_rd (Client p)) (on_fifo n (open_wr Server) s)))
       \<lparr>fi_server := (fi_server s)\<lparr>sv_pc := S_Write, sv_fd := Some n\<rparr>\<rparr>)"

section \<open>Runs\<close>

definition client_init :: "pid \<Rightarrow> fifo_client" where
  "client_init p = \<lparr>fc_pc = C_Mkfifo, fc_msg = \<lparr>sm_clientpid = p, sm_data = uninit sm_data_size\<rparr>,
     fc_fd = False, fc_fdw = False, fc_out = []\<rparr>"

text \<open>The server and the clients \<open>P\<close> at their start; \<open>ex\<close> are the names that exist.\<close>

definition fifo_init :: "pid set \<Rightarrow> string set \<Rightarrow> fifo_state" where
  "fifo_init P ex = \<lparr>fi_fifos = (\<lambda>n. if n \<in> ex then fifo_new else fifo_absent),
     fi_server = \<lparr>sv_pc = S_Mkfifo, sv_msg = \<lparr>sm_clientpid = 0, sm_data = uninit sm_data_size\<rparr>, sv_fd = None\<rparr>,
     fi_clients = (\<lambda>p. if p \<in> P then Some (client_init p) else None)\<rparr>"

definition fifo_step :: "fifo_state \<Rightarrow> fifo_state \<Rightarrow> bool" where
  "fifo_step s t \<longleftrightarrow> server_step s t \<or> (\<exists>p. client_step p s t \<or> meet_step p s t)"

inductive fifo_reach :: "fifo_state \<Rightarrow> fifo_state \<Rightarrow> bool" for s0 where
  fifo_start: "fifo_reach s0 s0"
| fifo_next: "fifo_reach s0 s \<Longrightarrow> fifo_step s t \<Longrightarrow> fifo_reach s0 t"

inductive_cases server_stepE: "server_step s t"
inductive_cases client_stepE: "client_step p s t"
inductive_cases meet_stepE: "meet_step p s t"

section \<open>Names and buffers\<close>

definition valid_pids :: "pid set \<Rightarrow> bool" where
  "valid_pids P \<longleftrightarrow> (\<forall>p\<in>P. 0 < p \<and> p < 2 ^ 31)"

lemma fifo_name_eq:
  assumes "0 < p" and "p < 2 ^ 31"
  shows "fifo_name p = ''fifo'' @ show_nat (nat p)"
proof -
  have "nat p < 10 ^ 10" using assms by simp
  then have "length (show_nat (nat p)) \<le> 10" by (intro show_nat_length) simp_all
  then show ?thesis using assms unfolding fifo_name_def make_fifo_name_def
    by (subst snprintf_fits) (simp_all add: show_int_def)
qed

lemma fifo_name_inj:
  "valid_pids P \<Longrightarrow> p \<in> P \<Longrightarrow> q \<in> P \<Longrightarrow> fifo_name p = fifo_name q \<longleftrightarrow> p = q"
  by (auto simp: valid_pids_def fifo_name_eq show_nat_inj)

lemma fifo_name_server: "valid_pids P \<Longrightarrow> p \<in> P \<Longrightarrow> fifo_name p \<noteq> SERVER_FIFO_NAME"
  using show_nat_hd [of "nat p"]
  by (auto simp: valid_pids_def fifo_name_eq SERVER_FIFO_NAME_def is_digit_def)

text \<open>A message whose data is a string.\<close>

definition data_is :: "simple_message \<Rightarrow> string \<Rightarrow> bool" where
  "data_is m w \<longleftrightarrow> cstr (sm_data m) = Some w \<and> length (sm_data m) = sm_data_size"

lemma cstr_strcpy: "strcpy w b = Some d \<Longrightarrow> no_nul w \<Longrightarrow> cstr d = Some w \<and> length d = length b"
  using cstr_append_nul [of w] takeWhile_eq_all_conv [of "\<lambda>c. c \<noteq> NUL" w]
  by (auto simp: strcpy_def no_nul_def split: if_splits)

lemma upper_buf_cstr:
  "cstr b = Some w \<Longrightarrow> list_all ctype_defined w \<Longrightarrow> \<exists>d. upper_buf b = Some d \<and> cstr d = Some (map toupper w) \<and> length d = length b"
proof (induction b arbitrary: w rule: cstr.induct)
  case (3 c b)
  then show ?case by (auto simp: toupper_NUL_iff split: if_splits)
qed auto

lemma fifo_words_toupper: "i < length fifo_words \<Longrightarrow> list_all ctype_defined (fifo_words ! i)"
  by (auto simp: fifo_words_def ctype_defined_def less_Suc_eq numeral_3_eq_3)

lemma fifo_words_ok: "i < length fifo_words \<Longrightarrow> no_nul (fifo_words ! i) \<and> length (fifo_words ! i) < sm_data_size"
  by (auto simp: fifo_words_def no_nul_def sm_data_size_def less_Suc_eq numeral_3_eq_3)

section \<open>A client without its FIFO\<close>

text \<open>What is true of a client whose FIFO does not exist.\<close>

fun word_of :: "client_pc \<Rightarrow> nat option" where
  "word_of (C_OpenR i) = Some i"
| "word_of (C_OpenW i) = Some i"
| "word_of (C_Read i) = Some i"
| "word_of (C_Print i) = Some i"
| "word_of c = None"

text \<open>How many words are done.\<close>

fun words_done :: "client_pc \<Rightarrow> nat" where
  "words_done (C_Write i) = i"
| "words_done (C_OpenR i) = i"
| "words_done (C_OpenW i) = i"
| "words_done (C_Read i) = i"
| "words_done (C_Print i) = i"
| "words_done C_Close = length fifo_words"
| "words_done (C_Exit n) = length fifo_words"
| "words_done c = 0"

fun pc_word_ok :: "client_pc \<Rightarrow> bool" where
  "pc_word_ok (C_Write i) \<longleftrightarrow> i < length fifo_words"
| "pc_word_ok (C_OpenR i) \<longleftrightarrow> i < length fifo_words"
| "pc_word_ok (C_OpenW i) \<longleftrightarrow> i < length fifo_words"
| "pc_word_ok (C_Read i) \<longleftrightarrow> i < length fifo_words"
| "pc_word_ok (C_Print i) \<longleftrightarrow> i < length fifo_words"
| "pc_word_ok (C_Exit n) \<longleftrightarrow> n = 0"
| "pc_word_ok C_Undefined \<longleftrightarrow> False"
| "pc_word_ok c \<longleftrightarrow> True"

text \<open>The lines with which the first \<open>k\<close> words come back as they are.\<close>

definition echoes :: "nat \<Rightarrow> (string \<times> string) list" where
  "echoes k = map (\<lambda>w. (w, w)) (take k fifo_words)"

definition is_echo :: "(string \<times> string) list \<Rightarrow> bool" where
  "is_echo ls \<longleftrightarrow> (\<exists>k. ls = echoes k)"

lemma is_echo_echoes [simp]: "is_echo (echoes k)"
  by (auto simp: is_echo_def)

definition alone_inv :: "pid \<Rightarrow> fifo_state \<Rightarrow> fifo_client \<Rightarrow> bool" where
  "alone_inv p s c \<longleftrightarrow> \<not> ff_linked (fi_fifos s (fifo_name p)) \<and> \<not> fc_fd c \<and> \<not> fc_fdw c
     \<and> length (sm_data (fc_msg c)) = sm_data_size
     \<and> (fc_pc c = C_Killed \<or> pc_word_ok (fc_pc c) \<and> fc_out c = echoes (words_done (fc_pc c)))
     \<and> is_echo (fc_out c)
     \<and> (\<forall>i. word_of (fc_pc c) = Some i \<longrightarrow> data_is (fc_msg c) (fifo_words ! i))"

lemma next_word_ok [simp]: "i \<le> length fifo_words \<Longrightarrow> pc_word_ok (next_word i)"
  "i \<le> length fifo_words \<Longrightarrow> words_done (next_word i) = i" "word_of (next_word i) = None"
  "next_word i \<noteq> C_Killed" "next_word i \<noteq> C_Undefined"
  by (auto simp: next_word_def)

lemma on_fifo_fields [simp]:
  "fi_server (on_fifo n f s) = fi_server s" "fi_clients (on_fifo n f s) = fi_clients s"
  "fi_fifos (on_fifo n f s) = (fi_fifos s)(n := f (fi_fifos s n))"
  "fi_server (mkfifo_at n s) = fi_server s" "fi_clients (mkfifo_at n s) = fi_clients s"
  "fi_fifos (mkfifo_at n s) = (fi_fifos s)(n := (if ff_linked (fi_fifos s n) then fi_fifos s n else fifo_new))"
  "fi_server (set_client p c s) = fi_server s" "fi_clients (set_client p c s) = (fi_clients s)(p \<mapsto> c)"
  "fi_fifos (set_client p c s) = fi_fifos s"
  "fi_server (server_at pc s) = (fi_server s)\<lparr>sv_pc := pc\<rparr>" "fi_clients (server_at pc s) = fi_clients s"
  "fi_fifos (server_at pc s) = fi_fifos s"
  by (simp_all add: on_fifo_def mkfifo_at_def set_client_def server_at_def fun_eq_iff)

lemma fifo_ops_fields [simp]:
  "ff_linked (open_rd h f) = ff_linked f" "ff_linked (open_wr h f) = ff_linked f"
  "ff_linked (close_ends h f) = ff_linked f" "ff_linked (put_msg m f) = ff_linked f" "ff_linked (take_msg f) = ff_linked f"
  "ff_buf (open_rd h f) = ff_buf f" "ff_buf (open_wr h f) = ff_buf f"
  "ff_buf (close_ends h f) = ff_buf f" "ff_buf (put_msg m f) = ff_buf f @ [m]" "ff_buf (take_msg f) = tl (ff_buf f)"
  "ff_readers (open_rd h f) = insert h (ff_readers f)" "ff_readers (open_wr h f) = ff_readers f"
  "ff_readers (close_ends h f) = ff_readers f - {h}" "ff_readers (put_msg m f) = ff_readers f" "ff_readers (take_msg f) = ff_readers f"
  "ff_writers (open_rd h f) = ff_writers f" "ff_writers (open_wr h f) = insert h (ff_writers f)"
  "ff_writers (close_ends h f) = ff_writers f - {h}" "ff_writers (put_msg m f) = ff_writers f" "ff_writers (take_msg f) = ff_writers f"
  by (simp_all add: open_rd_def open_wr_def close_ends_def put_msg_def take_msg_def)

lemma close_client_fields [simp]:
  "fi_server (close_client p s) = fi_server s" "fi_clients (close_client p s) = fi_clients s"
  "ff_linked (fi_fifos (close_client p s) n) = ff_linked (fi_fifos s n)"
  by (simp_all add: close_client_def)

text \<open>Nobody makes a FIFO but the server's.\<close>

lemma linked_step:
  assumes "fifo_step s t" and "n \<noteq> SERVER_FIFO_NAME" and "\<not> ff_linked (fi_fifos s n)"
  shows "\<not> ff_linked (fi_fifos t n)"
  using assms unfolding fifo_step_def
  by (auto elim!: server_stepE client_stepE meet_stepE split: if_splits)

lemma clients_step: "fifo_step s t \<Longrightarrow> dom (fi_clients t) = dom (fi_clients s)"
  unfolding fifo_step_def
  by (auto elim!: server_stepE client_stepE meet_stepE split: if_splits)

lemma alone_inv_keep:
  "alone_inv p s c \<Longrightarrow> \<not> ff_linked (fi_fifos t (fifo_name p)) \<Longrightarrow> alone_inv p t c"
  by (simp add: alone_inv_def)

lemma alone_inv_client:
  assumes inv: "alone_inv p s c" and c: "fi_clients s p = Some c" "fi_clients t p = Some c'"
    and st: "client_step p s t" and l: "\<not> ff_linked (fi_fifos t (fifo_name p))"
  shows "alone_inv p t c'"
  using st
proof cases
  case (c_write c2 i d m)
  then have "i < length fifo_words" using inv c by (auto simp: alone_inv_def)
  with c_write cstr_strcpy [of "fifo_words ! i" "sm_data (fc_msg c2)" d] fifo_words_ok inv c l show ?thesis
    by (auto simp: alone_inv_def data_is_def)
next
  case (c_overflow c2 i)
  then have "i < length fifo_words" using inv c by (auto simp: alone_inv_def)
  with c_overflow fifo_words_ok [of i] inv c show ?thesis by (auto simp: alone_inv_def strcpy_def)
next
  case (c_print c2 i u)
  then have i: "i < length fifo_words" "u = fifo_words ! i" "c2 = c" "fc_out c = echoes i"
    using inv c by (auto simp: alone_inv_def data_is_def)
  then have "fc_out c @ [(fifo_words ! i, u)] = echoes (Suc i)"
    by (simp add: echoes_def take_Suc_conv_app_nth)
  with c_print i inv c l show ?thesis by (auto simp: alone_inv_def)
next
  case (c_print_bad c2 i)
  then show ?thesis using inv c by (auto simp: alone_inv_def data_is_def)
next
  case (c_open_server c2)
  then show ?thesis using inv c l by (auto simp: alone_inv_def)
qed (use inv c l in \<open>auto simp: alone_inv_def\<close>)

text \<open>A step of the server, or of another client.\<close>

lemma client_step_other: "client_step q s t \<Longrightarrow> p \<noteq> q \<Longrightarrow> fi_clients t p = fi_clients s p"
  by (erule client_stepE) auto

lemma server_step_clients: "server_step s t \<Longrightarrow> fi_clients t = fi_clients s"
  by (erule server_stepE) auto

lemma alone_inv_step:
  assumes "valid_pids P" and "p \<in> P" and inv: "alone_inv p s c" "fi_clients s p = Some c"
    and st: "fifo_step s t" and c': "fi_clients t p = Some c'"
  shows "alone_inv p t c'"
proof -
  have l: "\<not> ff_linked (fi_fifos t (fifo_name p))"
    using linked_step [OF st fifo_name_server [OF assms(1,2)]] inv(1) by (simp add: alone_inv_def)
  from st consider (srv) "server_step s t" | (cli) q where "client_step q s t" | (meet) q where "meet_step q s t"
    by (auto simp: fifo_step_def)
  then show ?thesis
  proof cases
    case srv
    with server_step_clients [OF srv] inv c' l show ?thesis by (auto intro: alone_inv_keep)
  next
    case (cli q)
    show ?thesis
    proof (cases "q = p")
      case True
      with alone_inv_client [OF inv c' _ l] cli show ?thesis by simp
    next
      case False
      with client_step_other [OF cli, of p] inv c' l show ?thesis by (auto intro: alone_inv_keep)
    qed
  next
    case (meet q)
    then show ?thesis using inv c' l
      by (cases "q = p") (auto elim!: meet_stepE intro: alone_inv_keep simp: alone_inv_def)
  qed
qed

lemma alone_inv_reach:
  assumes "valid_pids P" and "p \<in> P" and "fifo_name p \<notin> ex"
  shows "fifo_reach (fifo_init P ex) s \<Longrightarrow> \<exists>c. fi_clients s p = Some c \<and> alone_inv p s c"
proof (induction rule: fifo_reach.induct)
  case fifo_start
  have "echoes 0 = []" by (simp add: echoes_def)
  moreover from this have "is_echo []" by (metis is_echo_echoes)
  ultimately show ?case using assms(2,3)
    by (auto simp: fifo_init_def client_init_def alone_inv_def fifo_absent_def)
next
  case (fifo_next s t)
  then obtain c where c: "fi_clients s p = Some c" "alone_inv p s c" by blast
  with clients_step [OF fifo_next(2)] obtain c' where c': "fi_clients t p = Some c'" by auto
  with alone_inv_step [OF assms(1,2) c(2,1) fifo_next(2) c'] show ?case by blast
qed

end
