(* ===== verification/FifoInv.thy ===== *)
theory FifoInv
  imports Fifo
begin

text \<open>
  The invariant of the FIFO programs when the FIFOs of the clients exist: where the one message of a client is, who has which end of
  which FIFO open, and that every step of a client and of the server keeps this.
\<close>

section \<open>Clients with their FIFO\<close>

fun awaits :: "client_pc \<Rightarrow> nat option" where
  "awaits (C_OpenR i) = Some i"
| "awaits (C_OpenW i) = Some i"
| "awaits (C_Read i) = Some i"
| "awaits c = None"

text \<open>Which descriptors of its own FIFO a client has open, and whether it has the server's.\<close>

fun has_fd :: "client_pc \<Rightarrow> bool" where
  "has_fd (C_Write i) \<longleftrightarrow> 0 < i"
| "has_fd (C_OpenR i) \<longleftrightarrow> 0 < i"
| "has_fd (C_OpenW i) \<longleftrightarrow> True"
| "has_fd (C_Read i) \<longleftrightarrow> True"
| "has_fd (C_Print i) \<longleftrightarrow> True"
| "has_fd C_Close \<longleftrightarrow> True"
| "has_fd c \<longleftrightarrow> False"

fun has_fdw :: "client_pc \<Rightarrow> bool" where
  "has_fdw (C_Write i) \<longleftrightarrow> 0 < i"
| "has_fdw (C_OpenR i) \<longleftrightarrow> 0 < i"
| "has_fdw (C_OpenW i) \<longleftrightarrow> 0 < i"
| "has_fdw (C_Read i) \<longleftrightarrow> True"
| "has_fdw (C_Print i) \<longleftrightarrow> True"
| "has_fdw C_Close \<longleftrightarrow> True"
| "has_fdw c \<longleftrightarrow> False"

definition replies :: "nat \<Rightarrow> (string \<times> string) list" where
  "replies k = map (\<lambda>w. (w, map toupper w)) (take k fifo_words)"

lemma replies_0 [simp]: "replies 0 = []"
  by (simp add: replies_def)

lemma replies_Suc:
  "i < length fifo_words \<Longrightarrow> replies i @ [(fifo_words ! i, map toupper (fifo_words ! i))] = replies (Suc i)"
  by (simp add: replies_def take_Suc_conv_app_nth)

text \<open>
  The messages of one client: in the server's FIFO, in the server's hand, in its own FIFO.  While it
  awaits a reply there is exactly one of them, and otherwise none.
\<close>

definition mine :: "pid \<Rightarrow> simple_message list \<Rightarrow> simple_message list" where
  "mine p ms = filter (\<lambda>m. sm_clientpid m = p) ms"

definition in_hand :: "pid \<Rightarrow> fifo_server \<Rightarrow> simple_message list" where
  "in_hand p v = (if (sv_pc v = S_OpenClient \<or> sv_pc v = S_Write) \<and> sm_clientpid (sv_msg v) = p then [sv_msg v] else [])"

definition pending :: "pid \<Rightarrow> nat option \<Rightarrow> simple_message list \<Rightarrow> simple_message list \<Rightarrow> simple_message list \<Rightarrow> bool" where
  "pending p w a b d \<longleftrightarrow>
     (case w of
        None \<Rightarrow> a = [] \<and> b = [] \<and> d = []
      | Some i \<Rightarrow>
          (\<exists>m. a = [m] \<and> b = [] \<and> d = [] \<and> data_is m (fifo_words ! i))
        \<or> (\<exists>m. a = [] \<and> b = [m] \<and> d = [] \<and> data_is m (map toupper (fifo_words ! i)))
        \<or> (\<exists>m. a = [] \<and> b = [] \<and> d = [m] \<and> sm_clientpid m = p \<and> data_is m (map toupper (fifo_words ! i))))"

definition client_inv :: "pid \<Rightarrow> fifo_client \<Rightarrow> fifo \<Rightarrow> simple_message list \<Rightarrow> simple_message list \<Rightarrow> bool" where
  "client_inv p c f a b \<longleftrightarrow>
     pc_word_ok (fc_pc c) \<and> fc_pc c \<noteq> C_Killed
     \<and> sm_clientpid (fc_msg c) = p \<and> length (sm_data (fc_msg c)) = sm_data_size
     \<and> fc_fd c = has_fd (fc_pc c) \<and> fc_fdw c = has_fdw (fc_pc c)
     \<and> fc_out c = replies (words_done (fc_pc c))
     \<and> (\<forall>i. fc_pc c = C_Print i \<longrightarrow> data_is (fc_msg c) (map toupper (fifo_words ! i)))
     \<and> ff_linked f = (fc_pc c \<noteq> C_Exit 0)
     \<and> ff_readers f = (if has_fd (fc_pc c) then {Client p} else {})
     \<and> (has_fdw (fc_pc c) \<longrightarrow> Client p \<in> ff_writers f)
     \<and> pending p (awaits (fc_pc c)) a b (ff_buf f) \<and> (\<not> has_fd (fc_pc c) \<longrightarrow> ff_buf f = [])"

fun with_server :: "client_pc \<Rightarrow> bool" where
  "with_server C_Mkfifo \<longleftrightarrow> False"
| "with_server C_OpenServer \<longleftrightarrow> False"
| "with_server c \<longleftrightarrow> True"

definition server_inv :: "pid set \<Rightarrow> fifo_state \<Rightarrow> bool" where
  "server_inv P s \<longleftrightarrow>
     (let v = fi_server s; f = server_fifo s in
      sv_pc v \<noteq> S_Exit \<and> sv_pc v \<noteq> S_Killed \<and> sv_pc v \<noteq> S_Undefined
      \<and> (\<forall>m\<in>set (ff_buf f). sm_clientpid m \<in> P)
      \<and> (sv_pc v = S_OpenClient \<or> sv_pc v = S_Write \<longrightarrow> sm_clientpid (sv_msg v) \<in> P)
      \<and> (sv_pc v = S_Write \<longrightarrow> sv_fd v = Some (reply_fifo v) \<and> ff_readers (fi_fifos s (reply_fifo v)) \<noteq> {})
      \<and> (\<forall>n. sv_fd v = Some n \<longrightarrow> n \<in> fifo_name ` P)
      \<and> (Server \<in> ff_readers f \<longleftrightarrow> sv_pc v \<noteq> S_Mkfifo \<and> sv_pc v \<noteq> S_OpenR)
      \<and> (sv_pc v \<noteq> S_Mkfifo \<and> sv_pc v \<noteq> S_OpenR \<and> sv_pc v \<noteq> S_OpenW \<longrightarrow> Server \<in> ff_writers f)
      \<and> (sv_pc v \<noteq> S_Mkfifo \<or> (\<exists>c\<in>ran (fi_clients s). fc_pc c \<noteq> C_Mkfifo) \<longrightarrow> ff_linked f)
      \<and> (\<not> ff_linked f \<longrightarrow> ff_buf f = [] \<and> ff_readers f = {} \<and> ff_writers f = {})
      \<and> ff_readers f \<subseteq> {Server}
      \<and> ((\<exists>c\<in>ran (fi_clients s). with_server (fc_pc c)) \<longrightarrow> Server \<in> ff_readers f))"

definition fifo_inv :: "pid set \<Rightarrow> fifo_state \<Rightarrow> bool" where
  "fifo_inv P s \<longleftrightarrow> dom (fi_clients s) = P \<and> server_inv P s
     \<and> (\<forall>p c. fi_clients s p = Some c \<longrightarrow>
          client_inv p c (fi_fifos s (fifo_name p)) (mine p (ff_buf (server_fifo s))) (in_hand p (fi_server s)))"

lemma fifo_inv_init:
  assumes "valid_pids P" and "fifo_name ` P \<subseteq> ex"
  shows "fifo_inv P (fifo_init P ex)"
proof -
  have "fi_fifos (fifo_init P ex) (fifo_name p) = fifo_new" if "p \<in> P" for p
    using that assms(2) by (auto simp: fifo_init_def)
  then show ?thesis
    unfolding fifo_inv_def server_inv_def
    by (auto simp: fifo_init_def client_init_def client_inv_def pending_def mine_def in_hand_def fifo_new_def fifo_absent_def
        Let_def ran_def dom_def split: if_splits)
qed

text \<open>The parts of the invariant, for one client.\<close>

lemma fifo_invD:
  assumes "fifo_inv P s" and "fi_clients s p = Some c"
  shows "p \<in> P" and "client_inv p c (fi_fifos s (fifo_name p)) (mine p (ff_buf (server_fifo s))) (in_hand p (fi_server s))"
  using assms by (auto simp: fifo_inv_def)

text \<open>
  How the invariant is proved for a step: the server's part, the client the step is about, and the others, whose view does
  not change.
\<close>

lemma fifo_inv_client:
  assumes inv: "fifo_inv P s" and P: "valid_pids P" and p: "fi_clients s p = Some c"
    and t: "fi_clients t = (fi_clients s)(p \<mapsto> c')"
    and f: "\<And>q. q \<noteq> fifo_name p \<Longrightarrow> q \<noteq> SERVER_FIFO_NAME \<Longrightarrow> fi_fifos t q = fi_fifos s q"
    and m: "\<And>q. q \<noteq> p \<Longrightarrow> mine q (ff_buf (server_fifo t)) = mine q (ff_buf (server_fifo s))"
    and h: "\<And>q. q \<noteq> p \<Longrightarrow> in_hand q (fi_server t) = in_hand q (fi_server s)"
    and cl: "client_inv p c' (fi_fifos t (fifo_name p)) (mine p (ff_buf (server_fifo t))) (in_hand p (fi_server t))"
    and sv: "server_inv P t"
  shows "fifo_inv P t"
  unfolding fifo_inv_def
proof (intro conjI allI impI)
  show "dom (fi_clients t) = P" using inv p t by (auto simp: fifo_inv_def)
  fix q d assume d: "fi_clients t q = Some d"
  show "client_inv q d (fi_fifos t (fifo_name q)) (mine q (ff_buf (server_fifo t))) (in_hand q (fi_server t))"
  proof (cases "q = p")
    case True
    with cl d t show ?thesis by simp
  next
    case False
    then have s: "fi_clients s q = Some d" using d t by simp
    have "fifo_name q \<noteq> fifo_name p" "fifo_name q \<noteq> SERVER_FIFO_NAME"
      using fifo_name_inj [OF P] fifo_name_server [OF P] fifo_invD(1) [OF inv s] fifo_invD(1) [OF inv p] False by auto
    then show ?thesis using fifo_invD(2) [OF inv s] f m [OF False] h [OF False] by simp
  qed
qed (fact sv)

section \<open>The steps of a client\<close>

lemma server_invD:
  assumes "server_inv P s"
  shows "sv_pc (fi_server s) = S_OpenClient \<or> sv_pc (fi_server s) = S_Write \<Longrightarrow> sm_clientpid (sv_msg (fi_server s)) \<in> P"
    and "sv_pc (fi_server s) = S_Write \<Longrightarrow> sv_fd (fi_server s) = Some (reply_fifo (fi_server s)) \<and> ff_readers (fi_fifos s (reply_fifo (fi_server s))) \<noteq> {}"
    and "sv_fd (fi_server s) = Some n \<Longrightarrow> n \<in> fifo_name ` P"
    and "Server \<in> ff_readers (server_fifo s) \<longleftrightarrow> sv_pc (fi_server s) \<noteq> S_Mkfifo \<and> sv_pc (fi_server s) \<noteq> S_OpenR"
    and "fi_clients s p = Some c \<Longrightarrow> fc_pc c \<noteq> C_Mkfifo \<Longrightarrow> ff_linked (server_fifo s)"
    and "fi_clients s p = Some c \<Longrightarrow> with_server (fc_pc c) \<Longrightarrow> Server \<in> ff_readers (server_fifo s)"
    and "m \<in> set (ff_buf (server_fifo s)) \<Longrightarrow> sm_clientpid m \<in> P"
    and "\<not> ff_linked (server_fifo s) \<Longrightarrow> ff_buf (server_fifo s) = [] \<and> ff_readers (server_fifo s) = {} \<and> ff_writers (server_fifo s) = {}"
    and "sv_pc (fi_server s) \<noteq> S_Exit \<and> sv_pc (fi_server s) \<noteq> S_Killed \<and> sv_pc (fi_server s) \<noteq> S_Undefined"
    and "sv_pc (fi_server s) \<noteq> S_Mkfifo \<Longrightarrow> ff_linked (server_fifo s)"
    and "ff_readers (server_fifo s) \<subseteq> {Server}"
    and "sv_pc (fi_server s) \<noteq> S_Mkfifo \<and> sv_pc (fi_server s) \<noteq> S_OpenR \<and> sv_pc (fi_server s) \<noteq> S_OpenW \<Longrightarrow> Server \<in> ff_writers (server_fifo s)"
proof -
  note i = assms [unfolded server_inv_def Let_def]
  show "sv_pc (fi_server s) = S_OpenClient \<or> sv_pc (fi_server s) = S_Write \<Longrightarrow> sm_clientpid (sv_msg (fi_server s)) \<in> P"
    using i by blast
  show "sv_pc (fi_server s) = S_Write \<Longrightarrow> sv_fd (fi_server s) = Some (reply_fifo (fi_server s)) \<and> ff_readers (fi_fifos s (reply_fifo (fi_server s))) \<noteq> {}"
    using i by blast
  show "sv_fd (fi_server s) = Some n \<Longrightarrow> n \<in> fifo_name ` P" using i by blast
  show "Server \<in> ff_readers (server_fifo s) \<longleftrightarrow> sv_pc (fi_server s) \<noteq> S_Mkfifo \<and> sv_pc (fi_server s) \<noteq> S_OpenR"
    using i by blast
  show "fi_clients s p = Some c \<Longrightarrow> fc_pc c \<noteq> C_Mkfifo \<Longrightarrow> ff_linked (server_fifo s)"
    using i ranI [of "fi_clients s" p c] by blast
  show "fi_clients s p = Some c \<Longrightarrow> with_server (fc_pc c) \<Longrightarrow> Server \<in> ff_readers (server_fifo s)"
    using i ranI [of "fi_clients s" p c] by blast
  show "m \<in> set (ff_buf (server_fifo s)) \<Longrightarrow> sm_clientpid m \<in> P" using i by blast
  show "\<not> ff_linked (server_fifo s) \<Longrightarrow> ff_buf (server_fifo s) = [] \<and> ff_readers (server_fifo s) = {} \<and> ff_writers (server_fifo s) = {}"
    using i by blast
  show "sv_pc (fi_server s) \<noteq> S_Exit \<and> sv_pc (fi_server s) \<noteq> S_Killed \<and> sv_pc (fi_server s) \<noteq> S_Undefined"
    using i by blast
  show "sv_pc (fi_server s) \<noteq> S_Mkfifo \<Longrightarrow> ff_linked (server_fifo s)" using i by blast
  show "ff_readers (server_fifo s) \<subseteq> {Server}" using i by blast
  show "sv_pc (fi_server s) \<noteq> S_Mkfifo \<and> sv_pc (fi_server s) \<noteq> S_OpenR \<and> sv_pc (fi_server s) \<noteq> S_OpenW \<Longrightarrow> Server \<in> ff_writers (server_fifo s)"
    using i by blast
qed

lemma server_inv_client:
  assumes inv: "server_inv P s" and t: "fi_server t = fi_server s" "fi_clients t = (fi_clients s)(p \<mapsto> c')"
    and b: "\<And>m. m \<in> set (ff_buf (server_fifo t)) \<Longrightarrow> sm_clientpid m \<in> P"
    and r: "ff_readers (server_fifo t) = ff_readers (server_fifo s)"
    and w: "Server \<in> ff_writers (server_fifo t) \<longleftrightarrow> Server \<in> ff_writers (server_fifo s)"
    and l: "ff_linked (server_fifo t)"
    and ws: "with_server (fc_pc c') \<Longrightarrow> Server \<in> ff_readers (server_fifo s)"
    and rr: "sv_pc (fi_server s) = S_Write \<Longrightarrow> ff_readers (fi_fifos t (reply_fifo (fi_server s))) \<noteq> {}"
  shows "server_inv P t"
proof -
  note i = inv [unfolded server_inv_def Let_def]
  have ran: "c = c' \<or> c \<in> ran (fi_clients s)" if "c \<in> ran (fi_clients t)" for c
    using that t(2) by (auto simp: ran_def split: if_splits)
  have x: "Server \<in> ff_readers (server_fifo s)" if h: "\<exists>c\<in>ran (fi_clients t). with_server (fc_pc c)"
  proof -
    from h obtain c where c: "c \<in> ran (fi_clients t)" "with_server (fc_pc c)" by blast
    from ran [OF c(1)] c(2) ws i show ?thesis by blast
  qed
  show ?thesis
    unfolding server_inv_def Let_def t(1)
  proof (intro conjI)
    show "\<forall>m\<in>set (ff_buf (server_fifo t)). sm_clientpid m \<in> P" using b by blast
    show "sv_pc (fi_server s) = S_Write \<longrightarrow> sv_fd (fi_server s) = Some (reply_fifo (fi_server s))
        \<and> ff_readers (fi_fifos t (reply_fifo (fi_server s))) \<noteq> {}" using i rr by blast
    show "(\<exists>c\<in>ran (fi_clients t). with_server (fc_pc c)) \<longrightarrow> Server \<in> ff_readers (server_fifo t)" using x r by blast
  qed (use i l r w in \<open>simp_all\<close>)
qed

text \<open>The readers of the FIFO the server is about to write to, when another client moves.\<close>

lemma in_hand_reply:
  "sv_pc v = S_OpenClient \<or> sv_pc v = S_Write \<Longrightarrow> in_hand (sm_clientpid (sv_msg v)) v = [sv_msg v]"
  by (simp add: in_hand_def)

lemma reply_readers:
  assumes inv: "fifo_inv P s" and P: "valid_pids P" and p: "p \<in> P"
    and "sv_pc (fi_server s) = S_Write"
    and f: "\<And>q. q \<noteq> fifo_name p \<Longrightarrow> q \<noteq> SERVER_FIFO_NAME \<Longrightarrow> fi_fifos t q = fi_fifos s q"
    and o: "in_hand p (fi_server s) = [] \<or> ff_readers (fi_fifos t (fifo_name p)) \<noteq> {}"
  shows "ff_readers (fi_fifos t (reply_fifo (fi_server s))) \<noteq> {}"
proof -
  have s: "server_inv P s" using inv by (simp add: fifo_inv_def)
  let ?q = "sm_clientpid (sv_msg (fi_server s))"
  have q: "?q \<in> P" "ff_readers (fi_fifos s (reply_fifo (fi_server s))) \<noteq> {}"
    using server_invD(1,2) [OF s] assms(4) by auto
  show ?thesis
  proof (cases "?q = p")
    case True
    then have "in_hand p (fi_server s) \<noteq> []" using in_hand_reply [of "fi_server s"] assms(4) by auto
    with o True show ?thesis by (simp add: reply_fifo_def)
  next
    case False
    then have "reply_fifo (fi_server s) \<noteq> fifo_name p" "reply_fifo (fi_server s) \<noteq> SERVER_FIFO_NAME"
      using fifo_name_inj [OF P q(1) p] fifo_name_server [OF P q(1)] by (auto simp: reply_fifo_def)
    with f q(2) show ?thesis by simp
  qed
qed

lemma pending_None: "pending p None a b d \<longleftrightarrow> a = [] \<and> b = [] \<and> d = []"
  by (simp add: pending_def)

lemma pending_own:
  "pending p (Some i) a b (m # ms) \<Longrightarrow> a = [] \<and> b = [] \<and> ms = [] \<and> sm_clientpid m = p \<and> data_is m (map toupper (fifo_words ! i))"
  by (auto simp: pending_def)

lemma fifo_words_length: "0 < length fifo_words"
  by (simp add: fifo_words_def)

lemma awaits_next [simp]: "awaits (next_word i) = None" "has_fd (next_word i) = (0 < i)" "has_fdw (next_word i) = (0 < i)"
  "with_server (next_word i)" "next_word i \<noteq> C_Print j" "next_word i \<noteq> C_Exit n" "next_word i \<noteq> C_Mkfifo"
  using fifo_words_length by (auto simp: next_word_def simp del: length_greater_0_conv)

lemma mine_simps [simp]:
  "mine p [] = []" "mine p (m # ms) = (if sm_clientpid m = p then m # mine p ms else mine p ms)"
  "mine p (ms @ ms') = mine p ms @ mine p ms'"
  by (simp_all add: mine_def)

text \<open>A step of one client.\<close>

lemma client_moves:
  assumes inv: "fifo_inv P s" and P: "valid_pids P" and c: "fi_clients s p = Some c"
    and t: "fi_server t = fi_server s" "fi_clients t = (fi_clients s)(p \<mapsto> c')"
    and f: "\<And>q. q \<noteq> fifo_name p \<Longrightarrow> q \<noteq> SERVER_FIFO_NAME \<Longrightarrow> fi_fifos t q = fi_fifos s q"
    and g: "ff_linked (server_fifo t)" "ff_readers (server_fifo t) = ff_readers (server_fifo s)"
      "Server \<in> ff_writers (server_fifo t) \<longleftrightarrow> Server \<in> ff_writers (server_fifo s)"
      "ff_buf (server_fifo t) = ff_buf (server_fifo s) @ ms" "\<forall>m\<in>set ms. sm_clientpid m = p"
    and ws: "with_server (fc_pc c') \<Longrightarrow> Server \<in> ff_readers (server_fifo s)"
    and o: "in_hand p (fi_server s) = [] \<or> ff_readers (fi_fifos t (fifo_name p)) \<noteq> {}"
    and cl: "client_inv p c' (fi_fifos t (fifo_name p)) (mine p (ff_buf (server_fifo s)) @ ms) (in_hand p (fi_server s))"
  shows "fifo_inv P t"
proof (rule fifo_inv_client [OF inv P c t(2)])
  note p = fifo_invD(1) [OF inv c]
  have sv: "server_inv P s" using inv by (simp add: fifo_inv_def)
  have ms: "mine p ms = ms" using g(5) by (simp add: mine_def)
  show "fi_fifos t q = fi_fifos s q" if "q \<noteq> fifo_name p" "q \<noteq> SERVER_FIFO_NAME" for q using f that by simp
  show "mine q (ff_buf (server_fifo t)) = mine q (ff_buf (server_fifo s))" if "q \<noteq> p" for q
  proof -
    have "mine q ms = []" using g(5) that by (auto simp: mine_def filter_empty_conv)
    then show ?thesis using g(4) by simp
  qed
  show "in_hand q (fi_server t) = in_hand q (fi_server s)" for q using t(1) by simp
  show "client_inv p c' (fi_fifos t (fifo_name p)) (mine p (ff_buf (server_fifo t))) (in_hand p (fi_server t))"
    using cl g(4) ms t(1) by simp
  show "server_inv P t"
  proof (rule server_inv_client [OF sv t _ g(2,3,1) ws])
    fix m assume "m \<in> set (ff_buf (server_fifo t))"
    then show "sm_clientpid m \<in> P" using g(4,5) server_invD(7) [OF sv] p by auto
  next
    assume "sv_pc (fi_server s) = S_Write"
    then show "ff_readers (fi_fifos t (reply_fifo (fi_server s))) \<noteq> {}"
      using reply_readers [OF inv P p _ f o] by simp
  qed
qed

lemma client_write_inv:
  assumes inv: "fifo_inv P s" and P: "valid_pids P" and c: "fi_clients s p = Some c"
    and c_write: "t = set_client p (c2\<lparr>fc_pc := C_OpenR i, fc_msg := m\<rparr>) (on_fifo SERVER_FIFO_NAME (put_msg m) s)"
      "fi_clients s p = Some c2" "fc_pc c2 = C_Write i" "strcpy (fifo_words ! i) (sm_data (fc_msg c2)) = Some d"
      "m = (fc_msg c2)\<lparr>sm_data := d\<rparr>" "ff_readers (server_fifo s) \<noteq> {}"
  shows "fifo_inv P t"
proof -
  note C = fifo_invD(2) [OF inv c, unfolded client_inv_def]
  have sv: "server_inv P s" using inv by (simp add: fifo_inv_def)
  note linked = server_invD(5) [OF sv c] and joined = server_invD(6) [OF sv c]
  have n: "SERVER_FIFO_NAME \<noteq> fifo_name p" "fifo_name p \<noteq> SERVER_FIFO_NAME"
    using fifo_name_server [OF P fifo_invD(1) [OF inv c]] by simp_all
  note go = client_moves [OF inv P c]
  have i: "c2 = c" "i < length fifo_words" "length (sm_data (fc_msg c)) = sm_data_size" using c_write c C by auto
  have d: "cstr d = Some (fifo_words ! i)" "length d = sm_data_size"
    using cstr_strcpy [OF c_write(4)] fifo_words_ok [OF i(2)] i by auto
  show ?thesis
    by (intro go [where c' = "c\<lparr>fc_pc := C_OpenR i, fc_msg := m\<rparr>" and ms = "[m]"])
       (use c_write i d C n linked joined in \<open>auto simp: client_inv_def pending_None pending_def data_is_def\<close>)
qed

lemma client_read_inv:
  assumes inv: "fifo_inv P s" and P: "valid_pids P" and c: "fi_clients s p = Some c"
    and c_read: "t = set_client p (c2\<lparr>fc_pc := C_Print i, fc_msg := m\<rparr>) (on_fifo (fifo_name p) take_msg s)"
      "fi_clients s p = Some c2" "fc_pc c2 = C_Read i" "fc_fd c2" "ff_buf (fi_fifos s (fifo_name p)) = m # ms"
  shows "fifo_inv P t"
proof -
  note C = fifo_invD(2) [OF inv c, unfolded client_inv_def]
  have sv: "server_inv P s" using inv by (simp add: fifo_inv_def)
  note linked = server_invD(5) [OF sv c] and joined = server_invD(6) [OF sv c]
  have n: "SERVER_FIFO_NAME \<noteq> fifo_name p" "fifo_name p \<noteq> SERVER_FIFO_NAME"
    using fifo_name_server [OF P fifo_invD(1) [OF inv c]] by simp_all
  note go = client_moves [OF inv P c]
  have i: "c2 = c" "pending p (Some i) (mine p (ff_buf (server_fifo s))) (in_hand p (fi_server s)) (m # ms)"
    using c_read c C by auto
  note m = pending_own [OF i(2)]
  show ?thesis
    by (intro go [where c' = "c\<lparr>fc_pc := C_Print i, fc_msg := m\<rparr>" and ms = "[]"])
       (use c_read i m C n linked joined in \<open>auto simp: client_inv_def pending_None data_is_def\<close>)
qed

lemma client_print_inv:
  assumes inv: "fifo_inv P s" and P: "valid_pids P" and c: "fi_clients s p = Some c"
    and c_print: "t = set_client p (c2\<lparr>fc_pc := next_word (Suc i), fc_out := fc_out c2 @ [(fifo_words ! i, u)]\<rparr>) s"
      "fi_clients s p = Some c2" "fc_pc c2 = C_Print i" "cstr (sm_data (fc_msg c2)) = Some u"
  shows "fifo_inv P t"
proof -
  note C = fifo_invD(2) [OF inv c, unfolded client_inv_def]
  have sv: "server_inv P s" using inv by (simp add: fifo_inv_def)
  note linked = server_invD(5) [OF sv c] and joined = server_invD(6) [OF sv c]
  have n: "SERVER_FIFO_NAME \<noteq> fifo_name p" "fifo_name p \<noteq> SERVER_FIFO_NAME"
    using fifo_name_server [OF P fifo_invD(1) [OF inv c]] by simp_all
  note go = client_moves [OF inv P c]
  have i: "c2 = c" "i < length fifo_words" "u = map toupper (fifo_words ! i)"
    using c_print c C by (auto simp: data_is_def)
  have o: "fc_out c @ [(fifo_words ! i, u)] = replies (Suc i)"
    using C c_print i replies_Suc [OF i(2)] by simp
  show ?thesis
    by (intro go [where c' = "c\<lparr>fc_pc := next_word (Suc i), fc_out := fc_out c @ [(fifo_words ! i, u)]\<rparr>" and ms = "[]"])
       (use c_print i o C n linked joined in \<open>auto simp: client_inv_def pending_None\<close>)
qed

lemma client_step_inv:
  assumes inv: "fifo_inv P s" and P: "valid_pids P" and st: "client_step p s t"
  shows "fifo_inv P t"
proof -
  obtain c where c: "fi_clients s p = Some c" using st by (auto elim: client_stepE)
  note C = fifo_invD(2) [OF inv c, unfolded client_inv_def]
  have sv: "server_inv P s" using inv by (simp add: fifo_inv_def)
  note linked = server_invD(5) [OF sv c] and joined = server_invD(6) [OF sv c] and rd = server_invD(4,8,11) [OF sv]
  have n: "SERVER_FIFO_NAME \<noteq> fifo_name p" "fifo_name p \<noteq> SERVER_FIFO_NAME"
    using fifo_name_server [OF P fifo_invD(1) [OF inv c]] by simp_all
  have r: "ff_readers (server_fifo s) - {Client p} = ff_readers (server_fifo s)" using rd(3) by auto
  show ?thesis
    using st
  proof cases
    case (c_write c2 i d m)
    then show ?thesis by (intro client_write_inv [OF inv P c])
  next
    case (c_overflow c2 i)
    then show ?thesis using fifo_words_ok [of i] c C by (auto simp: strcpy_def)
  next
    case (c_read c2 i m ms)
    then show ?thesis by (intro client_read_inv [OF inv P c])
  next
    case (c_print c2 i u)
    then show ?thesis by (intro client_print_inv [OF inv P c])
  next
    case (c_print_bad c2 i)
    then show ?thesis using c C by (auto simp: data_is_def)
  qed (intro client_moves [OF inv P c, where c' = "the (fi_clients t p)" and ms = "[]"];
       use c C n linked joined rd r in \<open>auto simp: client_inv_def pending_None close_client_def fifo_new_def\<close>)+
qed

section \<open>The steps of the server\<close>

lemma server_moves:
  assumes "fifo_inv P s" and "fi_clients t = fi_clients s" and "server_inv P t"
    and "\<And>p c. fi_clients s p = Some c \<Longrightarrow> p \<in> P \<Longrightarrow>
      client_inv p c (fi_fifos s (fifo_name p)) (mine p (ff_buf (server_fifo s))) (in_hand p (fi_server s)) \<Longrightarrow>
      client_inv p c (fi_fifos t (fifo_name p)) (mine p (ff_buf (server_fifo t))) (in_hand p (fi_server t))"
  shows "fifo_inv P t"
  using assms fifo_invD [OF assms(1)] by (auto simp: fifo_inv_def)

lemma in_hand_none: "sv_pc v \<noteq> S_OpenClient \<Longrightarrow> sv_pc v \<noteq> S_Write \<Longrightarrow> in_hand p v = []"
  by (simp add: in_hand_def)

text \<open>The client the server has a message of.\<close>

lemma served_client:
  assumes inv: "fifo_inv P s" and h: "sv_pc (fi_server s) = S_OpenClient \<or> sv_pc (fi_server s) = S_Write"
  obtains p c i where "p = sm_clientpid (sv_msg (fi_server s))" "p \<in> P" "fi_clients s p = Some c" "awaits (fc_pc c) = Some i"
    "reply_fifo (fi_server s) = fifo_name p" "ff_linked (fi_fifos s (fifo_name p))"
    "data_is (sv_msg (fi_server s)) (map toupper (fifo_words ! i))"
proof -
  let ?p = "sm_clientpid (sv_msg (fi_server s))"
  have p: "?p \<in> P" using server_invD(1) inv h by (auto simp: fifo_inv_def)
  then obtain c where c: "fi_clients s ?p = Some c" using inv by (auto simp: fifo_inv_def)
  note C = fifo_invD(2) [OF inv c, unfolded client_inv_def in_hand_reply [OF h]]
  then obtain i where i: "awaits (fc_pc c) = Some i" by (cases "awaits (fc_pc c)") (auto simp: pending_def)
  then have "data_is (sv_msg (fi_server s)) (map toupper (fifo_words ! i))" using C by (auto simp: pending_def)
  moreover have "fc_pc c \<noteq> C_Exit 0" using i by auto
  ultimately show thesis using that [of ?p c i] p c C i by (auto simp: reply_fifo_def)
qed

text \<open>The client of the message the server is about to read.\<close>

lemma next_client:
  assumes inv: "fifo_inv P s" and b: "ff_buf (server_fifo s) = m # ms"
  obtains c i where "sm_clientpid m \<in> P" "fi_clients s (sm_clientpid m) = Some c" "awaits (fc_pc c) = Some i"
    "data_is m (fifo_words ! i)" "list_all ctype_defined (fifo_words ! i)"
proof -
  have p: "sm_clientpid m \<in> P" using server_invD(7) [of P s m] inv b by (auto simp: fifo_inv_def)
  then obtain c where c: "fi_clients s (sm_clientpid m) = Some c" using inv by (auto simp: fifo_inv_def)
  note C = fifo_invD(2) [OF inv c, unfolded client_inv_def]
  then obtain i where "awaits (fc_pc c) = Some i" by (cases "awaits (fc_pc c)") (auto simp: pending_def b)
  moreover from this have "i < length fifo_words" using C by (cases "fc_pc c") auto
  ultimately show thesis using that [of c i] p c C fifo_words_toupper by (auto simp: pending_def b)
qed

lemma server_read_inv:
  assumes inv: "fifo_inv P s" and P: "valid_pids P"
    and s_read: "t = (on_fifo SERVER_FIFO_NAME take_msg s)\<lparr>fi_server := (fi_server s)\<lparr>sv_pc := S_OpenClient, sv_msg := m\<lparr>sm_data := d\<rparr>\<rparr>\<rparr>"
      "sv_pc (fi_server s) = S_Read" "ff_buf (server_fifo s) = m # ms" "upper_buf (sm_data m) = Some d"
  shows "fifo_inv P t"
proof -
  have sv: "server_inv P s" using inv by (simp add: fifo_inv_def)
  note i = sv [unfolded server_inv_def Let_def]
  note n = fifo_name_server [OF P]
  note go = server_moves [OF inv]
  obtain c k where q: "sm_clientpid m \<in> P" "fi_clients s (sm_clientpid m) = Some c" "awaits (fc_pc c) = Some k"
    "data_is m (fifo_words ! k)" "list_all ctype_defined (fifo_words ! k)" using next_client [OF inv s_read(3)] by blast
  have d: "data_is (m\<lparr>sm_data := d\<rparr>) (map toupper (fifo_words ! k))"
    using upper_buf_cstr [of "sm_data m"] q(4,5) s_read(4) by (auto simp: data_is_def)
  have "server_inv P t" using i s_read q(1) by (simp add: server_inv_def)
  then show ?thesis
  proof (rule go [rotated])
    fix p c'
    assume c': "fi_clients s p = Some c'" "p \<in> P"
      "client_inv p c' (fi_fifos s (fifo_name p)) (mine p (ff_buf (server_fifo s))) (in_hand p (fi_server s))"
    show "client_inv p c' (fi_fifos t (fifo_name p)) (mine p (ff_buf (server_fifo t))) (in_hand p (fi_server t))"
    proof (cases "p = sm_clientpid m")
      case True
      then show ?thesis using c' q s_read d n [OF c'(2)]
        by (auto simp: client_inv_def in_hand_def pending_def)
    next
      case False
      then show ?thesis using c' s_read n [OF c'(2)] by (auto simp: in_hand_def)
    qed
  qed (use s_read in simp)
qed

lemma server_write_inv:
  assumes inv: "fifo_inv P s" and P: "valid_pids P"
    and s_write: "t = server_at S_Close (on_fifo m (put_msg (sv_msg (fi_server s))) s)"
      "sv_pc (fi_server s) = S_Write" "sv_fd (fi_server s) = Some m" "ff_readers (fi_fifos s m) \<noteq> {}"
  shows "fifo_inv P t"
proof -
  have sv: "server_inv P s" using inv by (simp add: fifo_inv_def)
  note i = sv [unfolded server_inv_def Let_def]
  note n = fifo_name_server [OF P] and ninj = fifo_name_inj [OF P]
  note go = server_moves [OF inv]
  obtain q c k where q: "q = sm_clientpid (sv_msg (fi_server s))" "q \<in> P" "fi_clients s q = Some c" "awaits (fc_pc c) = Some k"
    "reply_fifo (fi_server s) = fifo_name q" "data_is (sv_msg (fi_server s)) (map toupper (fifo_words ! k))"
    using served_client [OF inv] s_write(2) by metis
  have m: "m = fifo_name q" using i s_write(2,3) q(5) by auto
  have "reply_fifo (fi_server s) \<in> fifo_name ` P" using q(2,5) by simp
  then have "server_inv P t" using i s_write m n [OF q(2)] by (simp add: server_inv_def)
  then show ?thesis
  proof (rule go [rotated])
    fix p c'
    assume c': "fi_clients s p = Some c'" "p \<in> P"
      "client_inv p c' (fi_fifos s (fifo_name p)) (mine p (ff_buf (server_fifo s))) (in_hand p (fi_server s))"
    show "client_inv p c' (fi_fifos t (fifo_name p)) (mine p (ff_buf (server_fifo t))) (in_hand p (fi_server t))"
    proof (cases "p = q")
      case True
      then show ?thesis using c' q s_write n [OF c'(2)] m
        by (auto simp: client_inv_def in_hand_def pending_def)
    next
      case False
      then show ?thesis using c' q s_write n ninj [OF c'(2) q(2)] m by (auto simp: in_hand_def)
    qed
  qed (use s_write in simp)
qed

lemma server_open_inv:
  assumes inv: "fifo_inv P s" and P: "valid_pids P" and pc: "sv_pc (fi_server s) = S_OpenClient"
    and m: "m = reply_fifo (fi_server s)" "ff_readers (fi_fifos s m) \<noteq> {}"
    and t: "t = (on_fifo m (open_wr Server) s)\<lparr>fi_server := (fi_server s)\<lparr>sv_pc := S_Write, sv_fd := Some m\<rparr>\<rparr>"
  shows "fifo_inv P t"
proof -
  have sv: "server_inv P s" using inv by (simp add: fifo_inv_def)
  obtain q where q: "q = sm_clientpid (sv_msg (fi_server s))" "q \<in> P" "m = fifo_name q"
    using served_client [OF inv] pc m(1) by metis
  have "server_inv P t"
    using sv pc m q fifo_name_server [OF P q(2)] unfolding t by (simp add: server_inv_def reply_fifo_def Let_def)
  then show ?thesis
    by (rule server_moves [OF inv, rotated])
       (use pc q t fifo_name_server [OF P] fifo_name_inj [OF P] in \<open>auto simp: in_hand_def client_inv_def\<close>)
qed

lemma server_step_inv:
  assumes inv: "fifo_inv P s" and P: "valid_pids P" and st: "server_step s t"
  shows "fifo_inv P t"
proof -
  have sv: "server_inv P s" using inv by (simp add: fifo_inv_def)
  note i = sv [unfolded server_inv_def Let_def]
  note n = fifo_name_server [OF P] and ninj = fifo_name_inj [OF P]
  note go = server_moves [OF inv]
  show ?thesis
    using st
  proof cases
    case s_mkfifo
    have "server_inv P t" using i s_mkfifo by (simp add: server_inv_def fifo_new_def) blast
    then show ?thesis
      by (rule go [rotated]) (use s_mkfifo n server_invD(8) [OF sv] in \<open>auto simp: in_hand_none fifo_new_def\<close>)
  next
    case s_open_r
    have "server_inv P t" using i s_open_r by (simp add: server_inv_def)
    then show ?thesis by (rule go [rotated]) (use s_open_r n in \<open>auto simp: in_hand_none\<close>)
  next
    case s_open_w
    have "server_inv P t" using i s_open_w by (simp add: server_inv_def)
    then show ?thesis by (rule go [rotated]) (use s_open_w n in \<open>auto simp: in_hand_none\<close>)
  next
    case (s_read_bad m ms)
    obtain k where "data_is m (fifo_words ! k)" "list_all ctype_defined (fifo_words ! k)" using next_client [OF inv s_read_bad(3)] by blast
    then show ?thesis using s_read_bad(4) upper_buf_cstr [of "sm_data m"] by (auto simp: data_is_def)
  next
    case s_open_none
    then show ?thesis using served_client [OF inv] by metis
  next
    case s_close_none
    have "server_inv P t" using i s_close_none by (simp add: server_inv_def)
    then show ?thesis by (rule go [rotated]) (use s_close_none in \<open>auto simp: in_hand_none\<close>)
  next
    case (s_close m)
    obtain q where q: "q \<in> P" "m = fifo_name q" using i s_close(3) by auto
    have "server_inv P t" using i s_close q n [OF q(1)] by (simp add: server_inv_def)
    then show ?thesis by (rule go [rotated]) (use s_close q n ninj in \<open>auto simp: in_hand_none client_inv_def\<close>)
  next
    case (s_read m ms d)
    then show ?thesis by (intro server_read_inv [OF inv P])
  next
    case (s_open_client m)
    then show ?thesis by (intro server_open_inv [OF inv P])
  next
    case (s_write m)
    then show ?thesis by (intro server_write_inv [OF inv P])
  qed (use i in auto)
qed

lemma open_rd_wr: "open_rd h (open_wr k f) = open_wr k (open_rd h f)"
  by (rule fifo.equality) simp_all

text \<open>Meeting in \<open>open\<close> is the step of one and then the step of the other.\<close>

lemma meet_server_steps:
  assumes "sv_pc (fi_server s) = S_OpenR" and "fi_clients s p = Some c" and "fc_pc c = C_OpenServer"
    and t: "t = server_at S_OpenW (set_client p (c\<lparr>fc_pc := next_word 0\<rparr>)
       (on_fifo SERVER_FIFO_NAME (open_rd Server) (on_fifo SERVER_FIFO_NAME (open_wr (Client p)) s)))"
  shows "client_step p (server_at S_OpenW (on_fifo SERVER_FIFO_NAME (open_rd Server) s)) t"
proof -
  let ?s = "server_at S_OpenW (on_fifo SERVER_FIFO_NAME (open_rd Server) s)"
  have "t = set_client p (c\<lparr>fc_pc := next_word 0\<rparr>) (on_fifo SERVER_FIFO_NAME (open_wr (Client p)) ?s)"
    unfolding t by (rule fifo_state.equality) (simp_all add: open_rd_wr)
  moreover have "client_step p ?s (set_client p (c\<lparr>fc_pc := next_word 0\<rparr>) (on_fifo SERVER_FIFO_NAME (open_wr (Client p)) ?s))"
    by (rule c_open_server) (use assms in simp_all)
  ultimately show ?thesis by simp
qed

lemma meet_client_steps:
  assumes "sv_pc (fi_server s) = S_OpenClient" and "n = reply_fifo (fi_server s)" and "ff_linked (fi_fifos s n)"
    and t: "t = (set_client p c (on_fifo n (open_rd (Client p)) (on_fifo n (open_wr Server) s)))
       \<lparr>fi_server := (fi_server s)\<lparr>sv_pc := S_Write, sv_fd := Some n\<rparr>\<rparr>"
  shows "server_step (set_client p c (on_fifo n (open_rd (Client p)) s)) t"
proof -
  let ?s = "set_client p c (on_fifo n (open_rd (Client p)) s)"
  let ?t = "(on_fifo n (open_wr Server) ?s)\<lparr>fi_server := (fi_server ?s)\<lparr>sv_pc := S_Write, sv_fd := Some n\<rparr>\<rparr>"
  have "t = ?t" unfolding t by (rule fifo_state.equality) (simp_all add: open_rd_wr)
  moreover have "server_step ?s ?t" by (rule s_open_client) (use assms in simp_all)
  ultimately show ?thesis by simp
qed

lemma meet_step_inv:
  assumes inv: "fifo_inv P s" and P: "valid_pids P" and st: "meet_step p s t"
  shows "fifo_inv P t"
proof -
  have sv: "server_inv P s" using inv by (simp add: fifo_inv_def)
  note i = sv [unfolded server_inv_def Let_def]
  show ?thesis
    using st
  proof cases
    case (meet_server c)
    let ?s = "server_at S_OpenW (on_fifo SERVER_FIFO_NAME (open_rd Server) s)"
    have "ff_linked (server_fifo s)" using server_invD(10) [OF sv] meet_server(2) by simp
    then have "server_inv P ?s" using i meet_server(2) by (simp add: server_inv_def)
    then have "fifo_inv P ?s"
      by (rule server_moves [OF inv, rotated])
         (use meet_server(2) fifo_name_server [OF P] in \<open>auto simp: in_hand_none\<close>)
    then show ?thesis by (rule client_step_inv [OF _ P meet_server_steps [OF meet_server(2-4,1)]])
  next
    case (meet_client c k m)
    note C = fifo_invD(2) [OF inv meet_client(3), unfolded client_inv_def]
    have n: "fifo_name p \<noteq> SERVER_FIFO_NAME" by (rule fifo_name_server [OF P fifo_invD(1) [OF inv meet_client(3)]])
    have "fc_fd c = has_fd (fc_pc c)" using C by blast
    then have k: "k = 0" "Server \<in> ff_readers (server_fifo s)" "ff_linked (server_fifo s)"
      using meet_client(2,4,5) server_invD(4,10) [OF sv] by simp_all
    let ?c = "c\<lparr>fc_pc := C_OpenW k, fc_fd := True\<rparr>"
    have "fifo_inv P (set_client p ?c (on_fifo m (open_rd (Client p)) s))"
      by (rule client_moves [OF inv P meet_client(3), where c' = ?c and ms = "[]"])
         (use meet_client(4,5,7,8) C n k in \<open>auto simp: client_inv_def\<close>)
    then show ?thesis by (rule server_step_inv [OF _ P meet_client_steps [OF meet_client(2,6,8,1)]])
  qed
qed

lemma fifo_inv_step:
  assumes "valid_pids P" and "fifo_inv P s" and "fifo_step s t"
  shows "fifo_inv P t"
  using assms(2,3) server_step_inv [OF _ assms(1)] client_step_inv [OF _ assms(1)] meet_step_inv [OF _ assms(1)]
  unfolding fifo_step_def by blast

lemma fifo_inv_reach:
  assumes "valid_pids P" and "fifo_name ` P \<subseteq> ex"
  shows "fifo_reach (fifo_init P ex) s \<Longrightarrow> fifo_inv P s"
  by (induction rule: fifo_reach.induct) (auto intro: fifo_inv_init [OF assms] fifo_inv_step [OF assms(1)])

end
