(* ===== verification/FifoApp.thy ===== *)
theory FifoApp
  imports FifoInv Runs
begin

text \<open>
  The properties of the FIFO programs: the replies, the absence of deadlock and termination when the FIFOs of the clients
  exist, and what a client sees whose FIFO does not exist.
\<close>

section \<open>No deadlock\<close>

lemma server_can:
  assumes inv: "fifo_inv P s" and pc: "sv_pc (fi_server s) \<noteq> S_OpenR" "sv_pc (fi_server s) = S_Read \<Longrightarrow> ff_buf (server_fifo s) \<noteq> []"
  shows "\<exists>t. fifo_step s t"
proof -
  have sv: "server_inv P s" using inv by (simp add: fifo_inv_def)
  note D = server_invD [OF sv]
  have "(\<exists>t. server_step s t) \<or> (\<exists>p t. meet_step p s t)"
  proof (cases "sv_pc (fi_server s)")
    case S_Mkfifo
    then show ?thesis by (blast intro: s_mkfifo)
  next
    case S_OpenW
    then have "ff_readers (server_fifo s) \<noteq> {}" using D(4) by auto
    then show ?thesis using S_OpenW by (blast intro: s_open_w)
  next
    case S_Read
    then obtain m ms where m: "ff_buf (server_fifo s) = m # ms" using pc(2) by (cases "ff_buf (server_fifo s)") auto
    show ?thesis using s_read [OF S_Read m] s_read_bad [OF S_Read m] by (cases "upper_buf (sm_data m)") blast+
  next
    case S_OpenClient
    obtain p c i where q: "fi_clients s p = Some c" "awaits (fc_pc c) = Some i"
      "reply_fifo (fi_server s) = fifo_name p" "ff_linked (fi_fifos s (fifo_name p))"
      using served_client [OF inv] S_OpenClient by metis
    note C = fifo_invD(2) [OF inv q(1), unfolded client_inv_def]
    show ?thesis
    proof (cases "has_fd (fc_pc c)")
      case True
      then have "ff_readers (fi_fifos s (fifo_name p)) \<noteq> {}" using C by simp
      then show ?thesis using s_open_client [OF S_OpenClient q(3) [symmetric] q(4)] by blast
    next
      case False
      then have "fc_pc c = C_OpenR i" using q(2) by (cases "fc_pc c") auto
      moreover have "\<not> fc_fd c" using C False by blast
      ultimately show ?thesis using meet_client [OF S_OpenClient q(1) _ _ q(3) [symmetric] refl q(4)] by blast
    qed
  next
    case S_Write
    then obtain n where "sv_fd (fi_server s) = Some n" "ff_readers (fi_fifos s n) \<noteq> {}" using D(2) by blast
    then show ?thesis using s_write [OF S_Write] by blast
  next
    case S_Close
    show ?thesis using s_close_none [OF S_Close] s_close [OF S_Close] by (cases "sv_fd (fi_server s)") blast+
  qed (use pc D(9) in auto)
  then show ?thesis by (auto simp: fifo_step_def)
qed

text \<open>When nobody can move, a client that awaits its reply has it in its FIFO.\<close>

lemma client_idle:
  assumes inv: "fifo_inv P s" and c: "fi_clients s p = Some c" and stuck: "\<nexists>t. fifo_step s t" and a: "awaits (fc_pc c) = Some i"
  shows "ff_buf (fi_fifos s (fifo_name p)) \<noteq> [] \<and> has_fd (fc_pc c)"
proof -
  have sv: "server_inv P s" using inv by (simp add: fifo_inv_def)
  note D = server_invD [OF sv] and C = fifo_invD(2) [OF inv c, unfolded client_inv_def]
  have "with_server (fc_pc c)" using a by (cases "fc_pc c") auto
  then have "sv_pc (fi_server s) = S_Read" "ff_buf (server_fifo s) = []" using D(4,6) c server_can [OF inv] stuck by auto
  then have "mine p (ff_buf (server_fifo s)) = []" "in_hand p (fi_server s) = []" by (simp_all add: in_hand_none)
  then have "ff_buf (fi_fifos s (fifo_name p)) \<noteq> []" using C a by (auto simp: pending_def)
  then show ?thesis using C by auto
qed

lemma client_can:
  assumes inv: "fifo_inv P s" and c: "fi_clients s p = Some c" and e: "fc_pc c \<noteq> C_Exit 0"
  shows "\<exists>t. fifo_step s t"
proof (rule ccontr)
  assume stuck: "\<nexists>t. fifo_step s t"
  have sv: "server_inv P s" using inv by (simp add: fifo_inv_def)
  note D = server_invD [OF sv] and C = fifo_invD(2) [OF inv c, unfolded client_inv_def]
  note idle = client_idle [OF inv c stuck]
  have no: "\<not> client_step p s t" "\<not> meet_step p s t" for t using stuck by (auto simp: fifo_step_def)
  show False
  proof (cases "fc_pc c")
    case C_OpenServer
    have "sv_pc (fi_server s) = S_OpenR \<or> ff_readers (server_fifo s) \<noteq> {}" using D(4) server_can [OF inv] stuck by auto
    then show ?thesis using meet_server [OF _ c C_OpenServer] c_open_server [OF c C_OpenServer] no by blast
  next
    case (C_Write i)
    have "ff_readers (server_fifo s) \<noteq> {}" using D(6) [OF c] C_Write by auto
    then show ?thesis using c_write [OF c C_Write _ refl] c_overflow [OF c C_Write] no
      by (cases "strcpy (fifo_words ! i) (sm_data (fc_msg c))") blast+
  next
    case (C_OpenR i)
    then have "fc_fd c" using idle [of i] C by simp
    then show ?thesis using c_have_r [OF c C_OpenR] no by blast
  next
    case (C_OpenW i)
    have r: "ff_readers (fi_fifos s (fifo_name p)) \<noteq> {}" using C C_OpenW by simp
    show ?thesis using c_have_w [OF c C_OpenW] c_open_w [OF c C_OpenW _ _ r] no by blast
  next
    case (C_Read i)
    then obtain m ms where "ff_buf (fi_fifos s (fifo_name p)) = m # ms"
      using idle [of i] by (cases "ff_buf (fi_fifos s (fifo_name p))") auto
    moreover have "fc_fd c" using C C_Read by simp
    ultimately show ?thesis using c_read [OF c C_Read] no by blast
  next
    case (C_Print i)
    show ?thesis using c_print [OF c C_Print] c_print_bad [OF c C_Print] no
      by (cases "cstr (sm_data (fc_msg c))") blast+
  qed (use C e no c_mkfifo [OF c] c_close [OF c] in auto)
qed

section \<open>Every run ends\<close>

fun client_rank :: "client_pc \<Rightarrow> nat" where
  "client_rank C_Mkfifo = 60"
| "client_rank C_OpenServer = 59"
| "client_rank (C_Write i) = (3 - i) * 14 + 10"
| "client_rank (C_OpenR i) = (3 - i) * 14 + 4"
| "client_rank (C_OpenW i) = (3 - i) * 14 + 3"
| "client_rank (C_Read i) = (3 - i) * 14 + 2"
| "client_rank (C_Print i) = (3 - i) * 14 + 1"
| "client_rank C_Close = 1"
| "client_rank c = 0"

fun server_rank :: "server_pc \<Rightarrow> nat" where
  "server_rank S_Mkfifo = 10"
| "server_rank S_OpenR = 9"
| "server_rank S_OpenW = 8"
| "server_rank S_Read = 1"
| "server_rank S_OpenClient = 4"
| "server_rank S_Write = 3"
| "server_rank S_Close = 2"
| "server_rank c = 0"

definition clients_rank :: "pid set \<Rightarrow> fifo_state \<Rightarrow> nat" where
  "clients_rank P s = (\<Sum>p\<in>P. client_rank (fc_pc (the (fi_clients s p))))"

definition fifo_rank :: "pid set \<Rightarrow> fifo_state \<Rightarrow> nat" where
  "fifo_rank P s = server_rank (sv_pc (fi_server s)) + 5 * length (ff_buf (server_fifo s)) + clients_rank P s"

lemma clients_rank_same: "fi_clients t = fi_clients s \<Longrightarrow> clients_rank P t = clients_rank P s"
  by (simp add: clients_rank_def)

lemma clients_rank_move:
  assumes "finite P" and "p \<in> P" and "fi_clients s p = Some c" and "fi_clients t = (fi_clients s)(p \<mapsto> c')"
  shows "clients_rank P t + client_rank (fc_pc c) = clients_rank P s + client_rank (fc_pc c')"
proof -
  have "(\<Sum>q\<in>P - {p}. client_rank (fc_pc (the (fi_clients t q)))) = (\<Sum>q\<in>P - {p}. client_rank (fc_pc (the (fi_clients s q))))"
    using assms(4) by (intro sum.cong) auto
  then show ?thesis
    using assms by (simp add: clients_rank_def sum.remove [OF assms(1,2)])
qed

lemma words3: "length fifo_words = 3"
  by (simp add: fifo_words_def)

lemma next_word_rank: "i < 3 \<Longrightarrow> client_rank (next_word (Suc i)) < (3 - i) * 14" "client_rank (next_word 0) = 52"
  by (auto simp: next_word_def words3)

lemma client_step_rank:
  assumes inv: "fifo_inv P s" and P: "valid_pids P" "finite P" and st: "client_step p s t"
  shows "fifo_rank P t < fifo_rank P s"
proof -
  obtain c where c: "fi_clients s p = Some c" using st by (auto elim: client_stepE)
  have p: "p \<in> P" by (rule fifo_invD(1) [OF inv c])
  have n: "SERVER_FIFO_NAME \<noteq> fifo_name p" using fifo_name_server [OF P(1) p] by simp
  have w: "client_rank (next_word (Suc i)) < Suc ((3 - i) * 14)" if "fc_pc c = C_Print i" for i
    using fifo_invD(2) [OF inv c] that by (auto simp: client_inv_def words3 intro!: less_SucI next_word_rank)
  let ?c = "the (fi_clients t p)"
  have t: "fi_clients t = (fi_clients s)(p \<mapsto> ?c)" "fi_server t = fi_server s"
    using st by (cases, auto)+
  have "client_rank (fc_pc ?c) + 5 * length (ff_buf (server_fifo t)) < client_rank (fc_pc c) + 5 * length (ff_buf (server_fifo s))"
    using st c n w by cases (auto simp: fifo_new_def close_client_def next_word_rank(2))
  then show ?thesis using clients_rank_move [OF P(2) p c t(1)] t(2) by (simp add: fifo_rank_def)
qed

lemma server_step_rank:
  assumes inv: "fifo_inv P s" and P: "valid_pids P" and st: "server_step s t"
  shows "fifo_rank P t < fifo_rank P s"
proof -
  have sv: "server_inv P s" using inv by (simp add: fifo_inv_def)
  have cl: "clients_rank P t = clients_rank P s" by (rule clients_rank_same [OF server_step_clients [OF st]])
  have n: "m \<noteq> SERVER_FIFO_NAME" if "sv_fd (fi_server s) = Some m" for m
    using server_invD(3) [OF sv that] fifo_name_server [OF P] by auto
  have r: "reply_fifo (fi_server s) \<noteq> SERVER_FIFO_NAME" if "sv_pc (fi_server s) = S_OpenClient"
    using served_client [OF inv] that fifo_name_server [OF P] by metis
  show ?thesis
    using st
    by cases (use cl n r in \<open>auto simp: fifo_rank_def fifo_new_def\<close>)
qed

lemma meet_step_rank:
  assumes inv: "fifo_inv P s" and P: "valid_pids P" "finite P" and st: "meet_step p s t"
  shows "fifo_rank P t < fifo_rank P s"
  using st
proof cases
  case (meet_server c)
  have p: "p \<in> P" by (rule fifo_invD(1) [OF inv meet_server(3)])
  from clients_rank_move [OF P(2) p meet_server(3), of t "c\<lparr>fc_pc := next_word 0\<rparr>"] meet_server
  show ?thesis by (simp add: fifo_rank_def next_word_rank)
next
  case (meet_client c i n)
  have p: "p \<in> P" by (rule fifo_invD(1) [OF inv meet_client(3)])
  have n: "n \<noteq> SERVER_FIFO_NAME" using fifo_name_server [OF P(1) p] meet_client(7) by simp
  from clients_rank_move [OF P(2) p meet_client(3), of t "c\<lparr>fc_pc := C_OpenW i, fc_fd := True\<rparr>"] meet_client n
  show ?thesis by (simp add: fifo_rank_def)
qed

lemma fifo_step_rank:
  "fifo_inv P s \<Longrightarrow> valid_pids P \<Longrightarrow> finite P \<Longrightarrow> fifo_step s t \<Longrightarrow> fifo_rank P t < fifo_rank P s"
  unfolding fifo_step_def using client_step_rank server_step_rank meet_step_rank by blast

section \<open>The properties\<close>

text \<open>
C9: When the FIFO of every client exists beforehand, no run of the server and any number of clients goes wrong, however
  the processes interleave: the server never ends, is never killed by SIGPIPE and never reads past a buffer, and every
  client has at each moment printed exactly the lines of the words it is done with, each with the upper-case form of
  this word, whatever the others send in between; no client sees the end of its FIFO or is killed.
\<close>

theorem fifo_clients_get_replies:
  assumes "valid_pids P" and "fifo_name ` P \<subseteq> ex" and "fifo_reach (fifo_init P ex) s" and "fi_clients s p = Some c"
  shows "fc_out c = replies (words_done (fc_pc c)) \<and> fc_pc c \<notin> {C_Killed, C_Undefined, C_Exit 1}
    \<and> sv_pc (fi_server s) \<notin> {S_Exit, S_Killed, S_Undefined}"
proof -
  note i = fifo_inv_reach [OF assms(1-3)]
  have "server_inv P s" using i by (simp add: fifo_inv_def)
  then have "sv_pc (fi_server s) \<notin> {S_Exit, S_Killed, S_Undefined}" using server_invD(9) by blast
  moreover have "pc_word_ok (fc_pc c) \<and> fc_pc c \<noteq> C_Killed \<and> fc_out c = replies (words_done (fc_pc c))"
    using fifo_invD(2) [OF i assms(4)] unfolding client_inv_def by blast
  ultimately show ?thesis by auto
qed

lemma valid_pids_two: "valid_pids {7, 12}"
  by (simp add: valid_pids_def)

interpretation messages: ranked_system fifo_step "\<lambda>s. valid_pids P \<and> finite P \<and> fifo_inv P s" "fifo_rank P" for P
  by unfold_locales (auto intro: fifo_inv_step fifo_step_rank)

lemma fifo_steps_reach: "fifo_step\<^sup>*\<^sup>* s t \<Longrightarrow> fifo_reach s t"
  by (induction rule: rtranclp_induct) (auto intro: fifo_start fifo_next)

lemma fifo_run_to_end:
  assumes "valid_pids P" and "finite P" and "fifo_name ` P \<subseteq> ex"
  shows "\<exists>s. fifo_reach (fifo_init P ex) s \<and> (\<nexists>t. fifo_step s t)"
proof -
  have "always_ends fifo_step (fifo_init P ex) (\<lambda>s. True)"
    by (rule messages.ends [where P = P]) (use assms fifo_inv_init [OF assms(1,3)] in simp_all)
  from always_ends_somewhere [OF this] fifo_steps_reach show ?thesis by blast
qed

theorem fifo_clients_get_replies_witness:
  "\<exists>s c. fifo_reach (fifo_init {7, 12} (fifo_name ` {7, 12})) s \<and> (\<nexists>t. fifo_step s t) \<and> fi_clients s 7 = Some c
     \<and> fc_out c = replies (words_done (fc_pc c))"
proof -
  obtain s where s: "fifo_reach (fifo_init {7, 12} (fifo_name ` {7, 12})) s" "\<nexists>t. fifo_step s t"
    using fifo_run_to_end [OF valid_pids_two] by blast
  have "dom (fi_clients s) = {7, 12}"
    using fifo_inv_reach [OF valid_pids_two order.refl s(1)] by (simp add: fifo_inv_def)
  then obtain c where "fi_clients s 7 = Some c" by blast
  with s fifo_clients_get_replies [OF valid_pids_two order.refl s(1) this] show ?thesis by blast
qed

text \<open>
C10: When the FIFO of every client exists beforehand, every run ends, however the processes interleave, and it ends only
  where every client has exited with status 0 after the three lines \<open>applesauce --> APPLESAUCE\<close>, \<open>tiger --> TIGER\<close>
  and \<open>mountain --> MOUNTAIN\<close>: no run deadlocks.  The server is then waiting.
\<close>

theorem fifo_runs_end:
  assumes "valid_pids P" and "finite P" and "fifo_name ` P \<subseteq> ex"
  shows "always_ends fifo_step (fifo_init P ex)
    (\<lambda>s. (\<forall>p\<in>P. \<exists>c. fi_clients s p = Some c \<and> fc_pc c = C_Exit 0
          \<and> fc_out c = [(''applesauce'', ''APPLESAUCE''), (''tiger'', ''TIGER''), (''mountain'', ''MOUNTAIN'')])
        \<and> sv_pc (fi_server s) \<in> {S_OpenR, S_Read})"
proof (rule messages.ends [where P = P])
  fix s assume "valid_pids P \<and> finite P \<and> fifo_inv P s" and stuck: "\<nexists>t. fifo_step s t"
  then have i: "fifo_inv P s" by simp
  have "\<exists>c. fi_clients s p = Some c \<and> fc_pc c = C_Exit 0 \<and> fc_out c = replies 3" if "p \<in> P" for p
  proof -
    have "dom (fi_clients s) = P" using i by (simp add: fifo_inv_def)
    with that obtain c where c: "fi_clients s p = Some c" by blast
    have e: "fc_pc c = C_Exit 0" using client_can [OF i c] stuck by blast
    then show ?thesis using c fifo_invD(2) [OF i c] by (simp add: client_inv_def words3)
  qed
  moreover have "replies 3 = [(''applesauce'', ''APPLESAUCE''), (''tiger'', ''TIGER''), (''mountain'', ''MOUNTAIN'')]"
    by code_simp
  ultimately show "(\<forall>p\<in>P. \<exists>c. fi_clients s p = Some c \<and> fc_pc c = C_Exit 0
          \<and> fc_out c = [(''applesauce'', ''APPLESAUCE''), (''tiger'', ''TIGER''), (''mountain'', ''MOUNTAIN'')])
        \<and> sv_pc (fi_server s) \<in> {S_OpenR, S_Read}"
    using server_can [OF i] stuck by auto
qed (use assms fifo_inv_init [OF assms(1,3)] in simp)

theorem fifo_runs_end_witness:
  "\<exists>s. fifo_step\<^sup>*\<^sup>* (fifo_init {7, 12} (fifo_name ` {7, 12})) s \<and> (\<nexists>t. fifo_step s t)
     \<and> (\<exists>c. fi_clients s 7 = Some c \<and> fc_pc c = C_Exit 0
          \<and> fc_out c = [(''applesauce'', ''APPLESAUCE''), (''tiger'', ''TIGER''), (''mountain'', ''MOUNTAIN'')])"
  using always_ends_somewhere [OF fifo_runs_end [OF valid_pids_two _ order.refl]] by auto

text \<open>
C32: A client whose own FIFO does not exist never gets a reply: both programs call \<open>mkfifo\<close> for the name of the server
  only, the descriptor stays -1, the failing \<open>read\<close> is not taken for an error, and the client prints its own word as
  the answer, in lower case, however the server and the other clients move.
\<close>

theorem fifo_client_hears_itself:
  assumes "valid_pids P" and "p \<in> P" and "fifo_name p \<notin> ex" and "fifo_reach (fifo_init P ex) s" and "fi_clients s p = Some c"
  shows "is_echo (fc_out c) \<and> fc_pc c \<notin> {C_Undefined, C_Exit 1} \<and> (fc_pc c = C_Exit 0 \<longrightarrow> fc_out c = echoes 3)
    \<and> \<not> fc_fd c \<and> \<not> fc_fdw c"
proof -
  have "alone_inv p s c" using alone_inv_reach [OF assms(1-4)] assms(5) by auto
  then show ?thesis by (auto simp: alone_inv_def words3)
qed

text \<open>The first word of a client without its FIFO.\<close>

lemma valid_pids_one: "valid_pids {7}"
  by (simp add: valid_pids_def)

lemma fifo_start_7:
  obtains s c where "fifo_reach (fifo_init {7} {}) s" "fi_clients s 7 = Some c" "fc_pc c = next_word 0"
    "fc_msg c = fc_msg (client_init 7)" "\<not> fc_fd c" "\<not> fc_fdw c" "fc_out c = []" "Server \<in> ff_readers (server_fifo s)"
    "\<not> ff_linked (fi_fifos s (fifo_name 7))"
proof -
  let ?s0 = "fifo_init {7} {}"
  have n: "fifo_name 7 \<noteq> SERVER_FIFO_NAME" by (rule fifo_name_server [OF valid_pids_one]) simp
  define s1 where "s1 = server_at S_OpenR (mkfifo_at SERVER_FIFO_NAME ?s0)"
  have 1: "fifo_step ?s0 s1"
    using s_mkfifo [of ?s0] by (simp add: fifo_step_def s1_def fifo_init_def)
  define c1 where "c1 = (client_init 7)\<lparr>fc_pc := C_OpenServer\<rparr>"
  define s2 where "s2 = set_client 7 c1 (mkfifo_at SERVER_FIFO_NAME s1)"
  have "fi_clients s1 7 = Some (client_init 7)" by (simp add: s1_def fifo_init_def)
  then have 2: "fifo_step s1 s2"
    using c_mkfifo [of s1 7 "client_init 7"] by (auto simp: fifo_step_def s2_def c1_def client_init_def)
  define s3 where "s3 = server_at S_OpenW (set_client 7 (c1\<lparr>fc_pc := next_word 0\<rparr>)
       (on_fifo SERVER_FIFO_NAME (open_rd Server) (on_fifo SERVER_FIFO_NAME (open_wr (Client 7)) s2)))"
  have 3: "fifo_step s2 s3"
    using meet_server [of s2 7 c1] by (auto simp: fifo_step_def s3_def s2_def s1_def c1_def)
  have r: "fifo_reach ?s0 s3" using fifo_next [OF fifo_next [OF fifo_next [OF fifo_start 1] 2] 3] .
  show thesis
    by (rule that [OF r, of "c1\<lparr>fc_pc := next_word 0\<rparr>"])
       (use n in \<open>simp_all add: s3_def s2_def s1_def c1_def client_init_def fifo_init_def fifo_absent_def\<close>)
qed

text \<open>One turn of its loop: the word is written, both \<open>open\<close>s and the \<open>read\<close> fail, and the word is printed.\<close>

lemma alone_turn:
  assumes r: "fifo_reach s0 s" and c: "fi_clients s p = Some c" "fc_pc c = C_Write i" "\<not> fc_fd c" "\<not> fc_fdw c"
    and f: "\<not> ff_linked (fi_fifos s (fifo_name p))" "ff_readers (server_fifo s) \<noteq> {}" "fifo_name p \<noteq> SERVER_FIFO_NAME"
    and d: "strcpy (fifo_words ! i) (sm_data (fc_msg c)) = Some d" "cstr d = Some w"
  shows "\<exists>t c'. fifo_reach s0 t \<and> fi_clients t p = Some c' \<and> fc_pc c' = next_word (Suc i) \<and> fc_out c' = fc_out c @ [(fifo_words ! i, w)]"
proof -
  have more: "fifo_reach s0 v" if "fifo_reach s0 u" "client_step p u v" for u v
    using fifo_next [OF that(1)] that(2) unfolding fifo_step_def by blast
  define m where "m = (fc_msg c)\<lparr>sm_data := d\<rparr>"
  define c1 where "c1 = c\<lparr>fc_pc := C_OpenR i, fc_msg := m\<rparr>"
  define s1 where "s1 = set_client p c1 (on_fifo SERVER_FIFO_NAME (put_msg m) s)"
  have 1: "fifo_reach s0 s1" unfolding s1_def c1_def by (rule more [OF r c_write [OF c(1,2) d(1) m_def f(2)]])
  have l1: "\<not> ff_linked (fi_fifos s1 (fifo_name p))" "fi_clients s1 p = Some c1" using f by (simp_all add: s1_def)
  define c2 where "c2 = c1\<lparr>fc_pc := C_OpenW i\<rparr>"
  have 2: "fifo_reach s0 (set_client p c2 s1)"
    unfolding c2_def by (rule more [OF 1 c_have_r [OF l1(2)]]) (use l1(1) in \<open>simp_all add: c1_def\<close>)
  define c3 where "c3 = c2\<lparr>fc_pc := C_Read i\<rparr>"
  have 3: "fifo_reach s0 (set_client p c3 (set_client p c2 s1))"
    unfolding c3_def by (rule more [OF 2 c_have_w]) (use l1(1) in \<open>simp_all add: c2_def c1_def\<close>)
  define c4 where "c4 = c3\<lparr>fc_pc := C_Print i\<rparr>"
  define s4 where "s4 = set_client p c4 (set_client p c3 (set_client p c2 s1))"
  have 4: "fifo_reach s0 s4"
    unfolding s4_def c4_def by (rule more [OF 3 c_read_bad]) (use c(3) in \<open>simp_all add: c3_def c2_def c1_def\<close>)
  define c5 where "c5 = c4\<lparr>fc_pc := next_word (Suc i), fc_out := fc_out c4 @ [(fifo_words ! i, w)]\<rparr>"
  have 5: "fifo_reach s0 (set_client p c5 s4)"
    unfolding c5_def by (rule more [OF 4 c_print]) (use d(2) in \<open>simp_all add: s4_def c4_def c3_def c2_def c1_def m_def\<close>)
  show ?thesis
    by (intro exI [of _ c5] exI conjI) (rule 5, simp_all add: c5_def c4_def c3_def c2_def c1_def)
qed

theorem fifo_client_hears_itself_witness:
  "\<exists>s c. fifo_reach (fifo_init {7} {}) s \<and> fi_clients s 7 = Some c \<and> fc_pc c = C_Write 1
     \<and> fc_out c = [(''applesauce'', ''applesauce'')] \<and> is_echo (fc_out c)"
proof -
  obtain s c where s: "fifo_reach (fifo_init {7} {}) s" "fi_clients s 7 = Some c" "fc_pc c = next_word 0"
    "fc_msg c = fc_msg (client_init 7)" "\<not> fc_fd c" "\<not> fc_fdw c" "fc_out c = []" "Server \<in> ff_readers (server_fifo s)"
    "\<not> ff_linked (fi_fifos s (fifo_name 7))"
    by (rule fifo_start_7)
  have n: "fifo_name 7 \<noteq> SERVER_FIFO_NAME" by (rule fifo_name_server [OF valid_pids_one]) simp
  have w: "fc_pc c = C_Write 0" using s(3) by (simp add: next_word_def words3)
  have rd: "ff_readers (server_fifo s) \<noteq> {}" using s(8) by blast
  obtain d where d: "strcpy (fifo_words ! 0) (sm_data (fc_msg c)) = Some d" "cstr d = Some (fifo_words ! 0)"
  proof -
    have "length (fifo_words ! 0) < length (sm_data (fc_msg c))" "no_nul (fifo_words ! 0)"
      using fifo_words_ok [of 0] s(4) by (simp_all add: words3 client_init_def)
    then have "strcpy (fifo_words ! 0) (sm_data (fc_msg c)) \<noteq> None" by (simp add: strcpy_def)
    then obtain d where "strcpy (fifo_words ! 0) (sm_data (fc_msg c)) = Some d" by blast
    then show thesis using that cstr_strcpy \<open>no_nul (fifo_words ! 0)\<close> by blast
  qed
  obtain t c' where t: "fifo_reach (fifo_init {7} {}) t" "fi_clients t 7 = Some c'" "fc_pc c' = next_word (Suc 0)"
    "fc_out c' = [(fifo_words ! 0, fifo_words ! 0)]"
    using alone_turn [OF s(1,2) w s(5,6,9) rd n d] s(7) by auto
  have "is_echo (fc_out c')" using fifo_client_hears_itself [OF valid_pids_one _ _ t(1,2)] by simp
  moreover have "fc_pc c' = C_Write 1" using t(3) by (simp add: next_word_def words3)
  moreover have "fc_out c' = [(''applesauce'', ''applesauce'')]" using t(4) by (simp add: fifo_words_def)
  ultimately show ?thesis using t(1,2) by blast
qed

end
