(* ===== verification/Sockets.thy ===== *)
theory Sockets
  imports CLib
begin

text \<open>
  \<open>socket/basic.c\<close>: a client and a server that exchange two messages over a local socket, as two processes whose calls
  interleave.  \<open>unlink\<close>, \<open>socket\<close> and \<open>fork\<close> come before the first state and succeed.  Two points are those of Linux and of a
  terminal: after a \<open>connect\<close> that failed the same socket is used again (POSIX leaves its state unspecified), and
  lines are in the order in which they are printed (each process writes a line out at once, as \<open>stdio\<close>
  does on a terminal; into a file they would appear when the processes exit).
\<close>

section \<open>The processes\<close>

text \<open>
  The child asks for a connection until it has one, writes, reads and prints; the parent makes the socket, waits for a
  connection, reads, prints and writes.  Each point is the call that comes next.
\<close>

datatype child_pc = K_Connect | K_Sleep | K_Write | K_Read | K_Exit | K_Killed | K_Undefined
datatype parent_pc = A_Bind | A_Listen | A_Accept | A_Read | A_Write | A_Close | A_Exit | A_Killed | A_Undefined

text \<open>
  The name of the socket, whether it listens, whether the connection is made, the two directions of the stream, whether
  the parent has closed its end, and the lines printed, in the order of the calls.
\<close>

record sock =
  sk_bound :: bool
  sk_listening :: bool
  sk_connected :: bool
  sk_to_server :: string
  sk_to_client :: string
  sk_closed :: bool
  sk_child :: child_pc
  sk_parent :: parent_pc
  sk_out :: "string list"

definition sock_init :: sock where
  "sock_init = \<lparr>sk_bound = False, sk_listening = False, sk_connected = False, sk_to_server = [], sk_to_client = [],
     sk_closed = False, sk_child = K_Connect, sk_parent = A_Bind, sk_out = []\<rparr>"

definition hello_msg :: string where "hello_msg = ''Hello!'' @ [NUL]"
definition goodbye_msg :: string where "goodbye_msg = ''Goodbye!'' @ [NUL]"

text \<open>What \<open>read\<close> into the array of 100 characters leaves there, and the line that is printed of it.\<close>

definition sock_buf :: "string \<Rightarrow> cbuf" where
  "sock_buf d = map Some (take 100 d) @ uninit (100 - length d)"

definition got_line :: "string \<Rightarrow> string \<Rightarrow> string \<Rightarrow> string" where
  "got_line who t e = who @ '' got '' @ [DQUOTE] @ t @ [DQUOTE] @ e"

text \<open>
  \<open>ok\<close> is whether \<open>bind\<close> succeeds; without it \<open>listen\<close>, \<open>accept\<close> and the \<open>read\<close> from -1 fail, none of which is looked at, and the
  parent prints an indeterminate array.  A write to a closed end kills.
\<close>

inductive sock_step :: "bool \<Rightarrow> sock \<Rightarrow> sock \<Rightarrow> bool" for ok where
  k_enoent: "sk_child s = K_Connect \<Longrightarrow> \<not> sk_bound s \<Longrightarrow> sock_step ok s (s\<lparr>sk_child := K_Sleep\<rparr>)"
| k_wake: "sk_child s = K_Sleep \<Longrightarrow> sock_step ok s (s\<lparr>sk_child := K_Connect\<rparr>)"
| k_refused: "sk_child s = K_Connect \<Longrightarrow> sk_bound s \<Longrightarrow> \<not> sk_listening s \<Longrightarrow> sock_step ok s s"
| k_connect: "sk_child s = K_Connect \<Longrightarrow> sk_bound s \<Longrightarrow> sk_listening s \<Longrightarrow>
     sock_step ok s (s\<lparr>sk_child := K_Write, sk_connected := True\<rparr>)"
| k_write: "sk_child s = K_Write \<Longrightarrow> \<not> sk_closed s \<Longrightarrow>
     sock_step ok s (s\<lparr>sk_child := K_Read, sk_to_server := sk_to_server s @ hello_msg\<rparr>)"
| k_sigpipe: "sk_child s = K_Write \<Longrightarrow> sk_closed s \<Longrightarrow> sock_step ok s (s\<lparr>sk_child := K_Killed\<rparr>)"
| k_read: "sk_child s = K_Read \<Longrightarrow> sk_to_client s \<noteq> [] \<Longrightarrow> cstr (sock_buf (sk_to_client s)) = Some t \<Longrightarrow>
     sock_step ok s (s\<lparr>sk_child := K_Exit, sk_to_client := drop 100 (sk_to_client s), sk_out := sk_out s @ [got_line ''Client'' t [NL]]\<rparr>)"
| k_read_bad: "sk_child s = K_Read \<Longrightarrow> sk_to_client s \<noteq> [] \<or> sk_closed s \<Longrightarrow> cstr (sock_buf (sk_to_client s)) = None \<Longrightarrow>
     sock_step ok s (s\<lparr>sk_child := K_Undefined\<rparr>)"
| a_bind: "sk_parent s = A_Bind \<Longrightarrow> sock_step ok s (s\<lparr>sk_parent := A_Listen, sk_bound := ok\<rparr>)"
| a_listen: "sk_parent s = A_Listen \<Longrightarrow> sock_step ok s (s\<lparr>sk_parent := A_Accept, sk_listening := sk_bound s\<rparr>)"
| a_accept: "sk_parent s = A_Accept \<Longrightarrow> sk_listening s \<Longrightarrow> sk_connected s \<Longrightarrow> sock_step ok s (s\<lparr>sk_parent := A_Read\<rparr>)"
| a_accept_fails: "sk_parent s = A_Accept \<Longrightarrow> \<not> sk_listening s \<Longrightarrow> sock_step ok s (s\<lparr>sk_parent := A_Undefined\<rparr>)"
| a_read: "sk_parent s = A_Read \<Longrightarrow> sk_to_server s \<noteq> [] \<Longrightarrow> cstr (sock_buf (sk_to_server s)) = Some t \<Longrightarrow>
     sock_step ok s (s\<lparr>sk_parent := A_Write, sk_to_server := drop 100 (sk_to_server s), sk_out := sk_out s @ [got_line ''Server'' t [SPC, NL]]\<rparr>)"
| a_read_bad: "sk_parent s = A_Read \<Longrightarrow> sk_to_server s \<noteq> [] \<or> sk_child s \<in> {K_Exit, K_Killed} \<Longrightarrow>
     cstr (sock_buf (sk_to_server s)) = None \<Longrightarrow> sock_step ok s (s\<lparr>sk_parent := A_Undefined\<rparr>)"
| a_write: "sk_parent s = A_Write \<Longrightarrow> sk_child s \<notin> {K_Exit, K_Killed} \<Longrightarrow>
     sock_step ok s (s\<lparr>sk_parent := A_Close, sk_to_client := sk_to_client s @ goodbye_msg\<rparr>)"
| a_sigpipe: "sk_parent s = A_Write \<Longrightarrow> sk_child s \<in> {K_Exit, K_Killed} \<Longrightarrow> sock_step ok s (s\<lparr>sk_parent := A_Killed\<rparr>)"
| a_close: "sk_parent s = A_Close \<Longrightarrow> sock_step ok s (s\<lparr>sk_parent := A_Exit, sk_closed := True\<rparr>)"

inductive_cases sock_stepE: "sock_step ok s t"

abbreviation sock_run :: "bool \<Rightarrow> sock \<Rightarrow> sock \<Rightarrow> bool" where
  "sock_run ok \<equiv> (sock_step ok)\<^sup>*\<^sup>*"

section \<open>The invariant\<close>

definition server_line :: string where "server_line = got_line ''Server'' ''Hello!'' [SPC, NL]"
definition client_line :: string where "client_line = got_line ''Client'' ''Goodbye!'' [NL]"

lemma sock_texts [simp]:
  "cstr (sock_buf hello_msg) = Some ''Hello!''" "cstr (sock_buf goodbye_msg) = Some ''Goodbye!''"
  "length hello_msg \<le> 100" "length goodbye_msg \<le> 100" "hello_msg \<noteq> []" "goodbye_msg \<noteq> []"
  by (simp_all add: sock_buf_def hello_msg_def goodbye_msg_def)

fun parent_order :: "parent_pc \<Rightarrow> nat" where
  "parent_order A_Bind = 0"
| "parent_order A_Listen = 1"
| "parent_order A_Accept = 2"
| "parent_order A_Read = 3"
| "parent_order A_Write = 4"
| "parent_order A_Close = 5"
| "parent_order A_Exit = 6"
| "parent_order p = 7"

fun child_order :: "child_pc \<Rightarrow> nat" where
  "child_order K_Connect = 1"
| "child_order K_Sleep = 0"
| "child_order K_Write = 2"
| "child_order K_Read = 3"
| "child_order K_Exit = 4"
| "child_order k = 5"

definition sock_inv :: "sock \<Rightarrow> bool" where
  "sock_inv s \<longleftrightarrow>
     (let a = parent_order (sk_parent s); k = child_order (sk_child s) in
      a < 7 \<and> k < 5
      \<and> sk_bound s = (1 \<le> a) \<and> sk_listening s = (2 \<le> a) \<and> sk_connected s = (2 \<le> k)
      \<and> (2 \<le> k \<longrightarrow> 2 \<le> a) \<and> (3 \<le> a \<longrightarrow> 2 \<le> k) \<and> (4 \<le> a \<longrightarrow> 3 \<le> k) \<and> (k = 4 \<longrightarrow> 5 \<le> a)
      \<and> sk_to_server s = (if 3 \<le> k \<and> a < 4 then hello_msg else [])
      \<and> sk_to_client s = (if 5 \<le> a \<and> k < 4 then goodbye_msg else [])
      \<and> sk_closed s = (a = 6)
      \<and> sk_out s = (if a < 4 then [] else if k < 4 then [server_line] else [server_line, client_line]))"

lemma sock_inv_step:
  assumes "sock_inv s" and "sock_step True s t"
  shows "sock_inv t"
  using assms(2)
  by cases (use assms(1) in \<open>auto simp: sock_inv_def Let_def server_line_def client_line_def split: if_splits\<close>)

lemma sock_inv_run: "sock_run True sock_init s \<Longrightarrow> sock_inv s"
proof (induction rule: rtranclp_induct)
  case base
  show ?case by (simp add: sock_inv_def sock_init_def)
qed (rule sock_inv_step)

section \<open>Getting to the end\<close>

definition sock_rank :: "sock \<Rightarrow> nat" where
  "sock_rank s = (6 - parent_order (sk_parent s)) + (4 - child_order (sk_child s))"

definition both_exit :: "sock \<Rightarrow> bool" where
  "both_exit s \<longleftrightarrow> sk_parent s = A_Exit \<and> sk_child s = K_Exit"

lemma progress_by:
  "sock_step True s t \<Longrightarrow> sock_rank t < sock_rank s \<Longrightarrow> \<exists>t. sock_step True s t \<and> sock_rank t < sock_rank s"
  by blast

lemma sock_progress:
  assumes inv: "sock_inv s" and e: "\<not> both_exit s"
  shows "\<exists>t. sock_step True s t \<and> sock_rank t < sock_rank s"
proof (cases "sk_parent s")
  case A_Bind
  show ?thesis by (rule progress_by [OF a_bind [OF A_Bind]]) (simp add: sock_rank_def A_Bind)
next
  case A_Listen
  show ?thesis by (rule progress_by [OF a_listen [OF A_Listen]]) (simp add: sock_rank_def A_Listen)
next
  case A_Accept
  have l: "sk_bound s" "sk_listening s" using inv A_Accept by (simp_all add: sock_inv_def Let_def)
  show ?thesis
  proof (cases "sk_connected s")
    case True
    show ?thesis by (rule progress_by [OF a_accept [OF A_Accept l(2) True]]) (simp add: sock_rank_def A_Accept)
  next
    case False
    then have "sk_child s = K_Connect \<or> sk_child s = K_Sleep"
      using inv by (cases "sk_child s") (simp_all add: sock_inv_def Let_def)
    then show ?thesis
      using progress_by [OF k_connect [OF _ l]] progress_by [OF k_wake] by (auto simp: sock_rank_def)
  qed
next
  case A_Read
  then have "sk_child s = K_Write \<and> \<not> sk_closed s \<or> sk_to_server s = hello_msg"
    using inv by (cases "sk_child s") (auto simp: sock_inv_def Let_def)
  then show ?thesis
    using progress_by [OF k_write [of s]] progress_by [OF a_read [OF A_Read]] by (auto simp: sock_rank_def A_Read)
next
  case A_Write
  then have "sk_child s \<notin> {K_Exit, K_Killed}" using inv by (auto simp: sock_inv_def Let_def)
  then show ?thesis by (intro progress_by [OF a_write [OF A_Write]]) (simp_all add: sock_rank_def A_Write)
next
  case A_Close
  show ?thesis by (rule progress_by [OF a_close [OF A_Close]]) (simp add: sock_rank_def A_Close)
next
  case A_Exit
  then have "sk_child s = K_Read" "sk_to_client s = goodbye_msg"
    using inv e by (cases "sk_child s"; simp add: sock_inv_def Let_def both_exit_def)+
  then show ?thesis using progress_by [OF k_read [of s]] by (auto simp: sock_rank_def)
qed (use inv in \<open>simp_all add: sock_inv_def Let_def\<close>)

lemma sock_reaches_end: "sock_inv s \<Longrightarrow> \<exists>t. sock_run True s t \<and> both_exit t"
proof (induction "sock_rank s" arbitrary: s rule: less_induct)
  case less
  show ?case
  proof (cases "both_exit s")
    case False
    from sock_progress [OF less.prems this] obtain t where "sock_step True s t" "sock_rank t < sock_rank s" by blast
    with less.hyps [OF this(2) sock_inv_step [OF less.prems this(1)]] show ?thesis
      by (meson converse_rtranclp_into_rtranclp)
  qed blast
qed

section \<open>The properties\<close>

text \<open>
C29: When \<open>bind\<close> succeeds, whatever the order of the two processes, neither is killed or reads what was not written, the lines
printed are at each moment the first of \<open>Server got "Hello!"\<close> and \<open>Client got "Goodbye!"\<close>, in this order, and from
every state that can be reached both can still exit, with both lines printed; a state without steps is such an end.
\<close>

theorem socket_exchange:
  assumes "sock_run True sock_init s"
  shows "sk_child s \<notin> {K_Killed, K_Undefined} \<and> sk_parent s \<notin> {A_Killed, A_Undefined}
    \<and> (\<exists>n. sk_out s = take n [server_line, client_line])
    \<and> (\<exists>t. sock_run True s t \<and> both_exit t \<and> sk_out t = [server_line, client_line])
    \<and> ((\<nexists>t. sock_step True s t) \<longrightarrow> both_exit s)"
proof -
  note inv = sock_inv_run [OF assms]
  have 1: "sk_child s \<notin> {K_Killed, K_Undefined} \<and> sk_parent s \<notin> {A_Killed, A_Undefined}"
    using inv by (auto simp: sock_inv_def Let_def)
  have "sk_out s \<in> {take 0 [server_line, client_line], take 1 [server_line, client_line], take 2 [server_line, client_line]}"
    using inv by (auto simp: sock_inv_def Let_def)
  then have 2: "\<exists>n. sk_out s = take n [server_line, client_line]" by blast
  obtain t where t: "sock_run True s t" "both_exit t" using sock_reaches_end [OF inv] by blast
  then have "sock_inv t" using assms sock_inv_run by (meson rtranclp_trans)
  then have "sk_out t = [server_line, client_line]" using t(2) by (simp add: sock_inv_def both_exit_def Let_def)
  with 1 2 t sock_progress [OF inv] show ?thesis by blast
qed

lemma socket_exchange_witness: "\<exists>t. sock_run True sock_init t \<and> both_exit t \<and> sk_out t = [server_line, client_line]"
  using socket_exchange [OF rtranclp.rtrancl_refl] by blast

text \<open>
When \<open>bind\<close> fails, the child never gets out of its loop and nothing is ever printed: it asks again for ever, since the loop
ends on success only; and the parent, which checks none of its calls, goes on to print an array it has not filled.
\<close>

theorem socket_bind_fails:
  assumes "sock_run False sock_init s"
  shows "sk_child s \<in> {K_Connect, K_Sleep} \<and> sk_out s = [] \<and> (\<exists>t. sock_step False s t)
    \<and> sk_parent s \<in> {A_Bind, A_Listen, A_Accept, A_Undefined} \<and> (\<exists>t. sock_run False s t \<and> sk_parent t = A_Undefined)"
proof -
  have inv: "sk_child s \<in> {K_Connect, K_Sleep} \<and> sk_out s = [] \<and> sk_parent s \<in> {A_Bind, A_Listen, A_Accept, A_Undefined}
      \<and> \<not> sk_bound s \<and> \<not> sk_listening s"
    using assms
  proof (induction rule: rtranclp_induct)
    case (step y z)
    from step(2) show ?case by cases (use step.IH in auto)
  qed (simp add: sock_init_def)
  have undef: "\<exists>t. sock_run False x t \<and> sk_parent t = A_Undefined" if "sk_parent x = A_Accept" "\<not> sk_listening x" for x
  proof (intro exI conjI)
    show "sock_run False x (x\<lparr>sk_parent := A_Undefined\<rparr>)"
      by (rule r_into_rtranclp) (rule a_accept_fails [OF that])
  qed simp
  have listen: "\<exists>t. sock_run False x t \<and> sk_parent t = A_Undefined" if "sk_parent x = A_Listen" "\<not> sk_bound x" for x
  proof -
    from undef [of "x\<lparr>sk_parent := A_Accept, sk_listening := sk_bound x\<rparr>"] that(2)
    obtain t where "sock_run False (x\<lparr>sk_parent := A_Accept, sk_listening := sk_bound x\<rparr>) t" "sk_parent t = A_Undefined" by auto
    with converse_rtranclp_into_rtranclp [of "sock_step False", OF a_listen [OF that(1)]] show ?thesis by blast
  qed
  have bind: "\<exists>t. sock_run False x t \<and> sk_parent t = A_Undefined" if "sk_parent x = A_Bind" for x
  proof -
    from listen [of "x\<lparr>sk_parent := A_Listen, sk_bound := False\<rparr>"]
    obtain t where "sock_run False (x\<lparr>sk_parent := A_Listen, sk_bound := False\<rparr>) t" "sk_parent t = A_Undefined" by auto
    with converse_rtranclp_into_rtranclp [of "sock_step False", OF a_bind [OF that]] show ?thesis by blast
  qed
  have "\<exists>t. sock_run False s t \<and> sk_parent t = A_Undefined"
    using inv undef [of s] listen [of s] bind [of s] by blast
  moreover have "\<exists>t. sock_step False s t"
    using inv k_enoent [of s False] k_wake [of s False] by blast
  ultimately show ?thesis using inv by blast
qed

lemma socket_bind_fails_witness: "\<exists>t. sock_run False sock_init t \<and> sk_parent t = A_Undefined"
  using socket_bind_fails [OF rtranclp.rtrancl_refl] by blast

end
