(* ===== verification/Terminal.thy ===== *)
theory Terminal
  imports Posix "HOL-Library.Word"
begin

unbundle bit_operations_syntax

text \<open>
  The programs of \<open>terminal/\<close>: \<open>read_char.c\<close>, which reads keys one by one with the modes of the terminal changed, \<open>r.c\<close> and
  \<open>t.c\<close>.
\<close>

section \<open>\<open>read_char.c\<close>\<close>

definition ESC :: int where "ESC = 27"

text \<open>
  What the next \<open>read\<close> of one byte finds: a byte, the end of the file, or an error.  At the end of the list the
  file has ended, and every further \<open>read\<close> finds this.
\<close>

datatype key = Byte "8 word" | At_end | Failed

fun read_key :: "key list \<Rightarrow> key \<times> key list" where
  "read_key [] = (At_end, [])"
| "read_key (k # ks) = (k, ks)"

text \<open>\<open>char\<close> is signed: the value returned for a byte is that of the byte with its sign.\<close>

text \<open>The terminal: its local modes, the keys to come, and what was printed.\<close>

record tty =
  tt_lflag :: "32 word"
  tt_keys :: "key list"
  tt_out :: string

definition getch :: "tty \<Rightarrow> int \<times> tty" where
  "getch t = (case read_key (tt_keys t) of
       (Byte b, r) \<Rightarrow> (sint b, t\<lparr>tt_keys := r\<rparr>)
     | (At_end, r) \<Rightarrow> (- 1, t\<lparr>tt_keys := r\<rparr>)
     | (Failed, r) \<Rightarrow> (- 1, t\<lparr>tt_keys := r\<rparr>))"

definition type_line :: "int \<Rightarrow> string" where
  "type_line i = ''Type: '' @ show_int i @ [NL]"

text \<open>The loop; that it does not end is the value \<open>None\<close>.\<close>

partial_function (option) key_loop :: "tty \<Rightarrow> tty option" where
  "key_loop t =
     (case getch t of (i, t1) \<Rightarrow>
        if i \<noteq> ESC then key_loop (t1\<lparr>tt_out := tt_out t1 @ type_line i\<rparr>) else Some t1)"

text \<open>\<open>tcgetattr\<close> and \<open>tcsetattr\<close> succeed.\<close>

definition ICANON :: "32 word" where "ICANON = 2"
definition ECHO :: "32 word" where "ECHO = 8"

definition key_mode :: "32 word \<Rightarrow> 32 word" where
  "key_mode lflag = lflag AND NOT (ICANON OR ECHO)"

definition read_char_main :: "tty \<Rightarrow> tty option" where
  "read_char_main t =
     (let oldt = tt_lflag t; newt = key_mode oldt in
      case key_loop (t\<lparr>tt_lflag := newt\<rparr>) of
        None \<Rightarrow> None
      | Some t1 \<Rightarrow> Some (t1\<lparr>tt_lflag := oldt\<rparr>))"

text \<open>The value a key is read as, and whether it is the escape key.\<close>

fun key_code :: "key \<Rightarrow> int" where
  "key_code (Byte b) = sint b"
| "key_code At_end = - 1"
| "key_code Failed = - 1"

definition is_esc :: "key \<Rightarrow> bool" where
  "is_esc k \<longleftrightarrow> k = Byte 27"

lemma key_code_esc: "key_code k = ESC \<longleftrightarrow> is_esc k"
proof (cases k)
  case (Byte b)
  have "sint b = sint (27 :: 8 word) \<longleftrightarrow> b = 27" by (rule word_eq_iff_signed [symmetric])
  then show ?thesis using Byte by (simp add: is_esc_def ESC_def)
qed (simp_all add: is_esc_def ESC_def)

lemma getch_keys:
  "tt_keys t = k # ks \<Longrightarrow> getch t = (key_code k, t\<lparr>tt_keys := ks\<rparr>)"
  "tt_keys t = [] \<Longrightarrow> getch t = (- 1, t)"
  by (cases k) (simp_all add: getch_def)

lemma key_loop_step:
  "tt_keys t = k # ks \<Longrightarrow> \<not> is_esc k \<Longrightarrow>
     key_loop t = key_loop (t\<lparr>tt_keys := ks, tt_out := tt_out t @ type_line (key_code k)\<rparr>)"
  "tt_keys t = k # ks \<Longrightarrow> is_esc k \<Longrightarrow> key_loop t = Some (t\<lparr>tt_keys := ks\<rparr>)"
  using key_code_esc [of k] by (subst key_loop.simps, simp add: getch_keys)+

definition typed :: "key list \<Rightarrow> string" where
  "typed ks = concat (map (\<lambda>k. type_line (key_code k)) ks)"

lemma key_loop_split:
  "\<forall>k\<in>set ks. \<not> is_esc k \<Longrightarrow> tt_keys t = ks @ r \<Longrightarrow> key_loop t = key_loop (t\<lparr>tt_keys := r, tt_out := tt_out t @ typed ks\<rparr>)"
proof (induction ks arbitrary: t)
  case (Cons k ks)
  then show ?case by (simp add: key_loop_step(1) [of t k "ks @ r"] typed_def)
next
  case Nil
  then have "t\<lparr>tt_keys := r, tt_out := tt_out t @ typed []\<rparr> = t" by (cases t) (simp add: typed_def)
  then show ?case by simp
qed

text \<open>Without the escape key the loop does not return.\<close>

lemma key_loop_end:
  assumes "key_loop t = Some u"
  shows "\<exists>k\<in>set (tt_keys t). is_esc k"
proof (rule key_loop.raw_induct [OF _ assms])
  fix f t u
  assume ih: "\<And>t u. f t = Some u \<Longrightarrow> \<exists>k\<in>set (tt_keys t). is_esc k"
    and r: "(case getch t of (i, t1) \<Rightarrow> if i \<noteq> ESC then f (t1\<lparr>tt_out := tt_out t1 @ type_line i\<rparr>) else Some t1) = Some u"
  show "\<exists>k\<in>set (tt_keys t). is_esc k"
  proof (cases "tt_keys t")
    case Nil
    with r have "f (t\<lparr>tt_out := tt_out t @ type_line (- 1)\<rparr>) = Some u" by (simp add: getch_keys ESC_def)
    from ih [OF this] show ?thesis by simp
  next
    case (Cons k ks)
    with r ih show ?thesis by (auto simp: getch_keys key_code_esc split: if_splits dest!: ih)
  qed
qed

text \<open>
C40: \<open>read_char\<close> ends exactly when the escape key is among the keys, and then it has printed the code of every key before it,
has read none after it, and leaves the terminal in the mode it found; without the escape key it prints for
ever, since the end of the input is read as the key -1 again and again.
\<close>

theorem read_char_ends_iff:
  "(read_char_main t \<noteq> None \<longleftrightarrow> (\<exists>k\<in>set (tt_keys t). is_esc k))
   \<and> (\<forall>a b. tt_keys t = a @ Byte 27 # b \<and> (\<forall>k\<in>set a. \<not> is_esc k) \<longrightarrow>
        read_char_main t = Some (t\<lparr>tt_keys := b, tt_out := tt_out t @ typed a\<rparr>))"
proof -
  have e: "is_esc (Byte 27)" by (simp add: is_esc_def)
  have run: "read_char_main t = Some (t\<lparr>tt_keys := b, tt_out := tt_out t @ typed a\<rparr>)"
    if k: "tt_keys t = a @ Byte 27 # b" and a: "\<forall>k\<in>set a. \<not> is_esc k" for a b
  proof -
    let ?t = "t\<lparr>tt_lflag := key_mode (tt_lflag t)\<rparr>"
    have "key_loop ?t = Some (?t\<lparr>tt_keys := b, tt_out := tt_out t @ typed a\<rparr>)"
      using key_loop_split [OF a, of ?t "Byte 27 # b"] k by (simp add: key_loop_step(2) [OF _ e])
    then show ?thesis by (simp add: read_char_main_def)
  qed
  have "\<exists>k\<in>set (tt_keys t). is_esc k" if "read_char_main t \<noteq> None"
  proof -
    from that obtain u where "key_loop (t\<lparr>tt_lflag := key_mode (tt_lflag t)\<rparr>) = Some u"
      by (auto simp: read_char_main_def Let_def split: option.splits)
    from key_loop_end [OF this] show ?thesis by simp
  qed
  moreover have "read_char_main t \<noteq> None" if x: "\<exists>k\<in>set (tt_keys t). is_esc k"
  proof -
    obtain a k b where "tt_keys t = a @ k # b" "is_esc k" "\<forall>k\<in>set a. \<not> is_esc k"
      using split_list_first_prop [OF x] by blast
    with run show ?thesis by (simp add: is_esc_def)
  qed
  ultimately show ?thesis using run by blast
qed

lemma read_char_ends_iff_witness:
  "read_char_main \<lparr>tt_lflag = 10, tt_keys = [Byte 65, At_end, Byte 255, Byte 27, Byte 66], tt_out = []\<rparr>
     = Some \<lparr>tt_lflag = 10, tt_keys = [Byte 66], tt_out = type_line 65 @ type_line (- 1) @ type_line (- 1)\<rparr>"
proof -
  let ?t = "\<lparr>tt_lflag = 10, tt_keys = [Byte 65, At_end, Byte 255, Byte 27, Byte 66], tt_out = []\<rparr>"
  have "tt_keys ?t = [Byte 65, At_end, Byte 255] @ Byte 27 # [Byte 66] \<and> (\<forall>k\<in>set [Byte 65, At_end, Byte 255]. \<not> is_esc k)"
    by (simp add: is_esc_def)
  with conjunct2 [OF read_char_ends_iff [of ?t]] have "read_char_main ?t
    = Some (?t\<lparr>tt_keys := [Byte 66], tt_out := tt_out ?t @ typed [Byte 65, At_end, Byte 255]\<rparr>)" by blast
  then show ?thesis by (simp add: typed_def)
qed

section \<open>\<open>r.c\<close>\<close>

text \<open>
  \<open>malloc\<close> gives a block or not; \<open>read\<close> gives bytes, at most 99, or an error.  The block is indeterminate but for what was read,
  and \<open>printf\<close> of it as a string needs a NUL in it.  \<open>errno0\<close> is \<open>errno\<close> before.  \<open>None\<close> is undefined.
\<close>

datatype rd = Rd_bytes string | Rd_error int

definition r_max :: nat where "r_max = 100"

fun r_nread :: "rd \<Rightarrow> int" where
  "r_nread (Rd_bytes b) = int (length (take (r_max - 1) b))"
| "r_nread (Rd_error e) = - 1"

fun r_buf :: "rd \<Rightarrow> cbuf" where
  "r_buf (Rd_bytes b) = (let t = take (r_max - 1) b in map Some t @ uninit (r_max - length t))"
| "r_buf (Rd_error e) = uninit r_max"

definition r_main :: "bool \<Rightarrow> int \<Rightarrow> rd \<Rightarrow> string option" where
  "r_main malloc_ok errno0 x =
     (case (if malloc_ok then cstr (r_buf x) else None) of
        None \<Rightarrow> None
      | Some s \<Rightarrow> Some (''FD: '' @ show_int STDIN_FILENO @ [NL]
          @ ''Err: '' @ show_int (case x of Rd_bytes b \<Rightarrow> errno0 | Rd_error e \<Rightarrow> e) @ [NL]
          @ ''Read: '' @ s @ [NL] @ '' Char: '' @ show_int (r_nread x) @ [NL]))"

lemma cstr_uninit: "cstr (map Some t @ uninit n) = None \<longleftrightarrow> NUL \<notin> set t"
proof (induction t)
  case Nil
  show ?case by (cases n) (simp_all add: uninit_def)
qed auto

text \<open>
The program \<open>r\<close> is free of undefined behaviour only when a NUL is among the first 99 bytes it reads: it does not
terminate what it has read before it prints it as a string.
\<close>

theorem r_main_undefined_iff:
  "r_main m e x = None \<longleftrightarrow> \<not> (m \<and> (\<exists>b. x = Rd_bytes b \<and> NUL \<in> set (take 99 b)))"
proof (cases x)
  case (Rd_bytes b)
  let ?n = "100 - length (take 99 b)"
  show ?thesis
    using Rd_bytes cstr_uninit [of "take 99 b" ?n]
    by (cases "cstr (map Some (take 99 b) @ uninit ?n)") (simp_all add: r_main_def r_max_def Let_def)
next
  case (Rd_error n)
  then show ?thesis using cstr_uninit [of "[]"] by (simp add: r_main_def r_max_def)
qed

section \<open>\<open>t.c\<close>\<close>

text \<open>\<open>ttyname\<close> gives a null pointer for a descriptor that is no terminal, and to print it as a string is undefined.\<close>

definition t_line :: "string \<Rightarrow> fd \<Rightarrow> string \<Rightarrow> string" where
  "t_line what d tty = ''TTY '' @ what @ ''('' @ show_int d @ ''): '' @ tty @ [NL]"

definition t_main :: "(fd \<Rightarrow> string option) \<Rightarrow> string option" where
  "t_main ttyname =
     (case ttyname STDIN_FILENO of None \<Rightarrow> None | Some t0 \<Rightarrow>
      (case ttyname STDOUT_FILENO of None \<Rightarrow> None | Some t1 \<Rightarrow>
      (case ttyname STDERR_FILENO of None \<Rightarrow> None | Some t2 \<Rightarrow>
         Some (t_line ''IN'' STDIN_FILENO t0 @ t_line ''OUT'' STDOUT_FILENO t1 @ t_line ''ERR'' STDERR_FILENO t2))))"

end
