(* ===== verification/Firsts.thy ===== *)
theory Firsts
  imports Display
begin

text \<open>
  The short programs: \<open>basic_io/lock.c\<close>, \<open>fundamental_ex/date.c\<close>, \<open>process/env.c\<close>, \<open>advanced_io/example.c\<close>,
  \<open>fundamental_ex/t.c\<close>, \<open>fundamental_ex/hello_world.c\<close>, \<open>process/pc.c\<close>, \<open>process/ec.c\<close> with \<open>ec.h\<close> and \<open>signal/fork_test.c\<close>.  Each is a function from what the system
  answers to what is printed or done.
\<close>

section \<open>\<open>lock.c\<close>\<close>

definition LOCKDIR :: string where "LOCKDIR = ''/tmp/''"

definition path_size :: nat where "path_size = 100"

text \<open>
  \<open>lockpath\<close>: \<open>snprintf\<close> returns the length the text would have, and writes what fits.  The result is whether
  the pointer is not null, and the static array.
\<close>

definition lockpath :: "string \<Rightarrow> bool \<times> string" where
  "lockpath name =
     (let path = snprintf path_size (LOCKDIR @ name) in
      if length (LOCKDIR @ name) > path_size then (False, path) else (True, path))"

text \<open>
\<open>lockpath\<close> accepts names of up to 95 characters, but the path of a name of exactly 95 characters does not fit with its NUL and
loses its last character (the comparison is \<open>>\<close> where \<open>>=\<close> is meant); so the locks of distinct names are distinct
files exactly as long as the names do not differ in their 95th character only.
\<close>

theorem lockpath_shares_a_lock:
  shows "(fst (lockpath n) \<longleftrightarrow> length n \<le> 95)
    \<and> (snd (lockpath n) = LOCKDIR @ n \<longleftrightarrow> length n \<le> 94)
    \<and> (snd (lockpath n) = snd (lockpath m) \<longleftrightarrow> take 94 n = take 94 m)"
proof -
  have d: "length LOCKDIR = 5" by (simp add: LOCKDIR_def)
  have s: "snd (lockpath k) = LOCKDIR @ take 94 k" for k
    by (simp add: lockpath_def path_size_def snprintf_def Let_def d)
  have "take 94 n = n \<longleftrightarrow> length n \<le> 94" by (metis length_take min.absorb_iff1 nle_le take_all_iff)
  then show ?thesis
    unfolding s by (simp add: lockpath_def path_size_def Let_def d)
qed

section \<open>\<open>date.c\<close>\<close>

record tm =
  tm_year :: int
  tm_gmtoff :: int

text \<open>Division of C rounds towards 0; \<open>%+03li\<close> prints a sign and at least two digits.\<close>

definition c_div :: "int \<Rightarrow> int \<Rightarrow> int" where
  "c_div a b = sgn a * sgn b * (\<bar>a\<bar> div \<bar>b\<bar>)"

definition show_plus03 :: "int \<Rightarrow> string" where
  "show_plus03 i = (let d = show_nat (nat \<bar>i\<bar>) in
     (if i < 0 then CHR ''-'' else CHR ''+'') # replicate (2 - length d) (CHR ''0'') @ d)"

text \<open>The result is what the array of \<open>n\<close> characters holds; the value returned is 0 in both.\<close>

definition get_year :: "tm \<Rightarrow> nat \<Rightarrow> string" where
  "get_year t n = snprintf n (show_int (tm_year t + 1900))"

definition get_tz :: "tm \<Rightarrow> nat \<Rightarrow> string" where
  "get_tz t n = snprintf n (show_plus03 (c_div (tm_gmtoff t) 3600))"

text \<open>\<open>None\<close> is undefined: \<open>localtime\<close> gives a null pointer, or the sum in \<open>get_year\<close> overflows.\<close>

definition date_main :: "tm option \<Rightarrow> string option" where
  "date_main localtime =
     (case localtime of
        None \<Rightarrow> None
      | Some t \<Rightarrow> if 2 ^ 31 \<le> tm_year t + 1900 then None else Some (get_tz t 4 @ '' '' @ get_year t 5 @ '' '' @ [NL]))"

section \<open>\<open>env.c\<close>\<close>

text \<open>\<open>getenv\<close>: what follows the name and the equality sign in the first entry that begins with them.\<close>

fun getenv :: "string \<Rightarrow> string list \<Rightarrow> string option" where
  "getenv n [] = None"
| "getenv n (e # es) =
     (if take (Suc (length n)) e = n @ ''='' then Some (drop (Suc (length n)) e) else getenv n es)"

definition env_main :: "string list \<Rightarrow> string" where
  "env_main environ =
     concat (map (\<lambda>e. e @ [NL]) environ)
     @ (case getenv ''LOGNAME'' environ of
          None \<Rightarrow> ''variable not found '' @ [NL]
        | Some s \<Rightarrow> ''value is '' @ [CHR 0x27] @ s @ [CHR 0x27, NL])"

section \<open>\<open>example.c\<close>\<close>

text \<open>
  \<open>getcwd\<close> with a null pointer and a size allocates, or gives a null pointer when the path does not fit; to print
  this is undefined (\<open>None\<close>).  A pointer has 8 bytes.
\<close>

definition getcwd :: "string \<Rightarrow> nat \<Rightarrow> string option" where
  "getcwd cwd n = (if length cwd < n then Some cwd else None)"

definition example_main :: "string \<Rightarrow> (string \<Rightarrow> int) \<Rightarrow> string option" where
  "example_main cwd path_max =
     (case getcwd cwd 200 of
        None \<Rightarrow> None
      | Some current_path \<Rightarrow>
          Some (''Size of path(Dynamic): '' @ show_int 8 @ '' '' @ [NL]
            @ ''Current Path: '' @ current_path @ '' '' @ [NL]
            @ ''Max path length: '' @ show_int (path_max current_path) @ '' '' @ [NL]))"

section \<open>\<open>t.c\<close> of the first examples\<close>

text \<open>A store of one variable, written through its address; \<open>ptr\<close> is how \<open>printf\<close> shows an address.\<close>

definition address_main :: "(nat \<Rightarrow> string) \<Rightarrow> nat \<Rightarrow> string" where
  "address_main ptr age_at =
     (let address = age_at; mem = (\<lambda>a. 0)(address := 37 :: int) in
      ''TEST'' @ [NL] @ show_int (mem address) @ '' '' @ show_int (mem age_at) @ '' - '' @ ptr address @ '' '' @ [NL])"

section \<open>\<open>hello_world.c\<close>\<close>

text \<open>What the headers make of a macro: nothing, a name without a value, or a number.\<close>

datatype pp_macro = Undefined | No_value | Number int

fun is_defined :: "pp_macro \<Rightarrow> bool" where
  "is_defined Undefined \<longleftrightarrow> False"
| "is_defined m \<longleftrightarrow> True"

fun pp_number :: "pp_macro \<Rightarrow> int" where
  "pp_number (Number n) = n"
| "pp_number m = 0"

record features =
  mac_POSIX_SOURCE :: pp_macro
  mac_XOPEN_SOURCE :: pp_macro
  mac_XOPEN_SOURCE_EXTENDED :: pp_macro
  mac_POSIX_VERSION :: pp_macro
  mac_XOPEN_UNIX :: pp_macro
  mac_XOPEN_VERSION :: pp_macro

definition text_line :: "string \<Rightarrow> string" where
  "text_line t = TAB # t @ [NL]"

definition request_text :: "features \<Rightarrow> string" where
  "request_text m = ''Request:'' @ [NL]
     @ (if is_defined (mac_POSIX_SOURCE m) then text_line ''_POSIX_SOURCE defined'' else text_line ''_POSIX_SOURCE undefined'')
     @ (if is_defined (mac_XOPEN_SOURCE m) then
          (if pp_number (mac_XOPEN_SOURCE m) + 0 = 0 then text_line ''_XOPEN_SOURCE defined (no value)''
           else text_line (''_XOPEN_SOURCE = '' @ show_int (pp_number (mac_XOPEN_SOURCE m))))
        else text_line ''_XOPEN_SOURCE undefined'')
     @ (if is_defined (mac_XOPEN_SOURCE_EXTENDED m) then text_line ''_XOPEN_SOURCE_EXTENDED defined''
        else text_line ''_XOPEN_SOURCE_EXTENDED undefined'')"

text \<open>The versions have a number when they are defined.\<close>

definition claims_text :: "features \<Rightarrow> string" where
  "claims_text m = ''Claims:'' @ [NL]
     @ (if is_defined (mac_POSIX_VERSION m) then text_line (''_POSIX_VERSION = '' @ show_int (pp_number (mac_POSIX_VERSION m)))
        else TAB # ''Not POSIX'')
     @ (if is_defined (mac_XOPEN_UNIX m) then
          text_line ''X/Open''
          @ (if is_defined (mac_XOPEN_VERSION m) then text_line (''_XOPEN_VERSION = '' @ show_int (pp_number (mac_XOPEN_VERSION m)))
             else text_line ''Error: _XOPEN_UNIX defined, but not _XOPEN_VERSION'')
        else text_line ''Not X/Open'')"

text \<open>A loop over the names of the system, from one number to another, both included.\<close>

definition conf_lines :: "(int \<Rightarrow> int) \<Rightarrow> int \<times> int \<Rightarrow> string" where
  "conf_lines f r = concat (map (\<lambda>i. text_line (''Conf['' @ show_int i @ '']: '' @ show_int (f i))) [fst r..snd r])"

text \<open>
  \<open>sysconf\<close>, \<open>pathconf\<close> of the root and the length \<open>confstr\<close> gives; the numbers of \<open>_SC_ARG_MAX\<close> to
  \<open>_SC_THREAD_ROBUST_PRIO_PROTECT\<close>, \<open>_PC_LINK_MAX\<close> to \<open>_PC_2_SYMLINKS\<close> and \<open>_CS_PATH\<close> to \<open>_CS_V7_ENV\<close>.
\<close>

record sys_names =
  sc_range :: "int \<times> int"
  pc_range :: "int \<times> int"
  cs_range :: "int \<times> int"

definition hello_main :: "features \<Rightarrow> sys_names \<Rightarrow> (int \<Rightarrow> int) \<Rightarrow> (int \<Rightarrow> int) \<Rightarrow> (int \<Rightarrow> int) \<Rightarrow> string" where
  "hello_main m n sysconf pathconf confstr =
     request_text m @ claims_text m
     @ ''--------------------'' @ [NL] @ ''Sysconf:'' @ [NL] @ conf_lines sysconf (sc_range n)
     @ ''pathconf:'' @ [NL] @ conf_lines pathconf (pc_range n)
     @ ''confstr:'' @ [NL] @ conf_lines confstr (cs_range n)"

section \<open>\<open>pc.c\<close>\<close>

text \<open>
  How a child ends, and what \<open>waitid\<close> reports of it.  When there is no child \<open>waitid\<close> fails and \<open>info\<close>
  is indeterminate, which \<open>display_status_s\<close> then reads.
\<close>

datatype ending = Exited int | Signalled int bool

definition SIGHUP :: int where "SIGHUP = 1"
definition SIGFPE :: int where "SIGFPE = 8"

fun child_info :: "pid \<times> ending \<Rightarrow> siginfo" where
  "child_info (p, Exited n) = \<lparr>si_pid = p, si_code = 1, si_status = n mod 256, si_errno = 0\<rparr>"
| "child_info (p, Signalled n core) = \<lparr>si_pid = p, si_code = (if core then 3 else 2), si_status = n, si_errno = 0\<rparr>"

text \<open>What the program does: text, and \<open>kill\<close> with its arguments; at the end it exits or is undefined.\<close>

datatype pc_event = Pc_out string | Pc_kill int int | Pc_exit int | Pc_undefined

fun pc_wait :: "(int \<Rightarrow> string) \<Rightarrow> (pid \<times> ending) option \<Rightarrow> pc_event list \<Rightarrow> pc_event list" where
  "pc_wait strsignal None rest = [Pc_undefined]"
| "pc_wait strsignal (Some c) rest = Pc_out (display_status_s strsignal (child_info c)) # rest"

text \<open>
  Division by 0 is undefined in C: \<open>fpe\<close> is the ending of the child that divides.  The last child is killed by
  \<open>SIGHUP\<close> while it sleeps, unless the program was started with that signal ignored.  A failed \<open>fork\<close> gives -1, which
  is not 0, so that the program goes on as the parent.
\<close>

definition fork_pid :: "pid option \<Rightarrow> int" where
  "fork_pid f = (case f of None \<Rightarrow> - 1 | Some p \<Rightarrow> p)"

definition pc_main :: "(int \<Rightarrow> string) \<Rightarrow> ending \<Rightarrow> bool \<Rightarrow> pid option \<Rightarrow> pid option \<Rightarrow> pid option \<Rightarrow> pc_event list" where
  "pc_main strsignal fpe hup_ignored f1 f2 f3 =
     pc_wait strsignal (map_option (\<lambda>p. (p, Exited 123)) f1)
       (pc_wait strsignal (map_option (\<lambda>p. (p, fpe)) f2)
         (Pc_kill (fork_pid f3) SIGHUP
          # pc_wait strsignal (map_option (\<lambda>p. (p, if hup_ignored then Exited 0 else Signalled SIGHUP False)) f3)
              [Pc_exit 0]))"

text \<open>
When the three \<open>fork\<close>s succeed, \<open>pc\<close> reports the exit value 123, the ending of the child that divides and the signal it
sent itself, and signals its last child only; it is undefined exactly when a \<open>fork\<close> fails; and when only the last one
fails it has first sent \<open>SIGHUP\<close> to every process it may signal.
\<close>

theorem pc_main_outcome:
  "(Pc_undefined \<in> set (pc_main g x h f1 f2 f3) \<longleftrightarrow> f1 = None \<or> f2 = None \<or> f3 = None)
   \<and> (Pc_kill (- 1) SIGHUP \<in> set (pc_main g x h (Some p) (Some q) None))
   \<and> (\<forall>n. Pc_kill n SIGHUP \<in> set (pc_main g x h (Some p) (Some q) (Some r)) \<longleftrightarrow> n = r)
   \<and> pc_main g (Signalled SIGFPE True) False (Some p) (Some q) (Some r) =
       [Pc_out (''Process '' @ show_int p @ '' terminated:'' @ [NL] @ [TAB] @ ''code = 1('' @ g 1 @ '')'' @ [NL, TAB]
          @ ''user-defined exit value = 123'' @ [NL, TAB] @ ''error = 0'' @ [NL]),
        Pc_out (''Process '' @ show_int q @ '' terminated:'' @ [NL] @ [TAB] @ ''code = 3('' @ g 3 @ '')'' @ [NL, TAB]
          @ ''signal = 8('' @ g 8 @ '')'' @ [NL, TAB] @ ''error = 0'' @ [NL]),
        Pc_kill r 1,
        Pc_out (''Process '' @ show_int r @ '' terminated:'' @ [NL] @ [TAB] @ ''code = 2('' @ g 2 @ '')'' @ [NL, TAB]
          @ ''signal = 1('' @ g 1 @ '')'' @ [NL, TAB] @ ''error = 0'' @ [NL]),
        Pc_exit 0]"
proof -
  have n: "show_int 0 = ''0''" "show_int 1 = ''1''" "show_int 2 = ''2''" "show_int 3 = ''3''" "show_int 8 = ''8''"
    "show_int 123 = ''123''" by code_simp+
  show ?thesis
    by (cases f1; cases f2; cases f3)
       (auto simp: pc_main_def fork_pid_def display_status_s_def CLD_EXITED_def SIGHUP_def SIGFPE_def n)
qed

section \<open>\<open>fork_test.c\<close>\<close>

text \<open>The lines of the parent and of the child, which has the result 0 of \<open>fork\<close>.\<close>

definition pid_line :: "int \<Rightarrow> string" where
  "pid_line pid = ''PID: '' @ show_int pid @ [NL]"

definition fork_test_main :: "pid option \<Rightarrow> string list" where
  "fork_test_main f = pid_line (fork_pid f) # (case f of None \<Rightarrow> [] | Some p \<Rightarrow> [pid_line 0])"

section \<open>\<open>ec.c\<close> and \<open>ec.h\<close> of \<open>process/\<close>\<close>

text \<open>The function and the macro that calls it, on the text of the standard error.\<close>

definition process_ec_warn :: "string \<Rightarrow> string" where
  "process_ec_warn stderr = stderr @ ''***WARNING: Control flowed into EC_CLEANUP_BGN'' @ [NL]"

definition EC_WARN :: "string \<Rightarrow> string" where
  "EC_WARN stderr = process_ec_warn stderr"

end
