(* ===== verification/Lockfile.thy ===== *)
theory Lockfile
  imports Firsts EcStack
begin

text \<open>
  The rest of \<open>basic_io/lock.c\<close>: the unfinished function \<open>lock\<close>, on top of the error stack.
\<close>

text \<open>
  \<open>lock\<close> asks for the path and then ends: after the last statement it falls off its end, so that a caller that uses its value uses an
  indeterminate one; and where the macro \<open>ec_null\<close> finds a null pointer it jumps to a label that the function does not have, which is why
  the file does not compile.  Both are values here.  \<open>p\<close> is the address of the static array of \<open>lockpath\<close>; \<open>tries\<close> is assigned and never read.
\<close>

datatype lock_end = No_value | No_label

definition lock_site :: site where
  "lock_site = \<lparr>st_func = ''lock'', st_file = ''lock.c'', st_line = 18, st_text = ''path = lockpath(name)''\<rparr>"

definition lock :: "ec_env \<Rightarrow> int \<Rightarrow> string \<Rightarrow> int \<Rightarrow> ecst \<Rightarrow> (lock_end \<times> ecst) ec_res" where
  "lock ev p name errno s =
     (let path = (if fst (lockpath name) then p else 0) in
      ec_bind (ec_null ev False lock_site path errno s)
        (\<lambda>(c, s1). case c of Goto_cleanup \<Rightarrow> Ec_ok (No_label, s1)
           | Falls_through \<Rightarrow> (let tries = (0::int) in Ec_ok (No_value, s1))))"

definition lock_main :: int where "lock_main = 0"

text \<open>
\<open>lock\<close> never locks anything.  For a name of at most 95 characters it changes nothing and returns nothing; for a longer one it
puts one entry on the error stack, whose error number is the \<open>errno\<close> some earlier call left, since
\<open>snprintf\<close> does not set it when the text does not fit, and goes to the missing label.
\<close>

theorem lock_locks_nothing:
  assumes h: "ec_holds (ev, s) (es, out)" and "to_intptr p \<noteq> 0"
  shows "length name \<le> 95 \<Longrightarrow> lock ev p name errno s = Ec_ok (No_value, s)"
    and "95 < length name \<Longrightarrow> \<exists>s'. lock ev p name errno s = Ec_ok (No_label, s')
      \<and> ec_holds (ev, s') ((stored_text True ''lock'' ''lock.c'' 18 ''path = lockpath(name)'', errno, EC_ERRNO) # es, out)"
proof -
  have l: "fst (lockpath name) \<longleftrightarrow> length name \<le> 95" by (simp add: lockpath_def path_size_def LOCKDIR_def Let_def)
  have z: "to_intptr 0 = 0" by (simp add: to_intptr_def)
  show "lock ev p name errno s = Ec_ok (No_value, s)" if "length name \<le> 95"
    using that l assms(2) z by (simp add: lock_def ec_null_def ec_cmp_def)
  show "\<exists>s'. lock ev p name errno s = Ec_ok (No_label, s')
      \<and> ec_holds (ev, s') ((stored_text True ''lock'' ''lock.c'' 18 ''path = lockpath(name)'', errno, EC_ERRNO) # es, out)" if "95 < length name"
  proof -
    obtain s' where "push_and_goto ev lock_site errno EC_ERRNO s = Ec_ok (Goto_cleanup, s')"
      "ec_holds (ev, s') (entry_of (site_args lock_site errno EC_ERRNO) # es, out)"
      using push_and_goto_holds [OF h] by blast
    moreover have "entry_of (site_args lock_site errno EC_ERRNO) = (stored_text True ''lock'' ''lock.c'' 18 ''path = lockpath(name)'', errno, EC_ERRNO)"
      by (simp add: entry_of_def site_args_def lock_site_def)
    ultimately show ?thesis using that l by (intro exI [of _ s']) (simp add: lock_def ec_null_def ec_cmp_def)
  qed
qed

end
