(* ===== verification/Spec2Isabelle.thy ===== *)
theory Spec2Isabelle
  imports ShellTheorems ShellJobs ClTheorems SmiTheorems MutRuns Link Pipes Networks
    EcTheorems Logf Macrostr Options FifoApp Sockets Terminal Lockfile
begin

text \<open>
  A verification library for the C programs of this repository.  The repository is a collection of small Unix
  programs, each with a \<open>main\<close> of its own, and of a support library (\<open>common/\<close>) for reporting errors.  The programs
  talk to the kernel and, through it, to each other; they share almost no code.  The library has one theory, or one
  chain of theories, for each of them, over three theories they share.  Every definition is a translation of the
  function it is named after; where one C function is split into several definitions, the text before them says how.

  \<^bold>\<open>What is shared.\<close>
  \<^item> \<open>Prelude\<close>: the collections \<open>buf_simps\<close>, \<open>fd_simps\<close> and \<open>shell_simps\<close>, and facts on lists.
  \<^item> \<open>CLib\<close>: character arrays and what the sources use of the C library: \<open>strchr\<close>, \<open>strtok\<close>, \<open>atoi\<close>, \<open>fgets\<close>,
    \<open>snprintf\<close>, \<open>toupper\<close> with the characters it is defined for (\<open>ctype_defined\<close>; \<open>char\<close> is signed).  An array is a list of cells, \<open>None\<close> for a cell that was not written; \<open>cstr\<close> is the string in it, or
    \<open>None\<close> where reading it is undefined behaviour.
  \<^item> \<open>Posix\<close>: descriptor tables, \<open>open\<close>, \<open>dup2\<close>, \<open>close\<close>, \<open>pipe\<close>, \<open>fcntl\<close>.  The locale \<open>descriptor_ops\<close> states what the
    programs rely on (which descriptors a table has after \<open>dup2\<close> and \<open>close\<close>) and proves the idiom of every child
    once; the interpretation \<open>fds\<close> gives it the model's own tables.
  \<^item> \<open>Runs\<close>: what it means that every run of a concurrent program ends well (\<open>always_ends\<close>).  The locale \<open>ranked_system\<close> is
    how it is shown, by an invariant and a rank in a well-order that every step lowers; its interpretations are \<open>messages\<close> (the FIFO
    programs), \<open>threads\<close> (\<open>mut.c\<close>), \<open>rows\<close> (processes connected by pipes), \<open>sorting\<close> (\<open>fsort.c\<close>) and \<open>lines\<close> (the lines
    of a script; its rank is lexicographic).
  \<^item> \<open>PipeNet\<close>: processes that run at the same time and read and write through their descriptor tables, with pipes of
    any capacity \<open>cap\<close> of at least one character; no source file is translated here, it is what POSIX says of \<open>read\<close>, \<open>write\<close> and the
    end of a process.  \<open>PipeChain\<close>: processes in a row, each writing the pipe the following one reads, always end with the
    composition of their programs, if nobody else holds an end of these pipes.  \<open>PipeJobs\<close>: several such rows at work at the same
    time on shared files, started in order, some of them only when an earlier one has ended.

  \<^bold>\<open>The shell\<close>, \<open>communication/shell.c\<close>, is the largest program.
  \<^item> \<open>Display\<close>: \<open>display.c\<close>, the report of how a child ended, on wait statuses of 32 bits.
  \<^item> \<open>ShellState\<close>: the state \<open>shell\<close> of the process (input, descriptors, environment, signals, heap, children) and
    the environment \<open>world\<close>: which \<open>fork\<close>, \<open>pipe\<close>, \<open>malloc\<close> and \<open>open\<close> succeed, what the children do, and for each \<open>waitpid\<close> which
    child it gives, or that it never returns (\<open>w_reap\<close>, \<open>None\<close>); \<open>children_end\<close> says that it always does.  Three fields of the state are no
    variables of the program but records of its run: the trace of what is printed, the children that were given to \<open>waitpid\<close>
    with the number of forks made by then (\<open>sh_reaped\<close>), and how often an unassigned \<open>append\<close> was passed to \<open>invoke\<close> (\<open>sh_stray\<close>).
  \<^item> \<open>ShellBuiltin\<close>: \<open>set\<close>, \<open>asg\<close>, \<open>cd\<close>, \<open>ignore_sig\<close>, \<open>entry_sig\<close>.  \<open>ShellExec\<close>: \<open>fd_check\<close>, \<open>redirect\<close>, \<open>invoke\<close>; a child is
    computed on a copy of the descriptor table.  \<open>ShellLexer\<close>: \<open>store_char\<close> and the state machine \<open>gettoken\<close>, with
    its specification \<open>lex\<close>.  \<open>ShellCommand\<close>: \<open>command\<close>; a turn of its loop is \<open>cmd_step\<close>, what follows a terminator
    \<open>cmd_finish\<close>.  \<open>ShellMain\<close>: \<open>wait_and_display\<close>, \<open>start_shell\<close>, \<open>main\<close>, \<open>test_gettoken\<close>.
  \<^item> \<open>ShellPipeline\<close> shows that the recursion of \<open>command\<close> is a reading phase and a running phase; \<open>ShellSyntax\<close> that what is
    printed as a command line is read back; \<open>ShellRun\<close> what holds of every run.  \<open>ShellSpec\<close> has the
    specification of whole scripts, \<open>spec_script\<close>, which knows no descriptors, no heap and no recursion, and shows that \<open>main\<close> refines it whatever
    \<open>malloc\<close> and \<open>fork\<close> answer; \<open>ShellScript\<close> has the cases of it in which every command starts its process, or one of a
    pipeline does not; \<open>ShellWaits\<close> which children have been waited for.
    \<open>ShellTheorems\<close> has the properties: any script does what its specification says, the lexer refines
    its specification, no array is overrun when the words of the input fit, and \<open>main\<close> ends unless it waits for a child
    that does not; and the errors of
    the program, at the end of the input, in a pipeline with a builtin, on long words, and in every command without an
    output file, for which an indeterminate \<open>append\<close> is passed on.
  \<^item> \<open>ShellNet\<close> puts the children of a line, with the tables \<open>command\<close> gives them, into a row of \<open>PipeChain\<close> beside the shell and
    the children of earlier lines: pipelines never deadlock and compute what is written.  The network starts when the last child of
    the line has been started, and the line does not write the file it reads.  \<open>ShellSession\<close> says what the files of a script are to
    become, and takes from the record \<open>sh_reaped\<close> of a run of \<open>main\<close> which line may start before another has ended (\<open>goes_on\<close>).
    \<open>ShellJobs\<close> runs the children of all lines of a script in that order: the shell waits for the rightmost command only, a command of an earlier line that is still at
    work can no longer reach a file, and lines in the background run beside whatever
    follows; the files are at the end what the lines make of them one after the other, if no line reads or writes a file that a background
    line still at work writes, and conversely.  A line takes the contents of its input file when it starts.  What a program
    makes of its input is the same each time it is run, and pids are not used twice; which files can be opened is given by \<open>world\<close>.

  \<^bold>\<open>The command-line program\<close>, \<open>process/cl.c\<close>: \<open>Cl\<close> and \<open>ClTheorems\<close>.  It uses the state of the shell.  A child whose
  \<open>execvp\<close> fails returns into the loop of \<open>main\<close>, so the model of \<open>main\<close> runs the child to its end inside the parent's loop.
  The loop that eats the rest of a line is a \<open>partial_function\<close>, whose value is \<open>None\<close> when it does not end; a program
  that never ends leaves its parent in \<open>waitpid\<close> (\<open>ClBlocked\<close>).

  \<^bold>\<open>The message server\<close>, \<open>ad_comm/smi_server.c\<close> with \<open>smi.h\<close>: \<open>SmiQueue\<close> (the queue over FIFOs and its table of clients),
  \<open>SmiServer\<close> (the server against the specification \<open>spec_serve\<close>, which ends with undefined behaviour at a message that is not
  \<open>clean\<close>) and \<open>SmiTheorems\<close>.  The locale \<open>client_table\<close> is the
  interface between the table and the queue, interpreted as \<open>tbl\<close>.  The endless loop of \<open>main\<close> is taken for as many turns as there
  are messages.

  \<^bold>\<open>The FIFO programs\<close>, \<open>ad_comm/fifo_app.c\<close> and \<open>fifo_app_client.c\<close>: \<open>Fifo\<close> has the two processes as step relations over the FIFOs of the
  system, where \<open>open\<close> waits for the other end; \<open>FifoInv\<close> the invariant of any number of clients and a server; \<open>FifoApp\<close> the
  replies, the end of every run, by the measure \<open>fifo_rank\<close> that every step lowers, and what happens to a client whose FIFO
  does not exist, which is what the programs as written make of every client on its first run.

  \<^bold>\<open>The support library\<close>, \<open>common/\<close>.
  \<^item> \<open>Logf\<close>: \<open>logf.c\<close>.  \<open>init\<close> and \<open>logfmt\<close> are mutually recursive; the specification is the list of the lines logged.
  \<^item> \<open>Ec\<close>: \<open>ec.c\<close>, the macros of \<open>ec.h\<close> and \<open>pthreadstub.c\<close>.  The list of errors is linked nodes in a store; undefined behaviour,
    a deadlock on the mutex, a failed assertion and an exit are values of \<open>ec_res\<close>.  The loops over the list have fuel
    \<open>ec_fuel\<close>, one more than the addresses ever given out, which is enough for every list without a cycle
    (\<open>ec_inv_length\<close>).  \<open>EcStack\<close>: the invariant \<open>ec_inv\<close> of the list and the stack it stands for (\<open>ec_abs\<close>); the
    locale \<open>error_stack\<close> states what a program that reports errors relies on, and its interpretation \<open>errors\<close> is what
    \<open>Options\<close> and \<open>Macrostr\<close> use.  \<open>EcTheorems\<close>: the
    refinement of a stack, the one way into undefined behaviour, the deadlock with the log, the sizes of the buffers.
  \<^item> \<open>CTable\<close>: what a C compiler reads in the table that is generated, string literals with escape sequences and conditional
    groups; not a translation of source.  \<open>Macrostr\<close>: \<open>macrostr.c\<close> and \<open>mkmacrostr.c\<close>, the table of names and the program that compiles it; the locale
    \<open>name_table\<close> is what a caller may expect of the lookup, interpreted as \<open>ms\<close>.
  \<^item> \<open>Options\<close>: \<open>options.c\<close>, on top of the error stack.

  \<^bold>\<open>The other programs.\<close>  \<open>Mut\<close>: \<open>process/mut.c\<close>, two threads over a list, a mutex and a condition variable, as step
  relations over an explicit heap, with an allocation that may fail; \<open>MutRuns\<close>: the end of its runs, with the cancellation and any finite
  number of spurious wakeups.  \<open>Link\<close>: \<open>advanced_io/link.c\<close>, the report of a file's status.  \<open>Pipes\<close>: \<open>pipe.c\<close>, \<open>pread.c\<close>,
  \<open>who_count.c\<close> and \<open>fsort.c\<close> of \<open>communication/\<close>, one process after the other, the copying loops of \<open>fsort\<close> as a \<open>partial_function\<close>; \<open>Networks\<close>: the last two with their processes at the
  same time, as rows of \<open>PipeChain\<close>; the parent of \<open>fsort\<close> is the first and the last process of its row.  \<open>Sockets\<close>: \<open>socket/basic.c\<close>, a client and a server over a socket.  \<open>Terminal\<close>:
  the programs of \<open>terminal/\<close>; the loop that reads keys is a \<open>partial_function\<close>, whose value is \<open>None\<close> when it
  does not end.  \<open>Firsts\<close>: the short programs.  \<open>Lockfile\<close>: the unfinished \<open>lock\<close> of \<open>basic_io/lock.c\<close>, which does not compile: the
  end of its body without a result and the jump to a label it does not have are values.

  \<^bold>\<open>How the kernel is treated.\<close>  What the kernel, the C library beyond \<open>CLib\<close>, executed programs (\<open>sort\<close>, \<open>ls\<close>, \<open>wc\<close>) and
  functions outside the repository (\<open>syserrmsgtype\<close>) answer is an argument of the definitions: a function or a record
  that says which call succeeds with what.  Theorems that need certain answers have them as hypotheses, and have a
  witness at concrete ones.  Sequential programs are functions; where two processes or threads interleave, each is a
  relation with one step per system call, and a run is any interleaving.  Messages between the FIFO programs are
  shorter than \<open>PIPE_BUF\<close>, so they arrive whole.  Where POSIX leaves a call to the implementation the answer is that of
  Linux: a \<open>write\<close> of more than \<open>SSIZE_MAX\<close> characters moves none (\<open>fsort.c\<close>), and a socket can be connected after a
  \<open>connect\<close> on it has failed (\<open>basic.c\<close>).

  \<^bold>\<open>Integers.\<close>  Wait statuses, file modes, flags and terminal modes are words of 32 bits, pointers in comparisons words of 64, the bytes of
  the terminal words of 8, the counts of \<open>write\<close> in \<open>fsort\<close> words of 64; counters and descriptors, which stay far from their bounds, are integers.

  \<^bold>\<open>Not modelled.\<close>  \<open>communication/s.c\<close> is an ELF file under the name of a C file.   \<open>smi_close\<close> is declared but nowhere
  defined.  \<open>who_count.c\<close> and \<open>communication/display.c\<close> repeat functions of \<open>pipe.c\<close> and \<open>process/display.c\<close>.  The table
  \<open>macrostr.incl\<close> is generated data.  Progress messages of the FIFO programs and of the pipe programs, \<open>sleep\<close> and the
  flushing of the standard output are left out.
\<close>

end
